(* ===== verification/Prelude.thy ===== *)
theory Prelude
  imports Main "HOL-Library.Char_ord" "HOL-Library.List_Lexorder"
begin

text \<open>
  Shared vocabulary of the development: the collections the component theories fill, and generic
  lemmas on lists, options and the lexicographic order of strings that several components use.
  Nothing here models a particular file of the repository.
\<close>

named_theorems clib_simps "evaluation of the C library functions on strings"
named_theorems dbl_simps "arithmetic and comparison of doubles"
named_theorems buf_intros "what an operation on an output buffer preserves"
named_theorems db_simps "how the database operations change the tables"

type_synonym cstr = string

abbreviation DQUOTE :: char where "DQUOTE \<equiv> CHR 0x22"
abbreviation BACKSLASH :: char where "BACKSLASH \<equiv> CHR 0x5C"
abbreviation NEWLINE :: char where "NEWLINE \<equiv> CHR 0x0A"

subsection \<open>Joining strings\<close>

fun join :: "'a list \<Rightarrow> 'a list list \<Rightarrow> 'a list" where
  "join sep [] = []"
| "join sep [x] = x"
| "join sep (x # y # zs) = x @ sep @ join sep (y # zs)"

lemma join_Cons: "join sep (x # xs) = (if xs = [] then x else x @ sep @ join sep xs)"
  by (cases xs) auto

lemma join_snoc:
  "join sep (xs @ [x]) = (if xs = [] then x else join sep xs @ sep @ x)"
  by (induction sep xs rule: join.induct) (auto simp: join_Cons)

lemma length_join:
  "length (join sep xs) = sum_list (map length xs) + (length xs - 1) * length sep"
  by (induction sep xs rule: join.induct) (auto simp: algebra_simps)

subsection \<open>Lists\<close>

lemma takeWhile_length_less:
  "length (takeWhile P xs) < length xs \<Longrightarrow> \<not> P (xs ! length (takeWhile P xs))"
  by (rule nth_length_takeWhile)

lemma filter_all_False: "(\<And>x. x \<in> set xs \<Longrightarrow> \<not> P x) \<Longrightarrow> filter P xs = []"
  by (simp add: filter_empty_conv)

lemma filter_all_True: "(\<And>x. x \<in> set xs \<Longrightarrow> P x) \<Longrightarrow> filter P xs = xs"
  by (simp add: filter_id_conv)

lemma distinct_map_filter_conj:
  "distinct (map f (filter P xs)) \<Longrightarrow> distinct (map f (filter (\<lambda>x. Q x \<and> P x) xs))"
proof -
  assume "distinct (map f (filter P xs))"
  then have "distinct (map f (filter Q (filter P xs)))" by (rule distinct_map_filter)
  moreover have "filter Q (filter P xs) = filter (\<lambda>x. Q x \<and> P x) xs"
    by (simp add: conj_commute)
  ultimately show ?thesis by simp
qed

subsection \<open>The byte order of strings\<close>

text \<open>
  \<open>strcmp\<close> and SQLite's BINARY collation compare byte by byte, a proper prefix first: the
  lexicographic order of the library over the order of the character codes.
\<close>

lemma less_list_append_same: "(us @ xs < us @ ys) = (xs < (ys :: 'a::linorder list))"
  by (induction us) auto

lemma less_list_same_length:
  assumes "length us = length vs" and "us < (vs :: 'a::linorder list)"
  shows "us @ xs < vs @ ys"
  using assms by (induction us vs rule: list_induct2) auto

lemma less_list_append_iff:
  assumes "length us = length vs"
  shows "(us @ xs < vs @ ys) = (us < vs \<or> us = vs \<and> xs < (ys :: 'a::linorder list))"
  using assms by (induction us vs rule: list_induct2) auto

end
