(* ===== verification/CLib.thy ===== *)
theory CLib
  imports Prelude
begin

text \<open>
  The part of the C standard library the sources use on strings: \<open>strtol\<close> and \<open>strtoull\<close>,
  \<open>fgets\<close>, the decimal output of \<open>printf\<close>, and \<open>snprintf\<close> as a bounded write.
  A C string is the list of its bytes before the terminating zero. An \<open>end\<close> pointer is the
  rest of the string from that point on, so \<open>end == s\<close> reads "the rest is the whole string".
  \<open>lmax\<close> is \<open>LONG_MAX\<close>: \<open>2 ^ 63 - 1\<close> in the 64-bit builds and \<open>2 ^ 31 - 1\<close> in the
  ARMv6 and ARMv7 ones.
\<close>

subsection \<open>Characters\<close>

abbreviation code :: "char \<Rightarrow> nat" where "code c \<equiv> of_char c"

definition c_isdigit :: "char \<Rightarrow> bool" where
  "c_isdigit c = (48 \<le> code c \<and> code c \<le> 57)"

definition c_isspace :: "char \<Rightarrow> bool" where
  "c_isspace c = (code c = 32 \<or> (9 \<le> code c \<and> code c \<le> 13))"

definition digit_val :: "char \<Rightarrow> nat" where
  "digit_val c = code c - 48"

definition digit_char :: "nat \<Rightarrow> char" where
  "digit_char d = ''0123456789'' ! d"

text \<open>The first and the second byte of a string: the terminating zero past its end.\<close>

definition ch0 :: "string \<Rightarrow> char" where
  "ch0 s = (case s of [] \<Rightarrow> CHR 0x00 | c # _ \<Rightarrow> c)"

definition ch1 :: "string \<Rightarrow> char" where
  "ch1 s = (case s of [] \<Rightarrow> CHR 0x00 | _ # t \<Rightarrow> ch0 t)"

lemma ch0_simps [simp]: "ch0 [] = CHR 0x00" "ch0 (c # s) = c"
  by (simp_all add: ch0_def)

lemma ch1_simps [simp]: "ch1 [] = CHR 0x00" "ch1 (c # s) = ch0 s"
  by (simp_all add: ch1_def)

subsection \<open>Decimal numbers\<close>

fun digits_val :: "nat \<Rightarrow> string \<Rightarrow> nat" where
  "digits_val acc [] = acc"
| "digits_val acc (c # cs) = digits_val (10 * acc + digit_val c) cs"

fun show_nat :: "nat \<Rightarrow> string" where
  "show_nat n = (if n < 10 then [digit_char n] else show_nat (n div 10) @ [digit_char (n mod 10)])"

declare show_nat.simps [simp del]

definition show_int :: "int \<Rightarrow> string" where
  "show_int n = (if n < 0 then CHR ''-'' # show_nat (nat (- n)) else show_nat (nat n))"

text \<open>A field of exactly \<open>w\<close> digits, as \<open>%0wd\<close> prints a number below \<open>10 ^ w\<close>.\<close>

fun pad_nat :: "nat \<Rightarrow> nat \<Rightarrow> string" where
  "pad_nat 0 n = []"
| "pad_nat (Suc w) n = pad_nat w (n div 10) @ [digit_char (n mod 10)]"

definition sign_split :: "string \<Rightarrow> bool \<times> string" where
  "sign_split s = (case s of
      [] \<Rightarrow> (False, [])
    | c # cs \<Rightarrow> if c = CHR ''-'' then (True, cs)
               else if c = CHR ''+'' then (False, cs) else (False, s))"

text \<open>\<open>strtol (s, &end, 10)\<close>: the value, saturated at the ends of \<open>long\<close>, and the rest.\<close>

definition strtol :: "int \<Rightarrow> string \<Rightarrow> int \<times> string" where
  "strtol lmax s =
     (let (neg, u) = sign_split (dropWhile c_isspace s);
          ds = takeWhile c_isdigit u;
          n = int (digits_val 0 ds)
      in if ds = [] then (0, s)
         else (if neg then max (- lmax - 1) (- n) else min lmax n, dropWhile c_isdigit u))"

text \<open>
  \<open>strtoull (s, &end, 10)\<close>: the value modulo \<open>2 ^ 64\<close> (a minus sign negates it), the rest, and
  whether \<open>errno\<close> was set to \<open>ERANGE\<close>, when the value is \<open>ULLONG_MAX\<close>.
\<close>

definition strtoull :: "string \<Rightarrow> nat \<times> string \<times> bool" where
  "strtoull s =
     (let (neg, u) = sign_split (dropWhile c_isspace s);
          ds = takeWhile c_isdigit u;
          n = digits_val 0 ds
      in if ds = [] then (0, s, False)
         else if n \<ge> 2 ^ 64 then (2 ^ 64 - 1, dropWhile c_isdigit u, True)
         else (if neg then (2 ^ 64 - n) mod 2 ^ 64 else n, dropWhile c_isdigit u, False))"

subsection \<open>Bounded output and input\<close>

text \<open>\<open>snprintf (buf, cap, ...)\<close>: what the buffer holds, and the length the output wanted.\<close>

definition snprintf :: "nat \<Rightarrow> string \<Rightarrow> string \<times> nat" where
  "snprintf cap s = (take (cap - 1) s, length s)"

text \<open>\<open>fgets (line, n, f)\<close> on the unread text of \<open>f\<close>: the line read and what is left.\<close>

definition fgets :: "nat \<Rightarrow> string \<Rightarrow> (string \<times> string) option" where
  "fgets n s =
     (if s = [] then None
      else let k = min (n - 1) (Suc (length (takeWhile (\<lambda>c. c \<noteq> NEWLINE) s)))
           in Some (take k s, drop k s))"

text \<open>The text before the first newline, as \<open>s[strcspn (s, "\n")] = 0\<close> leaves it.\<close>

definition chop_line :: "string \<Rightarrow> string" where
  "chop_line s = takeWhile (\<lambda>c. c \<noteq> NEWLINE) s"

subsection \<open>Machine integers\<close>

text \<open>A conversion to a signed type of \<open>w\<close> bits, as the supported compilers do it.\<close>

definition to_signed :: "nat \<Rightarrow> int \<Rightarrow> int" where
  "to_signed w x = (x + 2 ^ (w - 1)) mod 2 ^ w - 2 ^ (w - 1)"

definition INT_MAX :: int where "INT_MAX = 2147483647"

text \<open>C's division and remainder, which truncate towards zero.\<close>

definition c_div :: "int \<Rightarrow> int \<Rightarrow> int" where
  "c_div a b = sgn a * sgn b * (\<bar>a\<bar> div \<bar>b\<bar>)"

definition c_mod :: "int \<Rightarrow> int \<Rightarrow> int" where
  "c_mod a b = a - c_div a b * b"

subsection \<open>Lemmas\<close>

lemma code_digit_char [simp]: "d < 10 \<Longrightarrow> code (digit_char d) = 48 + d"
proof -
  assume "d < 10"
  then have "d \<in> {0, 1, 2, 3, 4, 5, 6, 7, 8, 9}" by auto
  then show ?thesis by (auto simp: digit_char_def)
qed

lemma isdigit_digit_char [simp]: "d < 10 \<Longrightarrow> c_isdigit (digit_char d)"
  by (simp add: c_isdigit_def)

lemma digit_val_digit_char [simp]: "d < 10 \<Longrightarrow> digit_val (digit_char d) = d"
  by (simp add: digit_val_def)

lemma digit_char_inj: "d < 10 \<Longrightarrow> e < 10 \<Longrightarrow> (digit_char d = digit_char e) = (d = e)"
  by (metis digit_val_digit_char)

lemma digit_char_less: "d < 10 \<Longrightarrow> e < 10 \<Longrightarrow> (digit_char d < digit_char e) = (d < e)"
  by (simp add: less_char_def)

lemma digits_val_append: "digits_val acc (xs @ ys) = digits_val (digits_val acc xs) ys"
  by (induction acc xs rule: digits_val.induct) auto

lemma digits_val_acc: "digits_val acc ds = acc * 10 ^ length ds + digits_val 0 ds"
proof (induction ds arbitrary: acc)
  case Nil
  then show ?case by simp
next
  case (Cons d ds)
  show ?case
    using Cons.IH [of "10 * acc + digit_val d"] Cons.IH [of "digit_val d"]
    by (simp add: algebra_simps)
qed

lemma show_nat_digits: "c \<in> set (show_nat n) \<Longrightarrow> c_isdigit c"
proof (induction n rule: show_nat.induct)
  case (1 n)
  then show ?case by (subst (asm) show_nat.simps) (auto split: if_splits)
qed

lemma show_nat_nonempty [simp]: "show_nat n \<noteq> []"
  by (subst show_nat.simps) simp

lemma digits_val_show_nat [simp]: "digits_val 0 (show_nat n) = n"
proof (induction n rule: show_nat.induct)
  case (1 n)
  show ?case
  proof (cases "n < 10")
    case True
    then show ?thesis by (subst show_nat.simps) simp
  next
    case False
    with "1.IH" show ?thesis by (subst show_nat.simps) (simp add: digits_val_append)
  qed
qed

lemma length_show_nat_le: "n < 10 ^ k \<Longrightarrow> 0 < k \<Longrightarrow> length (show_nat n) \<le> k"
proof (induction n arbitrary: k rule: show_nat.induct)
  case (1 n)
  show ?case
  proof (cases "n < 10")
    case True
    with "1.prems" show ?thesis by (subst show_nat.simps) simp
  next
    case False
    then obtain j where k: "k = Suc j" and "0 < j"
      using "1.prems" by (cases k) (auto split: nat.splits, (case_tac nat; simp))
    have "n div 10 < 10 ^ j"
      using "1.prems"(1) k by (simp add: div_less_iff_less_mult mult.commute)
    with "1.IH" [OF False this \<open>0 < j\<close>] False k show ?thesis
      by (subst show_nat.simps) simp
  qed
qed

lemma length_show_nat_ge: "10 ^ k \<le> n \<Longrightarrow> Suc k \<le> length (show_nat n)"
proof (induction n arbitrary: k rule: show_nat.induct)
  case (1 n)
  show ?case
  proof (cases "n < 10")
    case True
    with "1.prems" have "(10::nat) ^ k < 10 ^ 1" by simp
    then have "k = 0" using power_strict_increasing_iff [of "10::nat" k 1] by simp
    then show ?thesis by (subst show_nat.simps) simp
  next
    case False
    show ?thesis
    proof (cases k)
      case 0
      then show ?thesis by (subst show_nat.simps) simp
    next
      case (Suc j)
      with "1.prems" have "10 ^ j \<le> n div 10" by (simp add: less_eq_div_iff_mult_less_eq mult.commute)
      with "1.IH" [OF False this] False Suc show ?thesis by (subst show_nat.simps) simp
    qed
  qed
qed

lemma length_show_nat_exact:
  "10 ^ k \<le> n \<Longrightarrow> n < 10 ^ Suc k \<Longrightarrow> length (show_nat n) = Suc k"
  using length_show_nat_le [of n "Suc k"] length_show_nat_ge [of k n] by simp

lemma hd_show_nat: "0 < n \<Longrightarrow> hd (show_nat n) \<noteq> CHR ''0''"
proof (induction n rule: show_nat.induct)
  case (1 n)
  show ?case
  proof (cases "n < 10")
    case True
    with "1.prems" have "code (digit_char n) \<noteq> code (CHR ''0'')" by simp
    then have "digit_char n \<noteq> CHR ''0''" by metis
    with True show ?thesis by (subst show_nat.simps) simp
  next
    case False
    with "1.IH" show ?thesis by (subst show_nat.simps) (simp add: hd_append)
  qed
qed

lemma takeWhile_all: "(\<And>x. x \<in> set xs \<Longrightarrow> P x) \<Longrightarrow> takeWhile P xs = xs"
  by (simp add: takeWhile_eq_all_conv)

lemma dropWhile_all: "(\<And>x. x \<in> set xs \<Longrightarrow> P x) \<Longrightarrow> dropWhile P xs = []"
  by (simp add: dropWhile_eq_Nil_conv)

lemma length_pad_nat [simp]: "length (pad_nat w n) = w"
  by (induction w arbitrary: n) auto

lemma pad_nat_digits: "c \<in> set (pad_nat w n) \<Longrightarrow> c_isdigit c"
  by (induction w arbitrary: n) auto

lemma digits_val_pad_nat: "n < 10 ^ w \<Longrightarrow> digits_val 0 (pad_nat w n) = n"
proof (induction w arbitrary: n)
  case 0
  then show ?case by simp
next
  case (Suc w)
  then have "n div 10 < 10 ^ w" by (simp add: div_less_iff_less_mult mult.commute)
  with Suc.IH show ?case by (simp add: digits_val_append)
qed

lemma less_div_mod: "(m div 10 < n div 10 \<or> m div 10 = n div 10 \<and> m mod 10 < n mod 10) = (m < (n::nat))"
proof -
  define q r q' r' where "q = m div 10" and "r = m mod 10" and "q' = n div 10" and "r' = n mod 10"
  then have "m = 10 * q + r" "n = 10 * q' + r'" "r < 10" "r' < 10" by auto
  then show ?thesis unfolding q_def [symmetric] r_def [symmetric] q'_def [symmetric] r'_def [symmetric]
    by linarith
qed

text \<open>Padded fields of one width compare as the numbers they print.\<close>

lemma pad_nat_less:
  "m < 10 ^ w \<Longrightarrow> n < 10 ^ w \<Longrightarrow> (pad_nat w m < pad_nat w n) = (m < n)"
proof (induction w arbitrary: m n)
  case 0
  then show ?case by simp
next
  case (Suc w)
  then have b: "m div 10 < 10 ^ w" "n div 10 < 10 ^ w"
    by (simp_all add: div_less_iff_less_mult mult.commute)
  have eq: "(pad_nat w (m div 10) = pad_nat w (n div 10)) = (m div 10 = n div 10)"
    using digits_val_pad_nat b by metis
  have "(pad_nat (Suc w) m < pad_nat (Suc w) n) =
    (m div 10 < n div 10 \<or> m div 10 = n div 10 \<and> m mod 10 < n mod 10)"
    by (simp only: pad_nat.simps less_list_append_iff length_pad_nat Suc.IH [OF b] eq)
      (simp only: Cons_less_Cons Nil_less_Cons not_less_Nil digit_char_less
        mod_less_divisor zero_less_numeral simp_thms)
  also have "\<dots> = (m < n)" by (rule less_div_mod)
  finally show ?case .
qed

lemma pad_nat_inj:
  "m < 10 ^ w \<Longrightarrow> n < 10 ^ w \<Longrightarrow> (pad_nat w m = pad_nat w n) = (m = n)"
  using digits_val_pad_nat by metis

lemma isdigit_not_space: "c_isdigit c \<Longrightarrow> \<not> c_isspace c"
  by (auto simp: c_isdigit_def c_isspace_def)

lemma isdigit_not_sign: "c_isdigit c \<Longrightarrow> c \<noteq> CHR ''-'' \<and> c \<noteq> CHR ''+''"
  by (auto simp: c_isdigit_def)

text \<open>What \<open>%ld\<close> prints, \<open>strtol\<close> reads back, up to the first character that is no digit.\<close>

lemma strtol_digits:
  assumes "ds \<noteq> []" and "\<And>c. c \<in> set ds \<Longrightarrow> c_isdigit c"
    and "r = [] \<or> \<not> c_isdigit (hd r)" and "int (digits_val 0 ds) \<le> lmax"
  shows "strtol lmax (ds @ r) = (int (digits_val 0 ds), r)"
proof -
  obtain c cs where ds: "ds = c # cs" using assms(1) by (cases ds) auto
  then have c: "c_isdigit c" using assms(2) by simp
  have "dropWhile c_isspace (ds @ r) = ds @ r"
    using ds isdigit_not_space [OF c] by simp
  moreover have "sign_split (ds @ r) = (False, ds @ r)"
    using ds isdigit_not_sign [OF c] by (simp add: sign_split_def)
  moreover have "takeWhile c_isdigit (ds @ r) = ds" and "dropWhile c_isdigit (ds @ r) = r"
    using assms(2,3) by (cases r; simp add: takeWhile_append2 dropWhile_append2)+
  ultimately show ?thesis
    using assms(1,4) by (simp add: strtol_def)
qed

lemma strtol_show_nat:
  "int n \<le> lmax \<Longrightarrow> r = [] \<or> \<not> c_isdigit (hd r) \<Longrightarrow> strtol lmax (show_nat n @ r) = (int n, r)"
  using strtol_digits [of "show_nat n" r lmax] show_nat_digits by simp

lemma strtol_bounds:
  "0 \<le> lmax \<Longrightarrow> - lmax - 1 \<le> fst (strtol lmax s) \<and> fst (strtol lmax s) \<le> lmax"
  by (auto simp: strtol_def Let_def split: prod.splits)

lemma to_signed_id: "0 < w \<Longrightarrow> - (2 ^ (w - 1)) \<le> x \<Longrightarrow> x < 2 ^ (w - 1) \<Longrightarrow> to_signed w x = x"
proof -
  assume "0 < w" "- (2 ^ (w - 1)) \<le> x" "x < 2 ^ (w - 1)"
  moreover from \<open>0 < w\<close> have "(2::int) ^ w = 2 * 2 ^ (w - 1)" by (cases w) auto
  ultimately show ?thesis by (simp add: to_signed_def)
qed

lemma c_div_nonneg: "0 \<le> a \<Longrightarrow> 0 < b \<Longrightarrow> c_div a b = a div b"
  by (cases "a = 0") (simp_all add: c_div_def)

lemma c_mod_nonneg: "0 \<le> a \<Longrightarrow> 0 < b \<Longrightarrow> c_mod a b = a mod b"
  by (simp add: c_mod_def c_div_nonneg minus_div_mult_eq_mod)

lemma length_fgets: "fgets n s = Some (l, r) \<Longrightarrow> 2 \<le> n \<Longrightarrow> length r < length s"
  by (auto simp: fgets_def Let_def split: if_splits)

lemma fgets_fits: "fgets n s = Some (l, r) \<Longrightarrow> 1 \<le> n \<Longrightarrow> length l < n"
  by (auto simp: fgets_def Let_def split: if_splits)

end
