(* ===== verification/Downsample.thy ===== *)
theory Downsample
  imports CLib
begin

text \<open>
  \<open>src/downsample.c\<close>: the bucket size an \<open>/api/metrics\<close> query is aggregated to. The loop over
  the table of bucket sizes keeps the index of the best one and its distance from the number of
  points asked for; \<open>lmax\<close> is \<open>LONG_MAX\<close>.
\<close>

definition BUCKETS :: "int list" where
  "BUCKETS = [60, 120, 300, 600, 900, 1800, 3600, 7200, 10800, 21600, 43200, 86400]"

text \<open>How far a bucket size is from giving \<open>points\<close> points: \<open>labs (range_sec / b - points)\<close>.\<close>

definition bucket_diff :: "int \<Rightarrow> int \<Rightarrow> int \<Rightarrow> int" where
  "bucket_diff range_sec points b = \<bar>c_div range_sec b - points\<bar>"

fun scan_buckets :: "int \<Rightarrow> int \<Rightarrow> int \<Rightarrow> int list \<Rightarrow> int \<Rightarrow> int \<Rightarrow> int \<Rightarrow> int" where
  "scan_buckets range_sec interval_sec points [] i best best_diff = best"
| "scan_buckets range_sec interval_sec points (b # bs) i best best_diff =
     (if c_mod b interval_sec \<noteq> 0
      then scan_buckets range_sec interval_sec points bs (i + 1) best best_diff
      else if bucket_diff range_sec points b < best_diff
      then scan_buckets range_sec interval_sec points bs (i + 1) i (bucket_diff range_sec points b)
      else scan_buckets range_sec interval_sec points bs (i + 1) best best_diff)"

definition pick_bucket :: "int \<Rightarrow> int \<Rightarrow> int \<Rightarrow> int \<Rightarrow> int \<Rightarrow> int" where
  "pick_bucket lmax range_sec interval_sec points0 actual_count =
     (let points = (if points0 \<le> 0 then 240 else points0)
      in if 0 \<le> actual_count \<and> actual_count \<le> points then 0
         else if c_div range_sec points \<le> interval_sec then 0
         else let best = scan_buckets range_sec interval_sec points BUCKETS 0 (- 1) lmax
              in if 0 \<le> best then BUCKETS ! nat best else interval_sec)"

subsection \<open>The scan finds the nearest admissible bucket, the smaller one of two\<close>

text \<open>What the loop has established after a prefix of the table.\<close>

definition best_in :: "int \<Rightarrow> int \<Rightarrow> int \<Rightarrow> int \<Rightarrow> int list \<Rightarrow> int \<Rightarrow> int \<Rightarrow> bool" where
  "best_in lmax range_sec interval_sec points bs best d \<longleftrightarrow>
     (best = - 1 \<and> d = lmax \<and>
        (\<forall>b \<in> set bs. c_mod b interval_sec = 0 \<longrightarrow> lmax \<le> bucket_diff range_sec points b) \<or>
      0 \<le> best \<and> nat best < length bs \<and> c_mod (bs ! nat best) interval_sec = 0 \<and>
        d = bucket_diff range_sec points (bs ! nat best) \<and> d < lmax \<and>
        (\<forall>j < length bs. c_mod (bs ! j) interval_sec = 0 \<longrightarrow>
           d \<le> bucket_diff range_sec points (bs ! j) \<and>
           (j < nat best \<longrightarrow> d < bucket_diff range_sec points (bs ! j))))"

lemma best_in_Nil: "best_in lmax range_sec interval_sec points [] (- 1) lmax"
  by (simp add: best_in_def)

lemma best_in_skip:
  assumes "best_in lmax r iv p bs best d" and "c_mod b iv = 0 \<longrightarrow> d \<le> bucket_diff r p b"
  shows "best_in lmax r iv p (bs @ [b]) best d"
  using assms by (auto simp: best_in_def nth_append less_Suc_eq)

lemma best_in_take:
  assumes "best_in lmax r iv p bs best d" and "c_mod b iv = 0" and "bucket_diff r p b < d"
  shows "best_in lmax r iv p (bs @ [b]) (int (length bs)) (bucket_diff r p b)"
proof -
  have "bucket_diff r p b < lmax" using assms(1,3) by (auto simp: best_in_def)
  moreover have "bucket_diff r p b < bucket_diff r p (bs ! j)"
    if "j < length bs" and "c_mod (bs ! j) iv = 0" for j
    using assms(1,3) that unfolding best_in_def by (auto dest: nth_mem intro: less_le_trans)
  ultimately show ?thesis
    using assms(2) by (auto simp: best_in_def nth_append less_Suc_eq less_imp_le)
qed

lemma scan_buckets_best:
  assumes "best_in lmax r iv p pre best d" and "i = int (length pre)"
  shows "\<exists>d'. best_in lmax r iv p (pre @ bs) (scan_buckets r iv p bs i best d) d'"
  using assms
proof (induction bs arbitrary: pre i best d)
  case Nil
  then show ?case by auto
next
  case (Cons b bs)
  show ?case
  proof (cases "c_mod b iv = 0 \<and> bucket_diff r p b < d")
    case True
    with Cons.prems have "best_in lmax r iv p (pre @ [b]) i (bucket_diff r p b)"
      by (simp add: best_in_take)
    from Cons.IH [OF this, of "i + 1"] True Cons.prems(2) show ?thesis by simp
  next
    case False
    with Cons.prems have "best_in lmax r iv p (pre @ [b]) best d"
      by (intro best_in_skip) auto
    from Cons.IH [OF this, of "i + 1"] False Cons.prems(2) show ?thesis by auto
  qed
qed

lemma scan_BUCKETS_best:
  "\<exists>d. best_in lmax r iv p BUCKETS (scan_buckets r iv p BUCKETS 0 (- 1) lmax) d"
  using scan_buckets_best [OF best_in_Nil, of 0 lmax r iv p BUCKETS] by simp

lemma BUCKETS_pos: "b \<in> set BUCKETS \<Longrightarrow> 0 < b"
  by (auto simp: BUCKETS_def)

lemma BUCKETS_sorted: "i < j \<Longrightarrow> j < length BUCKETS \<Longrightarrow> BUCKETS ! i < BUCKETS ! j"
proof -
  have "sorted_wrt (<) BUCKETS" by (simp add: BUCKETS_def)
  then show "i < j \<Longrightarrow> j < length BUCKETS \<Longrightarrow> BUCKETS ! i < BUCKETS ! j"
    by (rule sorted_wrt_nth_less)
qed

subsection \<open>The nearest bucket as a specification\<close>

lemma hd_filter_nth:
  "k < length xs \<Longrightarrow> P (xs ! k) \<Longrightarrow> (\<And>j. j < k \<Longrightarrow> \<not> P (xs ! j)) \<Longrightarrow> hd (filter P xs) = xs ! k"
proof (induction xs arbitrary: k)
  case (Cons x xs)
  show ?case
  proof (cases k)
    case (Suc j)
    have "\<not> P x" using Cons.prems(3) [of 0] Suc by simp
    moreover have "\<not> P (xs ! i)" if "i < j" for i using Cons.prems(3) [of "Suc i"] Suc that by simp
    ultimately show ?thesis using Cons Suc by simp
  qed (use Cons.prems in simp)
qed simp

lemma hd_sort_key:
  assumes "x \<in> set xs" and "\<forall>y \<in> set xs. f x \<le> f y"
  shows "hd (sort_key f xs) = hd (filter (\<lambda>y. f y = f x) xs)"
proof -
  have "sort_key f xs \<noteq> []" using assms(1) by (metis empty_iff empty_set set_sort)
  then obtain h t where s: "sort_key f xs = h # t" by (cases "sort_key f xs") simp_all
  have "\<forall>y \<in> set t. f h \<le> f y" using sorted_sort_key [of f xs] unfolding s by simp
  moreover have "set (h # t) = set xs" unfolding s [symmetric] by simp
  ultimately have "f h \<le> f x" "f x \<le> f h" using assms by auto
  then have "f h = f x" by (rule antisym)
  moreover have "filter (\<lambda>y. f y = f x) (h # t) = filter (\<lambda>y. f y = f x) xs"
    unfolding s [symmetric] by (rule sort_key_stable)
  ultimately show ?thesis unfolding s by (metis (mono_tags, lifting) filter.simps(2) list.sel(1))
qed

text \<open>C32: \<open>pick_bucket\<close> gives 0, no aggregation, when the rows are few enough or the interval is already
  wide enough, and otherwise the bucket size whose number of points is nearest to the one asked for
  among those the interval divides, the smaller of two as near, or the interval when it divides
  none.\<close>

theorem pick_bucket_nearest:
  assumes "0 \<le> r" and "r < lmax" and "q = (if p \<le> 0 then 240 else p)" and "q < lmax"
  shows "pick_bucket lmax r iv p a =
    (if 0 \<le> a \<and> a \<le> q \<or> c_div r q \<le> iv then 0
     else hd (sort_key (bucket_diff r q) (filter (\<lambda>b. c_mod b iv = 0) BUCKETS) @ [iv]))"
proof -
  define best where "best = scan_buckets r iv q BUCKETS 0 (- 1) lmax"
  define fit where "fit = filter (\<lambda>b. c_mod b iv = 0) BUCKETS"
  obtain d where d: "best_in lmax r iv q BUCKETS best d"
    using scan_BUCKETS_best unfolding best_def by blast
  have eq: "pick_bucket lmax r iv p a =
      (if 0 \<le> a \<and> a \<le> q \<or> c_div r q \<le> iv then 0 else if 0 \<le> best then BUCKETS ! nat best else iv)"
    using assms(3) by (simp add: pick_bucket_def best_def Let_def)
  have small: "bucket_diff r q b < lmax" if "b \<in> set BUCKETS" for b
  proof -
    have "0 \<le> c_div r b" "c_div r b \<le> r" using assms(1) BUCKETS_pos [OF that] zdiv_mono2 [of r 1 b] by (simp_all add: c_div_nonneg pos_imp_zdiv_nonneg_iff)
    then show ?thesis using assms(2-4) by (auto simp: bucket_diff_def split: if_splits)
  qed
  have "(if 0 \<le> best then BUCKETS ! nat best else iv) = hd (sort_key (bucket_diff r q) fit @ [iv])"
  proof (cases "0 \<le> best")
    case False
    then have "fit = []" using d small unfolding best_in_def fit_def filter_empty_conv by (metis not_le)
    then show ?thesis using False by simp
  next
    case True
    then have k: "nat best < length BUCKETS" "c_mod (BUCKETS ! nat best) iv = 0"
      "\<And>j. j < length BUCKETS \<Longrightarrow> c_mod (BUCKETS ! j) iv = 0 \<Longrightarrow>
         bucket_diff r q (BUCKETS ! nat best) \<le> bucket_diff r q (BUCKETS ! j) \<and>
         (j < nat best \<longrightarrow> bucket_diff r q (BUCKETS ! nat best) < bucket_diff r q (BUCKETS ! j))"
      using d by (auto simp: best_in_def)
    have mem: "BUCKETS ! nat best \<in> set fit" using k(1,2) by (simp add: fit_def)
    have "\<forall>y \<in> set fit. bucket_diff r q (BUCKETS ! nat best) \<le> bucket_diff r q y"
      using k(3) by (auto simp: fit_def in_set_conv_nth)
    note first = hd_sort_key [OF mem this]
    have "hd (filter (\<lambda>y. bucket_diff r q y = bucket_diff r q (BUCKETS ! nat best)) fit) = BUCKETS ! nat best"
      unfolding fit_def filter_filter by (rule hd_filter_nth) (use k(1,2) less_trans [OF _ k(1)] k(3) in \<open>fastforce+\<close>)
    moreover have "sort_key (bucket_diff r q) fit \<noteq> []" using mem by (metis empty_iff empty_set set_sort)
    ultimately show ?thesis using True first by simp
  qed
  then show ?thesis using eq by (simp add: fit_def)
qed

theorem pick_bucket_nearest_witness:
  "pick_bucket (2 ^ 63 - 1) 86400 10 0 8640 = hd (sort_key (bucket_diff 86400 240) BUCKETS @ [10]) \<and>
   pick_bucket (2 ^ 63 - 1) 86400 10 0 8640 = 300"
  using pick_bucket_nearest [of 86400 "2 ^ 63 - 1" 240 0 10 8640]
  by (simp add: BUCKETS_def c_mod_def c_div_def bucket_diff_def)

end
