(* ===== verification/CDouble.thy ===== *)
theory CDouble
  imports CLib Complex_Main
begin

text \<open>
  C's \<open>double\<close>. A finite double is a rational number, so finite values are rationals, and the
  three special values of IEEE 754 are kept, because the sources test for them
  (\<open>isfinite\<close> in \<open>jbuf_real\<close>, \<open>!(max > 0)\<close> in \<open>unit_step\<close>) and because the comparisons with
  a NaN, all false, decide branches. Not modelled: the rounding of a result to 53 bits, overflow of
  a finite result to infinity, and the sign of zero. \<open>fmt_g P\<close> is the output of
  \<open>printf ("%.Pg")\<close>.
\<close>

datatype double = Fin rat | PInf | NInf | NaN

definition isfinite :: "double \<Rightarrow> bool" where
  "isfinite x = (case x of Fin _ \<Rightarrow> True | _ \<Rightarrow> False)"

definition isnan :: "double \<Rightarrow> bool" where
  "isnan x = (x = NaN)"

text \<open>The infinity with the sign of a number; zero times an infinity is not a number.\<close>

definition inf_of :: "rat \<Rightarrow> double" where
  "inf_of r = (if r > 0 then PInf else if r < 0 then NInf else NaN)"

instantiation double :: "{zero, one, plus, minus, uminus, times, inverse, ord}"
begin

definition zero_double :: double where "0 = Fin 0"

definition one_double :: double where "1 = Fin 1"

fun plus_double :: "double \<Rightarrow> double \<Rightarrow> double" where
  "Fin a + Fin b = Fin (a + b)"
| "NaN + _ = NaN"
| "_ + NaN = NaN"
| "PInf + NInf = NaN"
| "NInf + PInf = NaN"
| "PInf + _ = PInf"
| "_ + PInf = PInf"
| "NInf + _ = NInf"
| "_ + NInf = NInf"

fun uminus_double :: "double \<Rightarrow> double" where
  "- Fin a = Fin (- a)"
| "- PInf = NInf"
| "- NInf = PInf"
| "- NaN = NaN"

definition minus_double :: "double \<Rightarrow> double \<Rightarrow> double" where
  "x - y = x + (- y :: double)"

fun times_double :: "double \<Rightarrow> double \<Rightarrow> double" where
  "Fin a * Fin b = Fin (a * b)"
| "NaN * _ = NaN"
| "_ * NaN = NaN"
| "Fin a * PInf = inf_of a"
| "Fin a * NInf = inf_of (- a)"
| "PInf * Fin b = inf_of b"
| "NInf * Fin b = inf_of (- b)"
| "PInf * PInf = PInf"
| "NInf * NInf = PInf"
| "PInf * NInf = NInf"
| "NInf * PInf = NInf"

fun divide_double :: "double \<Rightarrow> double \<Rightarrow> double" where
  "divide_double (Fin a) (Fin b) = (if b = 0 then inf_of a else Fin (a / b))"
| "divide_double NaN _ = NaN"
| "divide_double _ NaN = NaN"
| "divide_double (Fin a) _ = Fin 0"
| "divide_double PInf (Fin b) = (if b < 0 then NInf else PInf)"
| "divide_double NInf (Fin b) = (if b < 0 then PInf else NInf)"
| "divide_double _ _ = NaN"

definition inverse_double :: "double \<Rightarrow> double" where
  "inverse x = (Fin 1 div x :: double)"

fun less_double :: "double \<Rightarrow> double \<Rightarrow> bool" where
  "Fin a < Fin b \<longleftrightarrow> a < b"
| "NaN < (_ :: double) \<longleftrightarrow> False"
| "(_ :: double) < NaN \<longleftrightarrow> False"
| "NInf < NInf \<longleftrightarrow> False"
| "NInf < (_ :: double) \<longleftrightarrow> True"
| "PInf < (_ :: double) \<longleftrightarrow> False"
| "Fin _ < PInf \<longleftrightarrow> True"
| "Fin _ < NInf \<longleftrightarrow> False"

definition less_eq_double :: "double \<Rightarrow> double \<Rightarrow> bool" where
  "x \<le> (y :: double) \<longleftrightarrow> x < y \<or> (x = y \<and> x \<noteq> NaN)"

instance ..

end

lemma double_less_eq_simps [simp]:
  "(Fin a \<le> Fin b) = (a \<le> b)" "(NaN \<le> x) = False" "(x \<le> NaN) = False"
  by (auto simp: less_eq_double_def elim: less_double.elims)

lemma double_minus_simps [simp]:
  "Fin a - Fin b = Fin (a - b)" "NaN - x = NaN" "x - NaN = NaN"
  by (cases x; simp add: minus_double_def)+

lemma isfinite_simps [simp]:
  "isfinite (Fin a)" "\<not> isfinite PInf" "\<not> isfinite NInf" "\<not> isfinite NaN"
  by (simp_all add: isfinite_def)

lemma isfinite_iff: "isfinite x \<longleftrightarrow> (\<exists>a. x = Fin a)"
  by (cases x) auto

text \<open>\<open>(double) n\<close> for an integer.\<close>

definition dbl_of_int :: "int \<Rightarrow> double" where
  "dbl_of_int n = Fin (of_int n)"

text \<open>\<open>pow (factor, i)\<close> for a finite base and a small natural exponent.\<close>

fun dbl_pow :: "double \<Rightarrow> nat \<Rightarrow> double" where
  "dbl_pow x 0 = Fin 1"
| "dbl_pow x (Suc n) = x * dbl_pow x n"

lemma dbl_pow_Fin [simp]: "dbl_pow (Fin a) n = Fin (a ^ n)"
  by (induction n) simp_all

subsection \<open>Decimal output\<close>

text \<open>The nearest integer, the even one of two equally near, as \<open>printf\<close> rounds.\<close>

definition round_tie :: "int \<Rightarrow> rat \<Rightarrow> int" where
  "round_tie f d = (if d < 1 / 2 then f else if d > 1 / 2 then f + 1 else if even f then f else f + 1)"

definition round_half_even :: "rat \<Rightarrow> int" where
  "round_half_even x = round_tie \<lfloor>x\<rfloor> (x - of_int \<lfloor>x\<rfloor>)"

text \<open>The decimal exponent: \<open>10 ^ e \<le> x < 10 ^ (e + 1)\<close>.\<close>

function dec_exp :: "rat \<Rightarrow> int" where
  "dec_exp x =
     (if 10 \<le> x then dec_exp (x / 10) + 1
      else if 0 < x \<and> x < 1 then dec_exp (x * 10) - 1 else 0)"
  by pat_completeness auto
termination
proof (relation "measure (\<lambda>x. if 10 \<le> x then nat \<lfloor>x\<rfloor> else if 0 < x \<and> x < 1 then nat \<lceil>1 / x\<rceil> else 0)")
  fix x :: rat
  assume x: "10 \<le> x"
  have "\<lfloor>x / 10\<rfloor> < \<lfloor>x\<rfloor>" using x by linarith
  with x show "(x / 10, x) \<in> measure (\<lambda>x. if 10 \<le> x then nat \<lfloor>x\<rfloor>
      else if 0 < x \<and> x < 1 then nat \<lceil>1 / x\<rceil> else 0)" by auto
next
  fix x :: rat
  assume "\<not> 10 \<le> x" and x: "0 < x \<and> x < 1"
  define y where "y = 1 / x"
  have y: "1 < y" "1 / (x * 10) = y / 10" using x by (simp_all add: y_def field_simps)
  have "\<lceil>y / 10\<rceil> < \<lceil>y\<rceil>" if "10 < y" using that by linarith
  moreover have "10 < y" if "x * 10 < 1" using that x by (simp add: y_def field_simps)
  moreover have "0 < \<lceil>y\<rceil>" using y by linarith
  ultimately have "x * 10 < 1 \<Longrightarrow> nat \<lceil>1 / (x * 10)\<rceil> < nat \<lceil>y\<rceil>" and "0 < nat \<lceil>y\<rceil>"
    by (simp_all add: y(2))
  with x show "(x * 10, x) \<in> measure (\<lambda>x. if 10 \<le> x then nat \<lfloor>x\<rfloor>
      else if 0 < x \<and> x < 1 then nat \<lceil>1 / x\<rceil> else 0)"
    by (auto simp: y_def)
qed simp

declare dec_exp.simps [simp del]

definition strip_zeros :: "string \<Rightarrow> string" where
  "strip_zeros s = rev (dropWhile (\<lambda>c. c = CHR ''0'') (rev s))"

text \<open>A fraction part, with its point when something is left after dropping trailing zeros.\<close>

definition with_point :: "string \<Rightarrow> string" where
  "with_point t = (if t = [] then [] else CHR ''.'' # t)"

definition fraction :: "string \<Rightarrow> string" where
  "fraction s = with_point (strip_zeros s)"

definition exponent :: "int \<Rightarrow> string" where
  "exponent e = CHR ''e'' # (if e < 0 then CHR ''-'' else CHR ''+'') #
     (if \<bar>e\<bar> < 10 then CHR ''0'' # show_nat (nat \<bar>e\<bar>) else show_nat (nat \<bar>e\<bar>))"

text \<open>
  The significant digits of \<open>m > 0\<close>, as an integer of \<open>P\<close> digits, and the exponent: rounding up
  to \<open>10 ^ P\<close> moves to the next decade.
\<close>

definition carry_digits :: "nat \<Rightarrow> int \<Rightarrow> int \<Rightarrow> int \<times> int" where
  "carry_digits P e n = (if n = 10 ^ P then (10 ^ (P - 1), e + 1) else (n, e))"

definition scale10 :: "rat \<Rightarrow> int \<Rightarrow> rat" where
  "scale10 m k = (if 0 \<le> k then m * 10 ^ nat k else m / 10 ^ nat (- k))"

definition sig_digits :: "nat \<Rightarrow> rat \<Rightarrow> int \<times> int" where
  "sig_digits P m =
     carry_digits P (dec_exp m) (round_half_even (scale10 m (int P - 1 - dec_exp m)))"

definition layout_g :: "nat \<Rightarrow> string \<Rightarrow> int \<Rightarrow> string" where
  "layout_g P ds e =
     (if e < - 4 \<or> int P \<le> e then [hd ds] @ fraction (tl ds) @ exponent e
      else if 0 \<le> e then take (nat e + 1) ds @ fraction (drop (nat e + 1) ds)
      else ''0'' @ fraction (replicate (nat (- e - 1)) (CHR ''0'') @ ds))"

definition fmt_g_pos :: "nat \<Rightarrow> rat \<Rightarrow> string" where
  "fmt_g_pos P m = layout_g P (show_nat (nat (fst (sig_digits P m)))) (snd (sig_digits P m))"

definition fmt_g :: "nat \<Rightarrow> double \<Rightarrow> string" where
  "fmt_g P x = (case x of
      Fin r \<Rightarrow> if r = 0 then ''0''
             else if r < 0 then CHR ''-'' # fmt_g_pos P (- r) else fmt_g_pos P r
    | PInf \<Rightarrow> ''inf'' | NInf \<Rightarrow> ''-inf'' | NaN \<Rightarrow> ''nan'')"

text \<open>\<open>printf ("%.kf")\<close> of a finite value.\<close>

definition split_fixed :: "nat \<Rightarrow> nat \<Rightarrow> string" where
  "split_fixed k n =
     show_nat (n div 10 ^ k) @ (if k = 0 then [] else CHR ''.'' # pad_nat k (n mod 10 ^ k))"

definition fmt_f_pos :: "nat \<Rightarrow> rat \<Rightarrow> string" where
  "fmt_f_pos k m = split_fixed k (nat (round_half_even (m * 10 ^ k)))"

definition fmt_f :: "nat \<Rightarrow> double \<Rightarrow> string" where
  "fmt_f k x = (case x of
      Fin r \<Rightarrow> if r < 0 then CHR ''-'' # fmt_f_pos k (- r) else fmt_f_pos k r
    | PInf \<Rightarrow> ''inf'' | NInf \<Rightarrow> ''-inf'' | NaN \<Rightarrow> ''nan'')"

subsection \<open>Evaluation\<close>

lemma floor_rat_numeral:
  "\<lfloor>(numeral a / numeral b :: rat)\<rfloor> = numeral a div numeral b"
  "\<lfloor>(1 / numeral b :: rat)\<rfloor> = 1 div numeral b"
  using floor_divide_of_int_eq [where ?'a = rat, of "numeral a" "numeral b"]
    floor_divide_of_int_eq [where ?'a = rat, of 1 "numeral b"] by simp_all

lemmas fmt_eval = fmt_g_def fmt_g_pos_def layout_g_def sig_digits_def carry_digits_def scale10_def
  dec_exp.simps round_half_even_def round_tie_def floor_rat_numeral show_nat.simps fraction_def
  with_point_def strip_zeros_def exponent_def digit_char_def fmt_f_def fmt_f_pos_def split_fixed_def

subsection \<open>How long the decimal output is\<close>

lemma round_tie_bounds: "f \<le> round_tie f d \<and> round_tie f d \<le> f + 1"
  by (simp add: round_tie_def)

lemma round_half_even_ge: "of_int a \<le> x \<Longrightarrow> a \<le> round_half_even x"
proof -
  assume "of_int a \<le> x"
  then have "a \<le> \<lfloor>x\<rfloor>" by (simp add: le_floor_iff)
  then show ?thesis
    using round_tie_bounds [of "\<lfloor>x\<rfloor>" "x - of_int \<lfloor>x\<rfloor>"] by (simp add: round_half_even_def)
qed

lemma round_half_even_le: "x < of_int b \<Longrightarrow> round_half_even x \<le> b"
proof -
  assume "x < of_int b"
  then have "\<lfloor>x\<rfloor> < b" by (simp add: floor_less_iff)
  then show ?thesis
    using round_tie_bounds [of "\<lfloor>x\<rfloor>" "x - of_int \<lfloor>x\<rfloor>"] by (simp add: round_half_even_def)
qed

lemma scale10_powi: "scale10 m k = m * 10 powi k"
proof (cases "0 \<le> k")
  case True
  then show ?thesis by (simp add: scale10_def power_int_def)
next
  case False
  then have "10 powi k = inverse ((10::rat) ^ nat (- k))"
    by (simp only: power_int_def if_False power_inverse)
  then show ?thesis using False by (simp only: scale10_def if_False divide_inverse)
qed

lemma powi_10_less: "((10::rat) powi m < 10 powi n) = (m < n)"
  using power_int_strict_increasing [of m n "10::rat"] power_int_increasing [of n m "10::rat"]
  by (auto simp: not_less [symmetric])

lemma powi_10_pos: "0 < (10::rat) powi n"
  by (rule zero_less_power_int) simp

lemma powi_10_Suc: "(10::rat) powi (e + 1) = 10 * 10 powi e"
  by (simp add: power_int_add)

lemma dec_exp_spec: "0 < x \<Longrightarrow> 10 powi (dec_exp x) \<le> x \<and> x < 10 * 10 powi (dec_exp x)"
proof (induction x rule: dec_exp.induct)
  case (1 x)
  consider "10 \<le> x" | "x < 1" | "1 \<le> x" "x < 10" by linarith
  then show ?case
  proof cases
    case 1
    then have "dec_exp x = dec_exp (x / 10) + 1" by (subst dec_exp.simps) simp
    with "1.IH"(1) [OF 1] "1.prems" show ?thesis by (simp add: powi_10_Suc)
  next
    case 2
    then have e: "dec_exp x = dec_exp (x * 10) - 1"
      using "1.prems" by (subst dec_exp.simps) simp
    have "10 powi (dec_exp (x * 10)) \<le> x * 10 \<and> x * 10 < 10 * 10 powi (dec_exp (x * 10))"
      using "1.IH"(2) 2 "1.prems" by simp
    then show ?thesis using powi_10_Suc [of "dec_exp (x * 10) - 1"] by (simp add: e)
  next
    case 3
    then have "dec_exp x = 0" by (subst dec_exp.simps) simp
    with 3 show ?thesis by simp
  qed
qed

lemma sig_digits_spec:
  assumes "0 < m" and "0 < P" and "sig_digits P m = (n, e)"
  shows "10 ^ (P - 1) \<le> n \<and> n < 10 ^ P \<and> (e = dec_exp m \<or> e = dec_exp m + 1)"
proof -
  define k where "k = int P - 1 - dec_exp m"
  define y where "y = scale10 m k"
  have pos: "0 < (10::rat) powi k" by simp
  have split: "10 powi (dec_exp m) * 10 powi k = (10::rat) ^ (P - 1)"
    using assms(2) by (simp add: k_def flip: power_int_add) (simp add: power_int_def nat_diff_distrib)
  have y: "y = m * 10 powi k" by (simp add: y_def scale10_powi)
  have "10 powi (dec_exp m) * 10 powi k \<le> y" and "y < 10 * 10 powi (dec_exp m) * 10 powi k"
    using dec_exp_spec [OF assms(1)] pos by (simp_all add: y mult_right_mono)
  then have "of_int (10 ^ (P - 1)) \<le> y" and "y < of_int (10 * 10 ^ (P - 1))"
    using split by (simp_all add: mult.assoc)
  then have lo: "10 ^ (P - 1) \<le> round_half_even y"
    and hi: "round_half_even y \<le> 10 * 10 ^ (P - 1)"
    by (blast intro: round_half_even_ge round_half_even_le)+
  have P: "(10::int) * 10 ^ (P - 1) = 10 ^ P" using assms(2) by (cases P) auto
  have "(10::int) ^ (P - 1) < 10 ^ P" using assms(2) by simp
  with lo hi assms(3) P show ?thesis
    by (auto simp: sig_digits_def carry_digits_def y_def k_def split: if_splits)
qed

text \<open>The decimal exponents of finite doubles: between -324 and 308, so at most three digits.\<close>

definition pos_range :: "rat \<Rightarrow> bool" where
  "pos_range m = (10 powi (- 324) \<le> m \<and> m < 10 powi 309)"

definition dbl_range :: "double \<Rightarrow> bool" where
  "dbl_range x = (case x of Fin r \<Rightarrow> r = 0 \<or> pos_range \<bar>r\<bar> | _ \<Rightarrow> True)"

lemma pos_range_pos: "pos_range m \<Longrightarrow> 0 < m"
  unfolding pos_range_def using powi_10_pos less_le_trans by blast

lemma dec_exp_range:
  assumes "pos_range m"
  shows "- 324 \<le> dec_exp m \<and> dec_exp m \<le> 308"
proof -
  note s = dec_exp_spec [OF pos_range_pos [OF assms]]
  have "(10::rat) powi (- 324) < 10 powi (dec_exp m + 1)"
    using s assms unfolding pos_range_def powi_10_Suc by (blast intro: le_less_trans)
  moreover have "(10::rat) powi (dec_exp m) < 10 powi 309"
    using s assms unfolding pos_range_def by (blast intro: le_less_trans)
  ultimately show ?thesis unfolding powi_10_less by simp
qed

lemma length_strip_zeros: "length (strip_zeros s) \<le> length s"
  using length_dropWhile_le [of "\<lambda>c. c = CHR ''0''" "rev s"] by (simp add: strip_zeros_def)

lemma length_fraction: "length (fraction s) \<le> length s + 1"
  using length_strip_zeros [of s] by (simp add: fraction_def with_point_def)

lemma length_exponent: "\<bar>e\<bar> < 1000 \<Longrightarrow> length (exponent e) \<le> 5"
proof -
  assume "\<bar>e\<bar> < 1000"
  then have "length (show_nat (nat \<bar>e\<bar>)) \<le> 3" using length_show_nat_le [of "nat \<bar>e\<bar>" 3] by simp
  moreover have "length (show_nat (nat \<bar>e\<bar>)) \<le> 1" if "\<bar>e\<bar> < 10"
    using length_show_nat_le [of "nat \<bar>e\<bar>" 1] that by simp
  ultimately show ?thesis by (cases "\<bar>e\<bar> < 10") (simp_all add: exponent_def)
qed

lemma length_layout_g:
  assumes "length ds = P" and "0 < P" and "\<bar>e\<bar> < 1000"
  shows "length (layout_g P ds e) \<le> P + 6"
proof -
  have "length (fraction (tl ds)) \<le> P"
    using length_fraction [of "tl ds"] assms by simp
  moreover have "length (fraction (drop (nat e + 1) ds)) \<le> P - (nat e + 1) + 1"
    using length_fraction [of "drop (nat e + 1) ds"] assms by simp
  moreover have "length (fraction (replicate (nat (- e - 1)) (CHR ''0'') @ ds)) \<le> nat (- e - 1) + P + 1"
    using length_fraction [of "replicate (nat (- e - 1)) (CHR ''0'') @ ds"] assms by simp
  ultimately show ?thesis
    using length_exponent [OF assms(3)] assms by (auto simp: layout_g_def min_def)
qed

lemma length_fmt_g_pos:
  assumes "0 < P" and "pos_range m"
  shows "length (fmt_g_pos P m) \<le> P + 6"
proof -
  obtain n e where ne: "sig_digits P m = (n, e)" by (cases "sig_digits P m")
  note s = sig_digits_spec [OF pos_range_pos [OF assms(2)] assms(1) ne]
  have "length (show_nat (nat n)) = Suc (P - 1)"
    using s assms(1) by (intro length_show_nat_exact)
      (simp_all add: nat_le_iff le_nat_iff nat_less_iff flip: of_nat_power)
  moreover have "\<bar>e\<bar> < 1000" using s dec_exp_range [OF assms(2)] by auto
  ultimately show ?thesis
    using length_layout_g [of "show_nat (nat n)" P e] assms(1) by (simp add: fmt_g_pos_def ne)
qed

lemma length_fmt_g:
  assumes "0 < P" and "dbl_range x"
  shows "length (fmt_g P x) \<le> P + 7"
proof (cases x)
  case (Fin r)
  then consider "r = 0" | "r < 0" "pos_range (- r)" | "0 < r" "pos_range r"
    using assms(2) by (cases r "0::rat" rule: linorder_cases) (auto simp: dbl_range_def)
  then show ?thesis
  proof cases
    case 2
    then show ?thesis using length_fmt_g_pos [OF assms(1) 2(2)] by (simp add: fmt_g_def Fin)
  next
    case 3
    then show ?thesis using length_fmt_g_pos [OF assms(1) 3(2)] by (simp add: fmt_g_def Fin)
  qed (simp add: fmt_g_def Fin)
qed (simp_all add: fmt_g_def)

end
