(* ===== verification/JsonText.thy ===== *)
theory JsonText
  imports CDouble
begin

text \<open>
  The abstract side of the JSON writer: which texts are JSON (RFC 8259), without the whitespace
  the grammar allows and the daemon never writes. Numbers and string bodies are recognised by
  functions, values by an inductive predicate. The lemmas show that what \<open>printf ("%.Pg")\<close>
  prints for a finite double is a JSON number, and that for the special values it is not.
\<close>

subsection \<open>Numbers\<close>

definition json_exp_part :: "string \<Rightarrow> bool" where
  "json_exp_part s = (case s of
      [] \<Rightarrow> True
    | c # t \<Rightarrow> (c = CHR ''e'' \<or> c = CHR ''E'') \<and>
        (let u = (if t \<noteq> [] \<and> (hd t = CHR ''+'' \<or> hd t = CHR ''-'') then tl t else t)
         in u \<noteq> [] \<and> list_all c_isdigit u))"

definition json_frac_part :: "string \<Rightarrow> bool" where
  "json_frac_part s = (case s of
      [] \<Rightarrow> True
    | c # t \<Rightarrow> if c = CHR ''.''
               then takeWhile c_isdigit t \<noteq> [] \<and> json_exp_part (dropWhile c_isdigit t)
               else json_exp_part s)"

definition json_unsigned :: "string \<Rightarrow> bool" where
  "json_unsigned s =
     (let ds = takeWhile c_isdigit s
      in ds \<noteq> [] \<and> (hd ds \<noteq> CHR ''0'' \<or> length ds = 1) \<and> json_frac_part (dropWhile c_isdigit s))"

definition json_number :: "string \<Rightarrow> bool" where
  "json_number s = json_unsigned (if s \<noteq> [] \<and> hd s = CHR ''-'' then tl s else s)"

subsection \<open>Strings\<close>

definition c_isxdigit :: "char \<Rightarrow> bool" where
  "c_isxdigit c = (c_isdigit c \<or> c \<in> set ''abcdefABCDEF'')"

definition json_escapes :: string where
  "json_escapes = DQUOTE # BACKSLASH # ''/bfnrt''"

fun json_body :: "string \<Rightarrow> bool" where
  "json_body [] = True"
| "json_body (c # cs) =
     (if c = BACKSLASH then
        (case cs of
           [] \<Rightarrow> False
         | d # ds \<Rightarrow>
             if d = CHR ''u'' then
               (case ds of
                  h1 # h2 # h3 # h4 # rest \<Rightarrow>
                    c_isxdigit h1 \<and> c_isxdigit h2 \<and> c_isxdigit h3 \<and> c_isxdigit h4 \<and> json_body rest
                | _ \<Rightarrow> False)
             else d \<in> set json_escapes \<and> json_body ds)
      else c \<noteq> DQUOTE \<and> 32 \<le> code c \<and> json_body cs)"

definition quote :: "string \<Rightarrow> string" where
  "quote s = DQUOTE # s @ [DQUOTE]"

text \<open>A member of an object, as every field of the writer is laid out.\<close>

definition member :: "string \<Rightarrow> string \<Rightarrow> string" where
  "member k v = quote k @ '':'' @ v"

subsection \<open>Values\<close>

inductive json_value :: "string \<Rightarrow> bool" where
  null: "json_value ''null''"
| true: "json_value ''true''"
| false: "json_value ''false''"
| number: "json_number s \<Longrightarrow> json_value s"
| string: "json_body s \<Longrightarrow> json_value (quote s)"
| array: "(\<And>v. v \<in> set vs \<Longrightarrow> json_value v) \<Longrightarrow> json_value (''['' @ join '','' vs @ '']'')"
| object: "(\<And>k v. (k, v) \<in> set kvs \<Longrightarrow> json_body k) \<Longrightarrow>
    (\<And>k v. (k, v) \<in> set kvs \<Longrightarrow> json_value v) \<Longrightarrow>
    json_value (''{'' @ join '','' (map (\<lambda>(k, v). member k v) kvs) @ ''}'')"

text \<open>The text of one member, and an object given as the texts of its members.\<close>

definition json_member :: "string \<Rightarrow> bool" where
  "json_member f = (\<exists>k v. f = member k v \<and> json_body k \<and> json_value v)"

lemma json_memberI: "json_body k \<Longrightarrow> json_value v \<Longrightarrow> json_member (member k v)"
  by (auto simp: json_member_def)

lemma json_object_members:
  assumes "list_all json_member fs"
  shows "json_value (''{'' @ join '','' fs @ ''}'')"
proof -
  have "\<exists>kvs. fs = map (\<lambda>(k, v). member k v) kvs \<and>
      (\<forall>(k, v) \<in> set kvs. json_body k \<and> json_value v)"
    using assms
  proof (induction fs)
    case Nil
    then show ?case by simp
  next
    case (Cons f fs)
    then obtain k v kvs where "f = member k v" "json_body k" "json_value v"
      and "fs = map (\<lambda>(k, v). member k v) kvs" "\<forall>(k, v) \<in> set kvs. json_body k \<and> json_value v"
      by (auto simp: json_member_def)
    then show ?case by (intro exI [of _ "(k, v) # kvs"]) auto
  qed
  then obtain kvs where kvs: "fs = map (\<lambda>(k, v). member k v) kvs"
    "\<forall>(k, v) \<in> set kvs. json_body k \<and> json_value v" by blast
  show ?thesis unfolding kvs(1) by (rule json_value.object) (use kvs(2) in auto)
qed

subsection \<open>What \<open>printf\<close> prints\<close>

lemma json_unsigned_parts:
  assumes "I \<noteq> []" and "list_all c_isdigit I" and "hd I \<noteq> CHR ''0'' \<or> length I = 1"
    and "list_all c_isdigit F" and "X = [] \<or> (hd X = CHR ''e'' \<and> json_exp_part X)"
  shows "json_unsigned (I @ with_point F @ X)"
proof -
  have nd: "\<not> c_isdigit (CHR ''.'')" "\<not> c_isdigit (CHR ''e'')" by (simp_all add: c_isdigit_def)
  have I: "\<And>c. c \<in> set I \<Longrightarrow> c_isdigit c" and F: "\<And>c. c \<in> set F \<Longrightarrow> c_isdigit c"
    using assms(2,4) by (auto simp: list_all_iff)
  have tX: "takeWhile c_isdigit X = []" "dropWhile c_isdigit X = X"
    using assms(5) nd by (cases X; auto)+
  have tF: "takeWhile c_isdigit (F @ X) = F" "dropWhile c_isdigit (F @ X) = X"
    using F tX by (simp_all add: takeWhile_append2 dropWhile_append2)
  have tP: "takeWhile c_isdigit (with_point F @ X) = []"
    "dropWhile c_isdigit (with_point F @ X) = with_point F @ X"
    using tX nd by (simp_all add: with_point_def)
  have X: "json_exp_part X" using assms(5) by (cases "X = []") (simp_all add: json_exp_part_def)
  have "json_frac_part (with_point F @ X)"
  proof (cases "F = []")
    case True
    then show ?thesis using assms(5) X by (cases X) (auto simp: json_frac_part_def with_point_def)
  next
    case False
    then show ?thesis using tF X by (simp add: json_frac_part_def with_point_def)
  qed
  then show ?thesis
    using assms(1,3) I tP by (simp add: json_unsigned_def takeWhile_append2 dropWhile_append2)
qed

lemma set_strip_zeros: "c \<in> set (strip_zeros s) \<Longrightarrow> c \<in> set s"
  using set_dropWhileD by (fastforce simp: strip_zeros_def)

lemma list_all_strip_zeros: "list_all P s \<Longrightarrow> list_all P (strip_zeros s)"
  using set_strip_zeros by (fastforce simp: list_all_iff)

lemma json_exp_part_exponent: "json_exp_part (exponent e)"
  using show_nat_digits
  by (auto simp: json_exp_part_def exponent_def Let_def list_all_iff c_isdigit_def)

lemma hd_exponent: "hd (exponent e) = CHR ''e''"
  by (simp add: exponent_def)

lemma json_layout_g:
  assumes "length ds = P" and "0 < P" and "list_all c_isdigit ds" and "hd ds \<noteq> CHR ''0''"
  shows "json_unsigned (layout_g P ds e)"
proof -
  have ds: "ds \<noteq> []" using assms by auto
  have digits: "list_all c_isdigit (tl ds)" "list_all c_isdigit (take n ds)"
    "list_all c_isdigit (drop n ds)" "c_isdigit (hd ds)" for n
    using assms(3) ds by (auto simp: list_all_iff dest: in_set_takeD in_set_dropD list.set_sel(2))
  have frac: "fraction s = with_point (strip_zeros s)" for s by (simp add: fraction_def)
  show ?thesis
  proof (cases "e < - 4 \<or> int P \<le> e")
    case True
    have "json_unsigned ([hd ds] @ with_point (strip_zeros (tl ds)) @ exponent e)"
      using digits by (intro json_unsigned_parts list_all_strip_zeros)
        (simp_all add: json_exp_part_exponent hd_exponent)
    with True show ?thesis by (simp add: layout_g_def frac)
  next
    case False
    then consider "0 \<le> e" | "e < 0" by linarith
    then show ?thesis
    proof cases
      case 1
      have "json_unsigned (take (nat e + 1) ds @ with_point (strip_zeros (drop (nat e + 1) ds)) @ [])"
        using digits ds assms(4) by (intro json_unsigned_parts list_all_strip_zeros) simp_all
      with 1 False show ?thesis by (simp add: layout_g_def frac)
    next
      case 2
      have "json_unsigned (''0'' @
          with_point (strip_zeros (replicate (nat (- e - 1)) (CHR ''0'') @ ds)) @ [])"
        using assms(3) by (intro json_unsigned_parts list_all_strip_zeros)
          (auto simp: list_all_iff c_isdigit_def set_replicate_conv_if)
      with 2 False show ?thesis by (simp add: layout_g_def frac)
    qed
  qed
qed

lemma json_fmt_g_pos:
  assumes "0 < m" and "0 < P"
  shows "json_unsigned (fmt_g_pos P m) \<and> hd (fmt_g_pos P m) \<noteq> CHR ''-''"
proof -
  obtain n e where ne: "sig_digits P m = (n, e)" by (cases "sig_digits P m")
  note s = sig_digits_spec [OF assms ne]
  have n: "0 < n" using s by (meson less_le_trans zero_less_numeral zero_less_power)
  have "length (show_nat (nat n)) = Suc (P - 1)"
    using s assms(2) by (intro length_show_nat_exact)
      (simp_all add: nat_le_iff le_nat_iff nat_less_iff flip: of_nat_power)
  then have "json_unsigned (layout_g P (show_nat (nat n)) e)"
    using assms(2) n show_nat_digits hd_show_nat
    by (intro json_layout_g) (auto simp: list_all_iff)
  moreover from this have "hd (layout_g P (show_nat (nat n)) e) \<noteq> CHR ''-''"
    by (cases "layout_g P (show_nat (nat n)) e")
      (auto simp: json_unsigned_def c_isdigit_def split: if_splits)
  ultimately show ?thesis by (simp add: fmt_g_pos_def ne)
qed

lemma json_fmt_g: "0 < P \<Longrightarrow> json_number (fmt_g P (Fin r))"
  using json_fmt_g_pos [of r P] json_fmt_g_pos [of "- r" P]
  by (cases r "0::rat" rule: linorder_cases)
    (auto simp: json_number_def fmt_g_def json_unsigned_def json_frac_part_def c_isdigit_def)

lemma json_fmt_g_finite: "0 < P \<Longrightarrow> isfinite x \<Longrightarrow> json_value (fmt_g P x)"
  by (auto simp: isfinite_iff intro: json_value.number json_fmt_g)

lemma not_json_fmt_g_special: "\<not> isfinite x \<Longrightarrow> \<not> json_number (fmt_g P x)"
  by (cases x) (simp_all add: fmt_g_def json_number_def json_unsigned_def c_isdigit_def)

lemma json_number_show_int: "json_number (show_int n)"
proof -
  have *: "json_unsigned (show_nat k)" for k
  proof (cases "k = 0")
    case True
    then show ?thesis
      by (simp add: show_nat.simps json_unsigned_def json_frac_part_def digit_char_def c_isdigit_def)
  next
    case False
    then have "json_unsigned (show_nat k @ with_point [] @ [])"
      using show_nat_digits hd_show_nat by (intro json_unsigned_parts) (auto simp: list_all_iff)
    then show ?thesis by (simp add: with_point_def)
  qed
  have "hd (show_nat k) \<noteq> CHR ''-''" for k
    using show_nat_digits [of "hd (show_nat k)" k] isdigit_not_sign by auto
  with * show ?thesis by (simp add: json_number_def show_int_def)
qed

end
