(* ===== verification/Units.thy ===== *)
theory Units
  imports CDouble
begin

text \<open>
  \<open>src/units.c\<close>: conversions from stored readings to display units, and the step of a unit
  ladder. A \<open>const char *\<close> unit is an optional string, \<open>None\<close> for a null pointer.
\<close>

definition unit_is :: "string option \<Rightarrow> char \<Rightarrow> bool" where
  "unit_is u c = (case u of None \<Rightarrow> False | Some s \<Rightarrow> ch0 s = c)"

definition net_ref_bps :: "int \<Rightarrow> int \<Rightarrow> double" where
  "net_ref_bps max_mbit detected_mbit =
     (let mbit = (if max_mbit > 0 then max_mbit else detected_mbit);
          mbit = (if mbit \<le> 0 then 1000 else mbit)
      in dbl_of_int mbit * Fin 125000)"

definition net_convert :: "double \<Rightarrow> string option \<Rightarrow> double \<Rightarrow> double" where
  "net_convert bps unit ref_bps =
     (if unit_is unit (CHR ''%'') then (if ref_bps > Fin 0 then bps * Fin 100 div ref_bps else Fin 0)
      else bps)"

definition UNIT_DIGITS_MAX :: double where "UNIT_DIGITS_MAX = Fin 9999"

function unit_climb :: "double \<Rightarrow> int \<Rightarrow> double \<Rightarrow> int \<Rightarrow> int" where
  "unit_climb mx steps factor i =
     (if i < steps - 1 \<and> mx div dbl_pow factor (nat i) > UNIT_DIGITS_MAX
      then unit_climb mx steps factor (i + 1) else i)"
  by pat_completeness auto
termination
  by (relation "measure (\<lambda>(mx, steps, factor, i). nat (steps - 1 - i))") auto

declare unit_climb.simps [simp del]

definition unit_step :: "double \<Rightarrow> int \<Rightarrow> double \<Rightarrow> int" where
  "unit_step mx steps factor = (if \<not> mx > Fin 0 then - 1 else unit_climb mx steps factor 0)"

definition temp_convert :: "double \<Rightarrow> string option \<Rightarrow> double \<Rightarrow> double" where
  "temp_convert celsius unit ref =
     (if unit = None then celsius
      else if unit_is unit (CHR ''f'') then celsius * Fin 9 div Fin 5 + Fin 32
      else if unit_is unit (CHR ''%'') then (if ref > Fin 0 then celsius * Fin 100 div ref else celsius)
      else celsius)"

definition load_convert :: "double \<Rightarrow> int \<Rightarrow> string option \<Rightarrow> double" where
  "load_convert load cores unit =
     (if unit_is unit (CHR ''%'') \<and> cores > 0 then load * Fin 100 div dbl_of_int cores else load)"

definition temp_ref :: "bool \<Rightarrow> double \<Rightarrow> double \<Rightarrow> double" where
  "temp_ref crit_valid crit fallback = (if crit_valid then crit else fallback)"

subsection \<open>Lemmas\<close>

lemma net_ref_bps_pos: "\<exists>r. net_ref_bps a b = Fin r \<and> r \<ge> 125000"
proof -
  have "1 \<le> m \<Longrightarrow> 125000 \<le> (of_int m :: rat) * 125000" for m :: int
    by (metis mult_le_cancel_right1 mult.commute of_int_1_le_iff zero_le_numeral
        mult_right_mono mult_1)
  then show ?thesis
    by (auto simp: net_ref_bps_def dbl_of_int_def Let_def)
qed

lemma net_convert_finite:
  "isfinite bps \<Longrightarrow> isfinite (net_convert bps unit (net_ref_bps a b))"
  using net_ref_bps_pos [of a b] by (auto simp: net_convert_def isfinite_iff)

lemma load_convert_finite: "isfinite x \<Longrightarrow> isfinite (load_convert x cores unit)"
  by (auto simp: load_convert_def isfinite_iff dbl_of_int_def)

lemma temp_convert_finite:
  "isfinite x \<Longrightarrow> isfinite ref \<Longrightarrow> isfinite (temp_convert x unit ref)"
  by (auto simp: temp_convert_def isfinite_iff)

text \<open>The climb stops at the first step that fits, or at the last one.\<close>

lemma unit_climb_spec:
  assumes "0 \<le> i" and "i \<le> steps - 1"
  shows "i \<le> unit_climb mx steps factor i \<and> unit_climb mx steps factor i \<le> steps - 1 \<and>
    (unit_climb mx steps factor i < steps - 1 \<longrightarrow>
       \<not> mx div dbl_pow factor (nat (unit_climb mx steps factor i)) > UNIT_DIGITS_MAX) \<and>
    (\<forall>k. i \<le> k \<and> k < unit_climb mx steps factor i \<longrightarrow>
       mx div dbl_pow factor (nat k) > UNIT_DIGITS_MAX)"
  using assms
proof (induction mx steps factor i rule: unit_climb.induct)
  case (1 mx steps factor i)
  show ?case
  proof (cases "i < steps - 1 \<and> mx div dbl_pow factor (nat i) > UNIT_DIGITS_MAX")
    case True
    then have "unit_climb mx steps factor i = unit_climb mx steps factor (i + 1)"
      by (simp add: unit_climb.simps [of mx steps factor i])
    moreover have "i \<le> k \<longleftrightarrow> k = i \<or> i + 1 \<le> k" for k by auto
    ultimately show ?thesis using "1.IH" [OF True] "1.prems" True by auto
  next
    case False
    then have "unit_climb mx steps factor i = i"
      by (subst unit_climb.simps) (simp only: if_False)
    with False "1.prems" show ?thesis by auto
  qed
qed

end
