(* ===== verification/Metrics.thy ===== *)
theory Metrics
  imports CDouble "HOL-Library.Word"
begin

text \<open>
  \<open>src/metrics.c\<close>: one collection cycle. The files it reads are the text of their contents, or
  \<open>None\<close> when they do not open; \<open>statvfs\<close>, the monotonic clock and the page size are values of
  the environment. The static variables that hold the previous snapshots are a state that is
  passed along. \<open>unsigned long long\<close> counters are 64-bit words, so their differences wrap.
\<close>

subsection \<open>Data\<close>

record metrics_t =
  load_1m :: double
  load_5m :: double
  load_15m :: double
  cpu_valid :: bool
  cpu_user_percent :: double
  cpu_system_percent :: double
  cpu_idle_percent :: double
  mem_total_mb :: double
  mem_available_mb :: double
  swap_valid :: bool
  swap_total_mb :: double
  swap_free_mb :: double
  swap_io_valid :: bool
  swap_in_bps :: double
  swap_out_bps :: double
  disk_total_gb :: double
  disk_available_gb :: double
  temp_valid :: bool
  temp_celsius :: double
  net_valid :: bool
  net_rx_bps :: double
  net_tx_bps :: double
  uptime_seconds :: double

type_synonym u64 = "64 word"
type_synonym procfile = "string option"

record cpu_raw_t =
  c_user :: u64
  c_nice :: u64
  c_system :: u64
  c_idle :: u64
  c_iowait :: u64
  c_irq :: u64
  c_softirq :: u64

text \<open>Two cumulative byte counters and the monotonic instant they were read at.\<close>

record counters_t =
  cnt_in :: int
  cnt_out :: int
  tv_sec :: int
  tv_nsec :: int

text \<open>The static variables: a previous snapshot that is not valid is \<open>None\<close>.\<close>

record statics =
  s_prev_cpu :: "cpu_raw_t option"
  s_prev_net :: "counters_t option"
  s_prev_swap_io :: "counters_t option"
  s_memfree_noted :: bool

record statvfs_t =
  f_frsize :: u64
  f_blocks :: u64
  f_bavail :: u64

text \<open>What one collection cycle reads.\<close>

record environment =
  proc_loadavg :: procfile
  proc_meminfo :: procfile
  statvfs :: "statvfs_t option"
  proc_uptime :: procfile
  proc_stat :: procfile
  zone_type :: "nat \<Rightarrow> procfile"
  zone_temp :: "nat \<Rightarrow> procfile"
  proc_net_dev :: procfile
  proc_vmstat :: procfile
  mono_now :: "int \<times> int"
  swap_now :: "int \<times> int"
  page_size :: int

definition dbl_of_u64 :: "u64 \<Rightarrow> double" where
  "dbl_of_u64 w = Fin (of_nat (unat w))"

subsection \<open>CPU\<close>

text \<open>\<open>n\<close> numbers read one after the other by \<open>strtoull\<close>, each where the last one ended.\<close>

fun parse_ulls :: "nat \<Rightarrow> string \<Rightarrow> u64 list option" where
  "parse_ulls 0 p = Some []"
| "parse_ulls (Suc n) p =
     (case strtoull p of
        (v, rest, erange) \<Rightarrow>
          if rest = p \<or> erange then None
          else (case parse_ulls n rest of None \<Rightarrow> None | Some vs \<Rightarrow> Some (word_of_nat v # vs)))"

definition read_cpu_raw :: "procfile \<Rightarrow> cpu_raw_t option" where
  "read_cpu_raw f =
     (case f of
        None \<Rightarrow> None
      | Some s \<Rightarrow>
          (case fgets 256 s of
             None \<Rightarrow> None
           | Some (line, _) \<Rightarrow>
               if take 4 line \<noteq> ''cpu '' then None
               else (case parse_ulls 7 (drop 3 line) of
                       Some [us, ni, sy, idl, io, ir, so] \<Rightarrow>
                         Some \<lparr>c_user = us, c_nice = ni, c_system = sy, c_idle = idl,
                               c_iowait = io, c_irq = ir, c_softirq = so\<rparr>
                     | _ \<Rightarrow> None)))"

definition cpu_total :: "cpu_raw_t \<Rightarrow> u64" where
  "cpu_total d = c_user d + c_nice d + c_system d + c_idle d + c_iowait d + c_irq d + c_softirq d"

definition cpu_delta :: "cpu_raw_t \<Rightarrow> cpu_raw_t \<Rightarrow> cpu_raw_t" where
  "cpu_delta cur prev =
     \<lparr>c_user = c_user cur - c_user prev, c_nice = c_nice cur - c_nice prev,
      c_system = c_system cur - c_system prev, c_idle = c_idle cur - c_idle prev,
      c_iowait = c_iowait cur - c_iowait prev, c_irq = c_irq cur - c_irq prev,
      c_softirq = c_softirq cur - c_softirq prev\<rparr>"

definition collect_cpu :: "procfile \<Rightarrow> statics \<Rightarrow> metrics_t \<Rightarrow> statics \<times> metrics_t" where
  "collect_cpu f st m =
     (case read_cpu_raw f of
        None \<Rightarrow> (st, m\<lparr>cpu_valid := False\<rparr>)
      | Some cur \<Rightarrow>
          (case s_prev_cpu st of
             None \<Rightarrow> (st\<lparr>s_prev_cpu := Some cur\<rparr>, m\<lparr>cpu_valid := False\<rparr>)
           | Some prev \<Rightarrow>
               let d = cpu_delta cur prev; total = cpu_total d; st' = st\<lparr>s_prev_cpu := Some cur\<rparr>
               in if total = 0 then (st', m\<lparr>cpu_valid := False\<rparr>)
                  else (st', m\<lparr>
                    cpu_user_percent :=
                      dbl_of_u64 (c_user d + c_nice d) * Fin 100 div dbl_of_u64 total,
                    cpu_system_percent :=
                      dbl_of_u64 (c_system d + c_irq d + c_softirq d) * Fin 100 div dbl_of_u64 total,
                    cpu_idle_percent :=
                      dbl_of_u64 (c_idle d + c_iowait d) * Fin 100 div dbl_of_u64 total,
                    cpu_valid := True\<rparr>)))"

subsection \<open>Load and uptime\<close>

text \<open>
  \<open>strtod\<close> on the decimal forms, with the exact value. The kernel prints no other form; hexadecimal
  numbers, infinities and NaNs are not read here.
\<close>

definition decimal_exp :: "string \<Rightarrow> int \<times> string" where
  "decimal_exp r =
     (if r \<noteq> [] \<and> (hd r = CHR ''e'' \<or> hd r = CHR ''E'')
      then let (neg, u) = sign_split (tl r); ds = takeWhile c_isdigit u; n = int (digits_val 0 ds)
           in if ds = [] then (0, r) else (if neg then - n else n, dropWhile c_isdigit u)
      else (0, r))"

definition strtod :: "string \<Rightarrow> double \<times> string" where
  "strtod s =
     (let (neg, u) = sign_split (dropWhile c_isspace s);
          I = takeWhile c_isdigit u; r = dropWhile c_isdigit u;
          dot = r \<noteq> [] \<and> hd r = CHR ''.'';
          F = (if dot then takeWhile c_isdigit (tl r) else []);
          r' = (if dot then dropWhile c_isdigit (tl r) else r)
      in if I = [] \<and> F = [] then (Fin 0, s)
         else let (e, rest) = decimal_exp r';
                  v = scale10 (of_nat (digits_val 0 (I @ F))) (e - int (length F))
              in (Fin (if neg then - v else v), rest))"

definition collect_load :: "procfile \<Rightarrow> metrics_t \<Rightarrow> int \<times> metrics_t" where
  "collect_load f m =
     (case f of
        None \<Rightarrow> (- 1, m)
      | Some s \<Rightarrow>
          (case fgets 128 s of
             None \<Rightarrow> (- 1, m)
           | Some (line, _) \<Rightarrow>
               (case strtod line of (v1, p1) \<Rightarrow>
                if p1 = line then (- 1, m)
                else let m1 = m\<lparr>load_1m := v1\<rparr> in
               (case strtod p1 of (v2, p2) \<Rightarrow>
                if p2 = p1 then (- 1, m1)
                else let m2 = m1\<lparr>load_5m := v2\<rparr> in
               (case strtod p2 of (v3, p3) \<Rightarrow>
                if p3 = p2 then (- 1, m2)
                else (0, m2\<lparr>load_15m := v3\<rparr>))))))"

definition collect_uptime :: "procfile \<Rightarrow> metrics_t \<Rightarrow> int \<times> metrics_t" where
  "collect_uptime f m =
     (case f of
        None \<Rightarrow> (- 1, m)
      | Some s \<Rightarrow>
          (case fgets 64 s of
             None \<Rightarrow> (- 1, m)
           | Some (line, _) \<Rightarrow>
               (case strtod line of
                  (v, rest) \<Rightarrow> (if rest = line then - 1 else 0, m\<lparr>uptime_seconds := v\<rparr>))))"

subsection \<open>Memory and swap\<close>

definition split_key_value :: "string \<Rightarrow> nat \<Rightarrow> (string \<times> u64) option" where
  "split_key_value line cap =
     (let key = takeWhile (\<lambda>c. c \<noteq> CHR 0x20 \<and> c \<noteq> CHR 0x09) line;
          sep = drop (length key) line
      in if key = [] \<or> length key \<ge> cap then None
         else case strtoull sep of
                (v, rest, erange) \<Rightarrow>
                  if rest = sep \<or> erange then None else Some (key, word_of_nat v))"

record meminfo =
  mem_total_kb :: u64
  mem_free_kb :: u64
  mem_available_kb :: u64
  swap_total_kb :: u64
  swap_free_kb :: u64

definition ULLONG_MAX :: u64 where "ULLONG_MAX = - 1"

definition meminfo_line :: "string \<Rightarrow> meminfo \<Rightarrow> meminfo" where
  "meminfo_line line i =
     (case split_key_value line 64 of
        None \<Rightarrow> i
      | Some (key, v) \<Rightarrow>
          if key = ''MemTotal:'' then i\<lparr>mem_total_kb := v\<rparr>
          else if key = ''MemFree:'' then i\<lparr>mem_free_kb := v\<rparr>
          else if key = ''MemAvailable:'' then i\<lparr>mem_available_kb := v\<rparr>
          else if key = ''SwapTotal:'' then i\<lparr>swap_total_kb := v\<rparr>
          else if key = ''SwapFree:'' then i\<lparr>swap_free_kb := v\<rparr>
          else i)"

text \<open>\<open>while (fgets (line, n, f))\<close>: every line, folded over a state.\<close>

function each_line :: "nat \<Rightarrow> (string \<Rightarrow> 's \<Rightarrow> 's) \<Rightarrow> string \<Rightarrow> 's \<Rightarrow> 's" where
  "each_line n body s st =
     (if n < 2 then st
      else case fgets n s of None \<Rightarrow> st | Some (line, rest) \<Rightarrow> each_line n body rest (body line st))"
  by pat_completeness auto
termination
  by (relation "measure (\<lambda>(n, body, s, st). length s)") (auto dest: length_fgets)

declare each_line.simps [simp del]

text \<open>The available memory: \<open>MemFree\<close> for a \<open>MemAvailable\<close> that is missing or above the total.\<close>

definition mem_stand_in :: "meminfo \<Rightarrow> bool" where
  "mem_stand_in i = (mem_available_kb i = ULLONG_MAX \<or> mem_available_kb i > mem_total_kb i)"

definition read_meminfo :: "string \<Rightarrow> statics \<Rightarrow> metrics_t \<Rightarrow> int \<times> statics \<times> metrics_t" where
  "read_meminfo s st m =
     (let i = each_line 128 meminfo_line s
                \<lparr>mem_total_kb = 0, mem_free_kb = 0, mem_available_kb = ULLONG_MAX,
                 swap_total_kb = 0, swap_free_kb = 0\<rparr>
      in if mem_total_kb i = 0 then (- 1, st, m)
         else let avail = (if mem_stand_in i then mem_free_kb i else mem_available_kb i);
                  st' = (if mem_stand_in i then st\<lparr>s_memfree_noted := True\<rparr> else st);
                  m1 = m\<lparr>mem_total_mb := dbl_of_u64 (mem_total_kb i) div Fin 1024,
                         mem_available_mb := dbl_of_u64 avail div Fin 1024,
                         swap_valid := (swap_total_kb i > 0)\<rparr>
              in (0, st',
                  if swap_valid m1
                  then m1\<lparr>swap_total_mb := dbl_of_u64 (swap_total_kb i) div Fin 1024,
                          swap_free_mb := dbl_of_u64 (swap_free_kb i) div Fin 1024\<rparr>
                  else m1))"

definition collect_meminfo :: "procfile \<Rightarrow> statics \<Rightarrow> metrics_t \<Rightarrow> int \<times> statics \<times> metrics_t" where
  "collect_meminfo f st m = (case f of None \<Rightarrow> (- 1, st, m) | Some s \<Rightarrow> read_meminfo s st m)"

subsection \<open>Disk and temperature\<close>

definition collect_disk :: "statvfs_t option \<Rightarrow> metrics_t \<Rightarrow> int \<times> metrics_t" where
  "collect_disk sv m =
     (case sv of
        None \<Rightarrow> (- 1, m)
      | Some v \<Rightarrow>
          let total = f_blocks v * f_frsize v; avail = f_bavail v * f_frsize v
          in (0, m\<lparr>disk_total_gb := dbl_of_u64 total div Fin (1024 * 1024 * 1024),
                   disk_available_gb := dbl_of_u64 avail div Fin (1024 * 1024 * 1024)\<rparr>))"

definition PREFERRED :: "string list" where
  "PREFERRED = [''x86_pkg_temp'', ''cpu-thermal'', ''soc_thermal'']"

text \<open>The inner loop: \<open>p\<close> counts through the preferred names.\<close>

fun prefer_zone :: "string list \<Rightarrow> nat \<Rightarrow> string \<Rightarrow> nat \<Rightarrow> nat \<times> nat \<Rightarrow> nat \<times> nat" where
  "prefer_zone [] p type z best = best"
| "prefer_zone (name # names) p type z (best_zone, best_pri) =
     prefer_zone names (p + 1) type z
       (if type = name \<and> p < best_pri then (z, p) else (best_zone, best_pri))"

text \<open>The zones from \<open>z\<close> on, \<open>k\<close> of them at most, up to the first whose type does not open.\<close>

fun scan_zones :: "(nat \<Rightarrow> procfile) \<Rightarrow> nat \<Rightarrow> nat \<Rightarrow> nat \<times> nat \<Rightarrow> nat \<times> nat" where
  "scan_zones types z 0 best = best"
| "scan_zones types z (Suc k) best =
     (case types z of
        None \<Rightarrow> best
      | Some s \<Rightarrow>
          (case fgets 32 s of
             None \<Rightarrow> scan_zones types (z + 1) k best
           | Some (type, _) \<Rightarrow>
               scan_zones types (z + 1) k (prefer_zone PREFERRED 0 (chop_line type) z best)))"

definition collect_temp :: "int \<Rightarrow> (nat \<Rightarrow> procfile) \<Rightarrow> (nat \<Rightarrow> procfile) \<Rightarrow> metrics_t \<Rightarrow> metrics_t" where
  "collect_temp lmax types temps m =
     (case temps (fst (scan_zones types 0 32 (0, 4))) of
        None \<Rightarrow> m\<lparr>temp_valid := False\<rparr>
      | Some s \<Rightarrow>
          (case fgets 32 s of
             None \<Rightarrow> m\<lparr>temp_valid := False\<rparr>
           | Some (buf, _) \<Rightarrow>
               (case strtol lmax buf of
                  (millidegrees, rest) \<Rightarrow>
                    if rest = buf then m\<lparr>temp_valid := False\<rparr>
                    else m\<lparr>temp_celsius := dbl_of_int millidegrees div Fin 1000,
                           temp_valid := True\<rparr>)))"

subsection \<open>Rates from cumulative counters\<close>

definition counter_rates :: "counters_t \<Rightarrow> counters_t \<Rightarrow> (double \<times> double) option" where
  "counter_rates prev cur =
     (let dt = dbl_of_int (tv_sec cur - tv_sec prev)
                 + dbl_of_int (tv_nsec cur - tv_nsec prev) div Fin 1000000000;
          in_delta = cnt_in cur - cnt_in prev; out_delta = cnt_out cur - cnt_out prev
      in if dt \<le> Fin 0 \<or> in_delta < 0 \<or> out_delta < 0 then None
         else Some (dbl_of_int in_delta div dt, dbl_of_int out_delta div dt))"

text \<open>\<open>strtoll\<close>: like \<open>strtol\<close> at 64 bits, with \<open>errno\<close> set where the value does not fit.\<close>

definition strtoll :: "string \<Rightarrow> int \<times> string \<times> bool" where
  "strtoll s = (case (strtol (2 ^ 63 - 1) s, strtol (2 ^ 64) s) of
      ((v, rest), (v', _)) \<Rightarrow> (v, rest, v \<noteq> v'))"

fun parse_lls :: "nat \<Rightarrow> string \<Rightarrow> int list option" where
  "parse_lls 0 p = Some []"
| "parse_lls (Suc n) p =
     (case strtoll p of
        (v, rest, erange) \<Rightarrow>
          if rest = p \<or> erange then None
          else (case parse_lls n rest of None \<Rightarrow> None | Some vs \<Rightarrow> Some (v # vs)))"

text \<open>One line of \<open>/proc/net/dev\<close> past the two headers, added to the sums.\<close>

definition net_dev_line :: "string \<Rightarrow> counters_t \<Rightarrow> counters_t" where
  "net_dev_line line cur =
     (let before = takeWhile (\<lambda>c. c \<noteq> CHR '':'') line;
          name = dropWhile (\<lambda>c. c = CHR 0x20) before
      in if length before = length line then cur
         else if name = [] \<or> length name \<ge> 64 then cur
         else if name = ''lo'' then cur
         else case parse_lls 9 (drop (length before + 1) line) of
                None \<Rightarrow> cur
              | Some cols \<Rightarrow> cur\<lparr>cnt_in := cnt_in cur + cols ! 0, cnt_out := cnt_out cur + cols ! 8\<rparr>)"

definition read_net_raw :: "procfile \<Rightarrow> int \<times> int \<Rightarrow> counters_t option" where
  "read_net_raw f now =
     (case f of
        None \<Rightarrow> None
      | Some s \<Rightarrow>
          (case fgets 256 s of
             None \<Rightarrow> None
           | Some (_, s1) \<Rightarrow>
               (case fgets 256 s1 of
                  None \<Rightarrow> None
                | Some (_, s2) \<Rightarrow>
                    Some (each_line 256 net_dev_line s2
                      \<lparr>cnt_in = 0, cnt_out = 0, tv_sec = fst now, tv_nsec = snd now\<rparr>))))"

definition collect_net :: "procfile \<Rightarrow> int \<times> int \<Rightarrow> statics \<Rightarrow> metrics_t \<Rightarrow> statics \<times> metrics_t" where
  "collect_net f now st m =
     (case read_net_raw f now of
        None \<Rightarrow> (st, m\<lparr>net_valid := False\<rparr>)
      | Some cur \<Rightarrow>
          (case s_prev_net st of
             None \<Rightarrow> (st\<lparr>s_prev_net := Some cur\<rparr>, m\<lparr>net_valid := False\<rparr>)
           | Some prev \<Rightarrow>
               (st\<lparr>s_prev_net := Some cur\<rparr>,
                case counter_rates prev cur of
                  None \<Rightarrow> m\<lparr>net_valid := False\<rparr>
                | Some (rx, tx) \<Rightarrow>
                    m\<lparr>net_valid := True, net_rx_bps := rx, net_tx_bps := tx\<rparr>)))"

definition parse_link_speed :: "int \<Rightarrow> string \<Rightarrow> int" where
  "parse_link_speed lmax s =
     (case strtol lmax s of (v, rest) \<Rightarrow> if rest \<noteq> s \<and> v > 0 \<and> v \<le> 1000000 then v else 0)"

text \<open>The entries of \<open>/sys/class/net\<close>, each with its \<open>speed\<close> file; \<open>None\<close> when the directory does
  not open.\<close>

definition metrics_link_speed_mbit :: "int \<Rightarrow> (string \<times> procfile) list option \<Rightarrow> int" where
  "metrics_link_speed_mbit lmax dir =
     (case dir of
        None \<Rightarrow> 0
      | Some entries \<Rightarrow>
          foldl (\<lambda>total (name, speed).
              if ch0 name = CHR ''.'' \<or> name = ''lo'' then total
              else case speed of
                     None \<Rightarrow> total
                   | Some s \<Rightarrow> (case fgets 32 s of
                        None \<Rightarrow> total
                      | Some (buf, _) \<Rightarrow> total + parse_link_speed lmax buf)) 0 entries)"

record vmstat =
  in_pages :: int
  out_pages :: int
  found_in :: bool
  found_out :: bool

definition vmstat_line :: "string \<Rightarrow> vmstat \<Rightarrow> vmstat" where
  "vmstat_line line v =
     (case split_key_value line 64 of
        None \<Rightarrow> v
      | Some (key, x) \<Rightarrow>
          if key = ''pswpin'' then v\<lparr>in_pages := sint x, found_in := True\<rparr>
          else if key = ''pswpout'' then v\<lparr>out_pages := sint x, found_out := True\<rparr>
          else v)"

definition read_vmstat_swap :: "string \<Rightarrow> (int \<times> int) option" where
  "read_vmstat_swap s =
     (let v = each_line 128 vmstat_line s
                \<lparr>in_pages = 0, out_pages = 0, found_in = False, found_out = False\<rparr>
      in if found_in v \<and> found_out v then Some (in_pages v, out_pages v) else None)"

definition sample_swap_io ::
    "procfile \<Rightarrow> int \<times> int \<Rightarrow> int \<Rightarrow> statics \<Rightarrow> metrics_t \<Rightarrow> statics \<times> metrics_t" where
  "sample_swap_io f now page st m0 =
     (let m = m0\<lparr>swap_io_valid := False\<rparr>
      in case (case f of None \<Rightarrow> None | Some s \<Rightarrow> read_vmstat_swap s) of
           None \<Rightarrow> (st\<lparr>s_prev_swap_io := None\<rparr>, m)
         | Some (pin, pout) \<Rightarrow>
             let cur = \<lparr>cnt_in = pin * page, cnt_out = pout * page,
                        tv_sec = fst now, tv_nsec = snd now\<rparr>;
                 m' = (case s_prev_swap_io st of
                         None \<Rightarrow> m
                       | Some prev \<Rightarrow>
                           if \<not> swap_valid m then m
                           else (case counter_rates prev cur of
                                   None \<Rightarrow> m
                                 | Some (i, out) \<Rightarrow>
                                     m\<lparr>swap_io_valid := True, swap_in_bps := i, swap_out_bps := out\<rparr>))
             in (st\<lparr>s_prev_swap_io := Some cur\<rparr>, m'))"

definition collect_swap_io :: "environment \<Rightarrow> statics \<Rightarrow> metrics_t \<Rightarrow> statics \<times> metrics_t" where
  "collect_swap_io env st m = sample_swap_io (proc_vmstat env) (swap_now env) (page_size env) st m"

subsection \<open>One collection cycle\<close>

definition metrics_collect :: "int \<Rightarrow> environment \<Rightarrow> statics \<Rightarrow> metrics_t \<Rightarrow> int \<times> statics \<times> metrics_t" where
  "metrics_collect lmax env st m =
     (case collect_load (proc_loadavg env) m of (rc, m) \<Rightarrow>
      if rc \<noteq> 0 then (- 1, st, m) else
      case collect_meminfo (proc_meminfo env) st m of (rc, st, m) \<Rightarrow>
      if rc \<noteq> 0 then (- 1, st, m) else
      case collect_disk (statvfs env) m of (rc, m) \<Rightarrow>
      if rc \<noteq> 0 then (- 1, st, m) else
      case collect_uptime (proc_uptime env) m of (rc, m) \<Rightarrow>
      if rc \<noteq> 0 then (- 1, st, m) else
      case collect_cpu (proc_stat env) st m of (st, m) \<Rightarrow>
      let m = collect_temp lmax (zone_type env) (zone_temp env) m in
      case collect_net (proc_net_dev env) (mono_now env) st m of (st, m) \<Rightarrow>
      case collect_swap_io env st m of (st, m) \<Rightarrow>
      (0, st, m))"

text \<open>A run of failed collections: the count, and the lines logged.\<close>

datatype run_log = Collection_failed | Collection_recovered nat

definition metrics_run_note :: "nat \<Rightarrow> int \<Rightarrow> nat \<times> run_log list" where
  "metrics_run_note failed rc =
     (if rc \<noteq> 0 then (failed + 1, if failed = 0 then [Collection_failed] else [])
      else (0, if failed > 0 then [Collection_recovered failed] else []))"

end
