(* ===== verification/Config.thy ===== *)
theory Config
  imports CDouble Metrics
begin

text \<open>
  \<open>src/config.c\<close>: the configuration and how it is loaded. The TOML parser (\<open>vendor/tomlc17.c\<close>)
  is third-party code: a parsed document is a \<open>toml\<close> value, given as an argument; only its two
  look-ups, \<open>toml_get\<close> and \<open>toml_seek\<close>, are modelled. Reading stops at the first setting that is
  refused outright, which is \<open>None\<close>; a value that does not fit its field is remembered in
  \<open>too_long\<close> and refused at the end. What is only reported on stderr is not modelled.
\<close>

subsection \<open>Data\<close>

datatype toml =
    TOML_STRING string
  | TOML_INT64 int
  | TOML_FP64 double
  | TOML_BOOLEAN bool
  | TOML_ARRAY "toml list"
  | TOML_TABLE "(string \<times> toml) list"
  | TOML_DATE
  | TOML_UNKNOWN

definition MAX_ALERTS :: nat where "MAX_ALERTS = 16"
definition MAX_CHARTS :: int where "MAX_CHARTS = 16"
definition MAX_CARDS :: int where "MAX_CARDS = 16"
definition MAX_RANGES :: nat where "MAX_RANGES = 8"

record alert_cfg_t =
  name :: string
  metric :: string
  operator :: string
  threshold :: double
  webhook :: string
  command :: string
  cooldown_seconds :: int

text \<open>The count of charts and cards is 0 for "show all" and -1 for "hide all".\<close>

record config_t =
  listen :: string
  max_dashboards :: int
  sse_keepalive_seconds :: int
  interval_seconds :: int
  db_path :: string
  disk_path :: string
  insecure_skip_verify :: bool
  ca_file :: string
  title :: string
  theme :: string
  show_footer :: bool
  refresh_seconds :: int
  memory_card_unit :: string
  memory_chart_unit :: string
  swap_card_unit :: string
  swap_chart_unit :: string
  swap_io_card_unit :: string
  swap_io_chart_unit :: string
  disk_card_unit :: string
  disk_chart_unit :: string
  temp_card_unit :: string
  temp_chart_unit :: string
  temp_critical_fallback :: double
  cpu_load_card_unit :: string
  cpu_load_chart_unit :: string
  net_card_unit :: string
  net_chart_unit :: string
  net_max_speed :: int
  uptime_unit :: string
  charts :: "string list"
  chart_count :: int
  cards :: "string list"
  card_count :: int
  ranges :: "string list"
  alerts :: "alert_cfg_t list"

text \<open>What loading asks of the file system: \<open>statvfs\<close> on a path, and the text of a file with whether
  reading it ended in an error.\<close>

record fs_env =
  statvfs_ok :: "string \<Rightarrow> bool"
  file_text :: "string \<Rightarrow> (string \<times> bool) option"

subsection \<open>Helpers\<close>

definition parse_duration :: "int \<Rightarrow> string \<Rightarrow> int" where
  "parse_duration lmax s =
     (case strtol lmax s of (n, rest) \<Rightarrow>
       if n \<le> 0 \<or> rest = [] \<or> tl rest \<noteq> [] then - 1
       else if hd rest = CHR ''s'' then (if n \<le> 3653 * 86400 then n else - 1)
       else if hd rest = CHR ''m'' then (if n \<le> 3653 * 1440 then n * 60 else - 1)
       else if hd rest = CHR ''h'' then (if n \<le> 3653 * 24 then n * 3600 else - 1)
       else if hd rest = CHR ''d'' then (if n \<le> 3653 then n * 86400 else - 1)
       else - 1)"

text \<open>The field afterwards, and whether the value was too long for it.\<close>

definition str_copy :: "string \<Rightarrow> nat \<Rightarrow> toml \<Rightarrow> string \<times> bool" where
  "str_copy dst dsize v =
     (case v of TOML_STRING s \<Rightarrow> if length s \<ge> dsize then (dst, True) else (s, False)
      | _ \<Rightarrow> (dst, False))"

definition PEM_BEGIN :: string where "PEM_BEGIN = ''-----BEGIN CERTIFICATE-----''"

definition has_certificate :: "fs_env \<Rightarrow> string \<Rightarrow> int" where
  "has_certificate env path =
     (case file_text env path of
        None \<Rightarrow> - 1
      | Some (s, err) \<Rightarrow>
          if each_line 64 (\<lambda>line found. found \<or> take 27 line = PEM_BEGIN) s False then 1
          else if err then - 1 else 0)"

definition valid_range :: "int \<Rightarrow> string \<Rightarrow> bool" where
  "valid_range lmax s =
     (case strtol lmax s of (n, rest) \<Rightarrow>
       n > 0 \<and> ch0 rest \<in> set ''mhd'' \<and> length rest = 1)"

definition range_in_bounds :: "int \<Rightarrow> string \<Rightarrow> bool" where
  "range_in_bounds lmax s =
     (let n = fst (strtol lmax s); u = last s
      in if u = CHR ''m'' then n \<le> 120
         else if u = CHR ''h'' then n \<le> 72
         else if u = CHR ''d'' then n \<le> 3653 else False)"

definition valid_op :: "string \<Rightarrow> bool" where
  "valid_op s = (s = ''>'' \<or> s = ''<'' \<or> s = ''>='' \<or> s = ''<='')"

subsection \<open>Units and names\<close>

definition SIZE_UNITS :: "string list" where "SIZE_UNITS = [''%'', ''auto'']"
definition TEMP_UNITS :: "string list" where "TEMP_UNITS = [''%'', ''c'', ''f'']"
definition LOAD_UNITS :: "string list" where "LOAD_UNITS = [''%'', ''abs'']"
definition NET_UNITS :: "string list" where "NET_UNITS = [''%'', ''bytes'', ''bits'']"
definition SWAP_IO_UNITS :: "string list" where "SWAP_IO_UNITS = [''bytes'', ''ram'']"
definition UPTIME_UNITS :: "string list" where "UPTIME_UNITS = [''auto'', ''h'', ''d'']"

definition unit_copy :: "string \<Rightarrow> nat \<Rightarrow> toml \<Rightarrow> string list \<Rightarrow> string" where
  "unit_copy dst dsize v allowed =
     (case v of TOML_STRING s \<Rightarrow> if s \<in> set allowed then fst (snprintf dsize s) else dst
      | _ \<Rightarrow> dst)"

definition CHART_NAMES :: "string list" where
  "CHART_NAMES =
     [''cpu_load'', ''cpu_usage'', ''memory'', ''swap'', ''swap_io'', ''disk'', ''temp'', ''net'']"

definition CARD_NAMES :: "string list" where "CARD_NAMES = CHART_NAMES @ [''uptime'']"

definition METRIC_NAMES :: "string list" where
  "METRIC_NAMES =
     [''load_1m'', ''load_5m'', ''load_15m'', ''cpu_user_percent'', ''cpu_system_percent'',
      ''cpu_idle_percent'', ''mem_used_mb'', ''mem_available_mb'', ''mem_used_percent'',
      ''mem_available_percent'', ''disk_used_gb'', ''disk_available_gb'', ''disk_used_percent'',
      ''disk_available_percent'', ''temp_celsius'', ''net_rx_bps'', ''net_tx_bps'', ''uptime_seconds'',
      ''swap_free_mb'', ''swap_used_mb'', ''swap_free_percent'', ''swap_used_percent'', ''swap_in_bps'',
      ''swap_out_bps'', ''swap_in_ram'', ''swap_out_ram'']"

definition in_list :: "string \<Rightarrow> string list \<Rightarrow> bool" where
  "in_list x xs = list_ex (\<lambda>y. y = x) xs"

definition to_int :: "int \<Rightarrow> int" where
  "to_int v = (if v > INT_MAX then INT_MAX else to_signed 32 v)"

definition config_has :: "string list \<Rightarrow> int \<Rightarrow> string \<Rightarrow> bool" where
  "config_has xs count x =
     (if count = 0 then True else if count < 0 then False else in_list x (take (nat count) xs))"

subsection \<open>Unknown keys\<close>

text \<open>One cell of the Levenshtein table: \<open>row\<close> is the array, \<open>diag\<close> the value above and to the left.\<close>

definition dist_cell :: "string \<Rightarrow> string \<Rightarrow> nat \<Rightarrow> nat \<Rightarrow> int list \<times> int \<Rightarrow> int list \<times> int" where
  "dist_cell a b i j rd =
     (case rd of (row, diag) \<Rightarrow>
       let cur = row ! j;
           best = diag + (if a ! (i - 1) = b ! (j - 1) then 0 else 1);
           best = (if row ! j + 1 < best then row ! j + 1 else best);
           best = (if row ! (j - 1) + 1 < best then row ! (j - 1) + 1 else best)
       in (row[j := best], cur))"

definition dist_row :: "string \<Rightarrow> string \<Rightarrow> nat \<Rightarrow> int list \<Rightarrow> int list" where
  "dist_row a b i row =
     fst (fold (dist_cell a b i) [1..<Suc (length b)] (row[0 := int i], row ! 0))"

definition key_distance :: "string \<Rightarrow> string \<Rightarrow> int" where
  "key_distance a b =
     (if length b \<ge> 64 then 99
      else fold (dist_row a b) [1..<Suc (length a)] (map int [0..<Suc (length b)]) ! length b)"

text \<open>The hint: the first closest known key at a distance of at most 2.\<close>

fun closest :: "string \<Rightarrow> string list \<Rightarrow> string option \<Rightarrow> int \<Rightarrow> string option" where
  "closest k [] close bestd = close"
| "closest k (n # ns) close bestd =
     (if key_distance k n < bestd then closest k ns (Some n) (key_distance k n)
      else closest k ns close bestd)"

text \<open>The warnings of a table: each key that is not known, with its hint.\<close>

definition warn_unknown_in :: "(string \<times> toml) list \<Rightarrow> string list \<Rightarrow> (string \<times> string option) list" where
  "warn_unknown_in tab known =
     map (\<lambda>(k, v). (k, closest k known None 3)) (filter (\<lambda>(k, v). k \<notin> set known) tab)"

definition SERVER_KEYS :: "string list" where
  "SERVER_KEYS = [''listen'', ''max_dashboards'', ''sse_keepalive'']"
definition COLLECT_KEYS :: "string list" where
  "COLLECT_KEYS = [''db'', ''disk_path'', ''interval'']"
definition WEBHOOK_KEYS :: "string list" where
  "WEBHOOK_KEYS = [''ca_file'', ''insecure_skip_verify'']"
definition DASHBOARD_KEYS :: "string list" where
  "DASHBOARD_KEYS =
     [''cards'', ''charts'', ''cpu_load_card_unit'', ''cpu_load_chart_unit'', ''disk_card_unit'',
      ''disk_chart_unit'', ''memory_card_unit'', ''memory_chart_unit'', ''net_card_unit'',
      ''net_chart_unit'', ''net_max_speed'', ''ranges'', ''refresh'', ''show_footer'',
      ''swap_card_unit'', ''swap_chart_unit'', ''swap_io_card_unit'', ''swap_io_chart_unit'',
      ''temp_card_unit'', ''temp_chart_unit'', ''temp_critical_fallback'', ''theme'', ''title'',
      ''uptime_unit'']"
definition ALERT_KEYS :: "string list" where
  "ALERT_KEYS = [''command'', ''cooldown'', ''metric'', ''name'', ''operator'', ''threshold'', ''webhook'']"
definition TABLES :: "string list" where
  "TABLES = [''alert'', ''collect'', ''dashboard'', ''server'', ''webhook'']"

definition warn_table :: "toml \<Rightarrow> string list \<Rightarrow> (string \<times> string option) list" where
  "warn_table v known = (case v of TOML_TABLE tab \<Rightarrow> warn_unknown_in tab known | _ \<Rightarrow> [])"

definition warn_alerts :: "toml \<Rightarrow> (string \<times> string option) list" where
  "warn_alerts v =
     (case v of TOML_ARRAY es \<Rightarrow> concat (map (\<lambda>e. warn_table e ALERT_KEYS) es) | _ \<Rightarrow> [])"

definition first_close :: "string \<Rightarrow> string option" where
  "first_close k = find (\<lambda>t. key_distance k t \<le> 2) TABLES"

text \<open>The warnings in order; their number is what the function returns.\<close>

definition config_warn_unknown :: "(string \<times> toml) list \<Rightarrow> (string \<times> string option) list" where
  "config_warn_unknown doc = concat (map (\<lambda>(k, v).
     if k = ''alert'' then warn_alerts v
     else if k = ''collect'' then warn_table v COLLECT_KEYS
     else if k = ''dashboard'' then warn_table v DASHBOARD_KEYS
     else if k = ''server'' then warn_table v SERVER_KEYS
     else if k = ''webhook'' then warn_table v WEBHOOK_KEYS
     else [(k, first_close k)]) doc)"

subsection \<open>Defaults\<close>

definition config_defaults :: config_t where
  "config_defaults = \<lparr>listen = ''0.0.0.0:8080'', max_dashboards = 4, sse_keepalive_seconds = 1,
     interval_seconds = 60, db_path = ''./metrics.db'', disk_path = ''/'',
     insecure_skip_verify = False, ca_file = '''', title = ''minimoni'', theme = ''auto'',
     show_footer = True, refresh_seconds = 30,
     memory_card_unit = ''%'', memory_chart_unit = ''auto'',
     swap_card_unit = ''%'', swap_chart_unit = ''auto'',
     swap_io_card_unit = ''bytes'', swap_io_chart_unit = ''bytes'',
     disk_card_unit = ''%'', disk_chart_unit = ''auto'',
     temp_card_unit = ''c'', temp_chart_unit = ''c'', temp_critical_fallback = Fin 85,
     cpu_load_card_unit = ''abs'', cpu_load_chart_unit = ''abs'',
     net_card_unit = ''bytes'', net_chart_unit = ''bytes'', net_max_speed = 0,
     uptime_unit = ''auto'', charts = [], chart_count = 0, cards = [], card_count = 0,
     ranges = [''1d'', ''7d'', ''30d'', ''90d''], alerts = []\<rparr>"

end
