(* ===== verification/IsoTime.thy ===== *)
theory IsoTime
  imports CLib
begin

text \<open>
  Instants as the daemon stores them: \<open>gmtime_r\<close> followed by
  \<open>strftime ("%Y-%m-%dT%H:%M:%SZ")\<close>, which \<open>db.c\<close> uses for every timestamp and every cutoff,
  and SQLite's \<open>CAST (strftime ('%s', timestamp) AS INTEGER)\<close>, which reads one back. The locale
  \<open>time_text\<close> is the contract the tables rely on: reading inverts writing, and the byte order of
  the texts is the order of the instants. It is interpreted on \<open>iso_of\<close> and \<open>unix_of\<close> for the
  instants from 1970 to the end of the year 9999, where the year has four digits.
\<close>

subsection \<open>The contract\<close>

locale time_text =
  fixes fmt :: "int \<Rightarrow> string" and parse :: "string \<Rightarrow> int option" and ok :: "int \<Rightarrow> bool"
  assumes parse_fmt: "ok t \<Longrightarrow> parse (fmt t) = Some t"
    and fmt_less: "ok s \<Longrightarrow> ok t \<Longrightarrow> (fmt s < fmt t) = (s < t)"
begin

lemma fmt_inj: "ok s \<Longrightarrow> ok t \<Longrightarrow> (fmt s = fmt t) = (s = t)"
  using parse_fmt by (metis option.inject)

lemma fmt_le: "ok s \<Longrightarrow> ok t \<Longrightarrow> (fmt s \<le> fmt t) = (s \<le> t)"
  using fmt_less [of t s] by (simp add: not_less [symmetric])

lemma parse_mono:
  "ok s \<Longrightarrow> ok t \<Longrightarrow> parse a = Some s \<Longrightarrow> a = fmt s \<Longrightarrow> (a < fmt t) = (s < t)"
  by (simp add: fmt_less)

end

subsection \<open>The calendar\<close>

definition leap_year :: "int \<Rightarrow> bool" where
  "leap_year y = (4 dvd y \<and> (\<not> 100 dvd y \<or> 400 dvd y))"

definition year_len :: "int \<Rightarrow> int" where
  "year_len y = (if leap_year y then 366 else 365)"

definition month_lens :: "int \<Rightarrow> int list" where
  "month_lens y = [31, if leap_year y then 29 else 28, 31, 30, 31, 30, 31, 31, 30, 31, 30, 31]"

text \<open>Days from 1970-01-01 to the first day of a year.\<close>

definition year_start :: "int \<Rightarrow> int" where
  "year_start y = 365 * (y - 1970) + ((y - 1) div 4 - (y - 1) div 100 + (y - 1) div 400) - 477"

text \<open>The year that holds day \<open>d\<close>, counted from the first day of the year \<open>y\<close>.\<close>

function year_loop :: "int \<Rightarrow> int \<Rightarrow> int \<times> int" where
  "year_loop y d =
     (if d < 0 then year_loop (y - 1) (d + year_len (y - 1))
      else if d < year_len y then (y, d) else year_loop (y + 1) (d - year_len y))"
  by pat_completeness auto
termination
  by (relation "measure (\<lambda>(y, d). if d < 0 then nat (- d) + 366 else nat d)")
    (auto simp: year_len_def split: if_splits)

declare year_loop.simps [simp del]

fun month_loop :: "int \<Rightarrow> int list \<Rightarrow> int \<Rightarrow> int \<times> int" where
  "month_loop m [] d = (m, d)"
| "month_loop m (l # ls) d = (if d < l then (m, d) else month_loop (m + 1) ls (d - l))"

record tm =
  tm_year :: int
  tm_mon :: int
  tm_mday :: int
  tm_hour :: int
  tm_min :: int
  tm_sec :: int

text \<open>\<open>gmtime_r\<close>; the year and the month are the calendar's, not C's offsets from 1900 and 0.\<close>

definition gmtime :: "int \<Rightarrow> tm" where
  "gmtime t =
     (let (y, yd) = year_loop 1970 (t div 86400);
          (m, md) = month_loop 1 (month_lens y) yd;
          s = t mod 86400
      in \<lparr>tm_year = y, tm_mon = m, tm_mday = md + 1,
          tm_hour = s div 3600, tm_min = s mod 3600 div 60, tm_sec = s mod 60\<rparr>)"

definition iso_text :: "int \<Rightarrow> int \<Rightarrow> int \<Rightarrow> int \<Rightarrow> int \<Rightarrow> int \<Rightarrow> string" where
  "iso_text y m d h mi s =
     pad_nat 4 (nat y) @ ''-'' @ pad_nat 2 (nat m) @ ''-'' @ pad_nat 2 (nat d) @ ''T'' @
     pad_nat 2 (nat h) @ '':'' @ pad_nat 2 (nat mi) @ '':'' @ pad_nat 2 (nat s) @ ''Z''"

definition strftime_iso :: "tm \<Rightarrow> string" where
  "strftime_iso u = iso_text (tm_year u) (tm_mon u) (tm_mday u) (tm_hour u) (tm_min u) (tm_sec u)"

definition iso_of :: "int \<Rightarrow> string" where
  "iso_of t = strftime_iso (gmtime t)"

text \<open>
  SQLite's reading of the canonical form, the only one the daemon stores: \<open>None\<close>, SQL's NULL, for
  any other text. A day past the end of its month counts on into the next, as SQLite has it.
\<close>

definition num_at :: "nat \<Rightarrow> nat \<Rightarrow> string \<Rightarrow> int" where
  "num_at i n s = int (digits_val 0 (take n (drop i s)))"

definition iso_shape :: "string \<Rightarrow> bool" where
  "iso_shape s =
     (length s = 20 \<and> s ! 4 = CHR ''-'' \<and> s ! 7 = CHR ''-'' \<and> s ! 10 = CHR ''T'' \<and>
      s ! 13 = CHR '':'' \<and> s ! 16 = CHR '':'' \<and> s ! 19 = CHR ''Z'' \<and>
      list_all (\<lambda>i. c_isdigit (s ! i)) [0, 1, 2, 3, 5, 6, 8, 9, 11, 12, 14, 15, 17, 18])"

definition unix_of :: "string \<Rightarrow> int option" where
  "unix_of s =
     (if \<not> iso_shape s then None
      else let y = num_at 0 4 s; m = num_at 5 2 s; d = num_at 8 2 s;
               h = num_at 11 2 s; mi = num_at 14 2 s; sec = num_at 17 2 s
           in if 1 \<le> m \<and> m \<le> 12 \<and> 1 \<le> d \<and> d \<le> 31 \<and> h \<le> 24 \<and> mi \<le> 59 \<and> sec \<le> 59
              then Some ((year_start y + sum_list (take (nat (m - 1)) (month_lens y)) + d - 1) * 86400
                     + h * 3600 + mi * 60 + sec)
              else None)"

text \<open>The instants of the years 1970 to 9999.\<close>

definition time_ok :: "int \<Rightarrow> bool" where
  "time_ok t = (0 \<le> t \<and> t < 253402300800)"

subsection \<open>The calendar loops locate a day\<close>

lemma div_step: "0 < n \<Longrightarrow> (y::int) div n = (y - 1) div n + (if n dvd y then 1 else 0)"
proof -
  assume n: "0 < n"
  define q r where "q = (y - 1) div n" and "r = (y - 1) mod n"
  have y: "y = n * q + (r + 1)" and r: "0 \<le> r" "r < n" using n by (simp_all add: q_def r_def)
  show ?thesis
  proof (cases "r + 1 = n")
    case True
    then have "y = n * (q + 1)" using y by (simp add: algebra_simps)
    then have "n dvd y" "y div n = q + 1" using n by simp_all
    then show ?thesis by (simp add: q_def)
  next
    case False
    then have "(n * q + (r + 1)) div n = q" "(n * q + (r + 1)) mod n = r + 1" using r n by auto
    then have "y div n = q" "\<not> n dvd y" using y r by (auto simp: dvd_eq_mod_eq_0)
    then show ?thesis by (simp add: q_def)
  qed
qed

lemma year_start_Suc: "year_start (y + 1) = year_start y + year_len y"
  using div_step [of 4 y] div_step [of 100 y] div_step [of 400 y]
  by (auto simp: year_start_def year_len_def leap_year_def intro: dvd_trans)

lemma year_len_bounds: "365 \<le> year_len y \<and> year_len y \<le> 366"
  by (simp add: year_len_def)

lemma year_start_mono: "y < z \<Longrightarrow> year_start y + year_len y \<le> year_start z"
proof (induction "nat (z - y)" arbitrary: z)
  case 0
  then show ?case by simp
next
  case (Suc n)
  show ?case
  proof (cases "y = z - 1")
    case True
    then show ?thesis using year_start_Suc [of y] by simp
  next
    case False
    then have "year_start y + year_len y \<le> year_start (z - 1)" using Suc by simp
    then show ?thesis using year_start_Suc [of "z - 1"] year_len_bounds [of "z - 1"] by simp
  qed
qed

lemma year_loop_spec:
  "year_loop y d = (y', d') \<Longrightarrow>
     year_start y + d = year_start y' + d' \<and> 0 \<le> d' \<and> d' < year_len y'"
proof (induction y d rule: year_loop.induct)
  case (1 y d)
  consider "d < 0" | "0 \<le> d" "d < year_len y" | "0 \<le> d" "year_len y \<le> d" by linarith
  then show ?case
  proof cases
    case 1
    with "1.prems" have "year_loop (y - 1) (d + year_len (y - 1)) = (y', d')"
      by (simp add: year_loop.simps [of y d])
    with "1.IH"(1) [OF 1] show ?thesis using year_start_Suc [of "y - 1"] by simp
  next
    case 2
    with "1.prems" show ?thesis by (simp add: year_loop.simps [of y d])
  next
    case 3
    with "1.prems" have "year_loop (y + 1) (d - year_len y) = (y', d')"
      by (simp add: year_loop.simps [of y d])
    with "1.IH"(2) 3 show ?thesis using year_start_Suc [of y] by simp
  qed
qed

lemma month_loop_spec:
  "month_loop m ls d = (m', d') \<Longrightarrow> 0 \<le> d \<Longrightarrow> d < sum_list ls \<Longrightarrow>
     m \<le> m' \<and> nat (m' - m) < length ls \<and> d = sum_list (take (nat (m' - m)) ls) + d' \<and>
     0 \<le> d' \<and> d' < ls ! nat (m' - m)"
proof (induction m ls d rule: month_loop.induct)
  case (1 m d)
  then show ?case by simp
next
  case (2 m l ls d)
  show ?case
  proof (cases "d < l")
    case True
    with 2 show ?thesis by simp
  next
    case False
    with 2 have IH: "m + 1 \<le> m' \<and> nat (m' - (m + 1)) < length ls \<and>
        d - l = sum_list (take (nat (m' - (m + 1))) ls) + d' \<and> 0 \<le> d' \<and>
        d' < ls ! nat (m' - (m + 1))" by simp
    then have "nat (m' - m) = Suc (nat (m' - (m + 1)))" by linarith
    with IH show ?thesis by simp
  qed
qed

lemma sum_month_lens: "sum_list (month_lens y) = year_len y"
  by (simp add: month_lens_def year_len_def)

lemma month_lens_bounds: "i < 12 \<Longrightarrow> month_lens y ! i \<le> 31"
  by (simp add: month_lens_def nth_Cons' split: if_splits)

lemma month_lens_pos: "x \<in> set (month_lens y) \<Longrightarrow> 0 < x"
  by (auto simp: month_lens_def split: if_splits)

lemma sum_take_mono:
  assumes "\<And>x. x \<in> set ls \<Longrightarrow> 0 \<le> (x::int)" and "i < j" and "j \<le> length ls"
  shows "sum_list (take i ls) + ls ! i \<le> sum_list (take j ls)"
proof -
  have "sum_list (take (Suc i) ls) \<le> sum_list (take j ls)"
  proof -
    have "take j ls = take (Suc i) ls @ take (j - Suc i) (drop (Suc i) ls)"
      using assms(2) by (metis Suc_leI le_add_diff_inverse take_add)
    moreover have "0 \<le> sum_list (take (j - Suc i) (drop (Suc i) ls))"
      using assms(1) by (intro sum_list_nonneg) (meson in_set_dropD in_set_takeD)
    ultimately show ?thesis by simp
  qed
  then show ?thesis using assms(2,3) by (simp add: take_Suc_conv_app_nth)
qed

text \<open>The fields of \<open>gmtime\<close>, in their ranges, and the instant they stand for.\<close>

definition tm_days :: "tm \<Rightarrow> int" where
  "tm_days u = year_start (tm_year u) + sum_list (take (nat (tm_mon u - 1)) (month_lens (tm_year u)))
     + tm_mday u - 1"

definition tm_valid :: "tm \<Rightarrow> bool" where
  "tm_valid u \<longleftrightarrow> 1 \<le> tm_mon u \<and> tm_mon u \<le> 12 \<and> 1 \<le> tm_mday u \<and>
     tm_mday u \<le> month_lens (tm_year u) ! nat (tm_mon u - 1) \<and>
     0 \<le> tm_hour u \<and> tm_hour u < 24 \<and> 0 \<le> tm_min u \<and> tm_min u < 60 \<and> 0 \<le> tm_sec u \<and> tm_sec u < 60"

definition tm_unix :: "tm \<Rightarrow> int" where
  "tm_unix u = tm_days u * 86400 + tm_hour u * 3600 + tm_min u * 60 + tm_sec u"

lemma split_seconds:
  "s div 3600 * 3600 + s mod 3600 div 60 * 60 + s mod 60 = (s::int)"
proof -
  have "s mod 60 = s mod 3600 mod 60" by (simp add: mod_mod_cancel)
  then have "s mod 3600 div 60 * 60 + s mod 60 = s mod 3600" by simp
  moreover have "s div 3600 * 3600 + s mod 3600 = s" by simp
  ultimately show ?thesis by linarith
qed

lemma gmtime_spec: "tm_valid (gmtime t) \<and> tm_unix (gmtime t) = t"
proof -
  obtain y yd where y: "year_loop 1970 (t div 86400) = (y, yd)" by fastforce
  obtain m md where m: "month_loop 1 (month_lens y) yd = (m, md)" by fastforce
  have ys: "t div 86400 = year_start y + yd" "0 \<le> yd" "yd < year_len y"
    using year_loop_spec [OF y] by (simp_all add: year_start_def)
  have ms: "1 \<le> m" "nat (m - 1) < 12" "yd = sum_list (take (nat (m - 1)) (month_lens y)) + md"
    "0 \<le> md" "md < month_lens y ! nat (m - 1)"
    using month_loop_spec [OF m] ys sum_month_lens by (simp_all add: month_lens_def)
  define s where "s = t mod 86400"
  have u: "gmtime t = \<lparr>tm_year = y, tm_mon = m, tm_mday = md + 1,
      tm_hour = s div 3600, tm_min = s mod 3600 div 60, tm_sec = s mod 60\<rparr>"
    unfolding gmtime_def y s_def by (simp only: m prod.case Let_def)
  have s: "0 \<le> s" "s < 86400" "(t div 86400) * 86400 + s = t" by (simp_all add: s_def)
  have h: "0 \<le> s div 3600" "s div 3600 < 24" "0 \<le> s mod 3600 div 60" "s mod 3600 div 60 < 60"
    using s by linarith+
  have "tm_valid (gmtime t)"
    using ms h unfolding tm_valid_def u tm.simps by simp
  moreover have "tm_days (gmtime t) = t div 86400"
    using ys ms unfolding tm_days_def u tm.simps by linarith
  ultimately show ?thesis
    using split_seconds [of s] s unfolding tm_unix_def u tm.simps by linarith
qed

lemma tm_days_in_year:
  assumes "tm_valid u"
  shows "year_start (tm_year u) \<le> tm_days u \<and> tm_days u < year_start (tm_year u) + year_len (tm_year u)"
proof -
  let ?ls = "month_lens (tm_year u)" and ?i = "nat (tm_mon u - 1)"
  have i: "?i < 12" and len: "length ?ls = 12" using assms by (auto simp: tm_valid_def month_lens_def)
  have nn: "\<And>x. x \<in> set ?ls \<Longrightarrow> 0 \<le> x" using month_lens_pos by (meson less_imp_le)
  have "0 \<le> sum_list (take ?i ?ls)" using nn by (intro sum_list_nonneg) (meson in_set_takeD)
  moreover have "sum_list (take ?i ?ls) + ?ls ! ?i \<le> year_len (tm_year u)"
    using sum_take_mono [of ?ls ?i 12] nn i len sum_month_lens [of "tm_year u"] by simp
  ultimately show ?thesis using assms by (auto simp: tm_days_def tm_valid_def)
qed

lemma gmtime_year: "time_ok t \<Longrightarrow> 1970 \<le> tm_year (gmtime t) \<and> tm_year (gmtime t) \<le> 9999"
proof -
  assume t: "time_ok t"
  let ?u = "gmtime t"
  have u: "tm_valid ?u" "tm_unix ?u = t" using gmtime_spec by auto
  then have "0 \<le> tm_days ?u" "tm_days ?u < 2932897"
    using t by (auto simp: tm_unix_def tm_valid_def time_ok_def)
  moreover have "year_start 1970 = 0" "year_start 10000 = 2932897" by (simp_all add: year_start_def)
  ultimately show ?thesis
    using tm_days_in_year [OF u(1)] year_start_mono [of "tm_year ?u" 1970]
      year_start_mono [of 9999 "tm_year ?u"] year_start_Suc [of 9999]
    by (cases "tm_year ?u < 1970"; cases "9999 < tm_year ?u") auto
qed

subsection \<open>Writing and reading\<close>

lemma pad_nat_nth_digit: "i < w \<Longrightarrow> c_isdigit (pad_nat w n ! i)"
  using pad_nat_digits [of "pad_nat w n ! i" w n] by simp

lemma iso_shape_text: "iso_shape (iso_text y m d h mi s)"
  by (simp add: iso_shape_def iso_text_def nth_append pad_nat_nth_digit)

lemma num_at_text:
  assumes "0 \<le> y" "y \<le> 9999" "0 \<le> m" "m < 100" "0 \<le> d" "d < 100" "0 \<le> h" "h < 100"
    "0 \<le> mi" "mi < 100" "0 \<le> s" "s < 100"
  shows "num_at 0 4 (iso_text y m d h mi s) = y" "num_at 5 2 (iso_text y m d h mi s) = m"
    "num_at 8 2 (iso_text y m d h mi s) = d" "num_at 11 2 (iso_text y m d h mi s) = h"
    "num_at 14 2 (iso_text y m d h mi s) = mi" "num_at 17 2 (iso_text y m d h mi s) = s"
  using assms by (simp_all add: num_at_def iso_text_def digits_val_pad_nat)

lemma tm_mday_le: "tm_valid u \<Longrightarrow> tm_mday u \<le> 31"
proof -
  assume u: "tm_valid u"
  then have "nat (tm_mon u - 1) < 12" unfolding tm_valid_def by linarith
  from month_lens_bounds [OF this, of "tm_year u"] u show ?thesis unfolding tm_valid_def by linarith
qed

lemma unix_of_iso_text:
  assumes "tm_valid u" and "1970 \<le> tm_year u" and "tm_year u \<le> 9999"
  shows "unix_of (strftime_iso u) = Some (tm_unix u)"
proof -
  show ?thesis
    using assms tm_mday_le [OF assms(1)] unfolding strftime_iso_def tm_valid_def
    by (simp add: unix_of_def iso_shape_text num_at_text tm_unix_def tm_days_def Let_def)
qed

lemma unix_of_iso: "time_ok t \<Longrightarrow> unix_of (iso_of t) = Some t"
  using unix_of_iso_text [of "gmtime t"] gmtime_spec [of t] gmtime_year [of t]
  by (simp add: iso_of_def)

lemma pad_int_less:
  assumes "0 \<le> m" "m < 10 ^ w" "0 \<le> n" "n < 10 ^ w"
  shows "(pad_nat w (nat m) < pad_nat w (nat n)) = (m < n)"
    and "(pad_nat w (nat m) = pad_nat w (nat n)) = (m = n)"
proof -
  have "nat m < 10 ^ w" "nat n < 10 ^ w" using assms by (simp_all add: nat_less_iff)
  then show "(pad_nat w (nat m) < pad_nat w (nat n)) = (m < n)"
    and "(pad_nat w (nat m) = pad_nat w (nat n)) = (m = n)"
    using assms by (auto simp: pad_nat_less pad_nat_inj nat_less_eq_zless nat_eq_iff)
qed

lemma iso_text_less:
  assumes "0 \<le> y" "y \<le> 9999" "0 \<le> m" "m < 100" "0 \<le> d" "d < 100" "0 \<le> h" "h < 100"
    "0 \<le> mi" "mi < 100" "0 \<le> s" "s < 100"
    and "0 \<le> y'" "y' \<le> 9999" "0 \<le> m'" "m' < 100" "0 \<le> d'" "d' < 100" "0 \<le> h'" "h' < 100"
    "0 \<le> mi'" "mi' < 100" "0 \<le> s'" "s' < 100"
  shows "(iso_text y m d h mi s < iso_text y' m' d' h' mi' s') =
    (y < y' \<or> y = y' \<and> (m < m' \<or> m = m' \<and> (d < d' \<or> d = d' \<and>
      (h < h' \<or> h = h' \<and> (mi < mi' \<or> mi = mi' \<and> s < s')))))"
  using assms
  by (simp add: iso_text_def less_list_append_iff pad_int_less)

lemma tm_days_mono:
  assumes "tm_valid u" and "tm_valid v"
    and "tm_year u < tm_year v \<or> tm_year u = tm_year v \<and>
      (tm_mon u < tm_mon v \<or> tm_mon u = tm_mon v \<and> tm_mday u < tm_mday v)"
  shows "tm_days u < tm_days v"
proof (cases "tm_year u < tm_year v")
  case True
  then show ?thesis
    using tm_days_in_year [OF assms(1)] tm_days_in_year [OF assms(2)]
      year_start_mono [of "tm_year u" "tm_year v"] by linarith
next
  case False
  then have y: "tm_year u = tm_year v" using assms(3) by simp
  show ?thesis
  proof (cases "tm_mon u < tm_mon v")
    case True
    let ?ls = "month_lens (tm_year v)"
    have "sum_list (take (nat (tm_mon u - 1)) ?ls) + ?ls ! nat (tm_mon u - 1)
        \<le> sum_list (take (nat (tm_mon v - 1)) ?ls)"
      using True assms(1,2) month_lens_pos
      by (intro sum_take_mono) (auto simp: tm_valid_def month_lens_def less_imp_le split: if_splits)
    then show ?thesis using assms(1,2) y by (auto simp: tm_days_def tm_valid_def)
  next
    case False
    then show ?thesis using assms(3) y by (simp add: tm_days_def)
  qed
qed

lemma tm_unix_mono:
  assumes "tm_valid u" and "tm_valid v"
    and "tm_days u < tm_days v \<or> tm_days u = tm_days v \<and> (tm_hour u < tm_hour v \<or>
      tm_hour u = tm_hour v \<and> (tm_min u < tm_min v \<or> tm_min u = tm_min v \<and> tm_sec u < tm_sec v))"
  shows "tm_unix u < tm_unix v"
  using assms by (auto simp: tm_unix_def tm_valid_def)

lemma iso_of_less_imp:
  assumes "time_ok s" and "time_ok t" and "iso_of s < iso_of t"
  shows "s < t"
proof -
  let ?u = "gmtime s" and ?v = "gmtime t"
  have v: "tm_valid ?u" "tm_valid ?v" "tm_unix ?u = s" "tm_unix ?v = t"
    using gmtime_spec by auto
  have b: "tm_mday ?u < 100" "tm_mday ?v < 100"
    using tm_mday_le [OF v(1)] tm_mday_le [OF v(2)] by simp_all
  have "tm_year ?u < tm_year ?v \<or> tm_year ?u = tm_year ?v \<and> (tm_mon ?u < tm_mon ?v \<or>
      tm_mon ?u = tm_mon ?v \<and> (tm_mday ?u < tm_mday ?v \<or> tm_mday ?u = tm_mday ?v \<and>
      (tm_hour ?u < tm_hour ?v \<or> tm_hour ?u = tm_hour ?v \<and> (tm_min ?u < tm_min ?v \<or>
       tm_min ?u = tm_min ?v \<and> tm_sec ?u < tm_sec ?v))))"
    using assms(3) v(1,2) b gmtime_year [OF assms(1)] gmtime_year [OF assms(2)]
    unfolding iso_of_def strftime_iso_def tm_valid_def by (subst (asm) iso_text_less) auto
  then have "tm_days ?u < tm_days ?v \<or> tm_days ?u = tm_days ?v \<and> (tm_hour ?u < tm_hour ?v \<or>
      tm_hour ?u = tm_hour ?v \<and> (tm_min ?u < tm_min ?v \<or> tm_min ?u = tm_min ?v \<and> tm_sec ?u < tm_sec ?v))"
    using tm_days_mono [OF v(1,2)] by (auto simp: tm_days_def)
  from tm_unix_mono [OF v(1,2) this] show ?thesis using v(3,4) by simp
qed

lemma iso_of_less: "time_ok s \<Longrightarrow> time_ok t \<Longrightarrow> (iso_of s < iso_of t) = (s < t)"
  using iso_of_less_imp [of s t] iso_of_less_imp [of t s] unix_of_iso [of s] unix_of_iso [of t]
  by (metis less_asym linorder_neqE option.inject)

interpretation iso: time_text iso_of unix_of time_ok
  by unfold_locales (simp_all add: unix_of_iso iso_of_less)

lemma length_iso_of: "length (iso_of t) = 20"
  by (simp add: iso_of_def strftime_iso_def iso_text_def)

end
