(* ===== verification/Tables.thy ===== *)
theory Tables
  imports IsoTime Metrics "HOL-Library.Option_ord"
begin

text \<open>
  The two tables of the database (\<open>SQL_CREATE\<close> in \<open>src/db.c\<close>) and the SQL the sources use on
  them. A table is the list of its rows in rowid order. A NULL is \<open>None\<close>; SQLite stores a NaN as a
  NULL, and \<open>AVG\<close> skips NULLs and gives NULL on no value. SQLite's integer division truncates,
  and its order of values puts NULL first. Conditions with a NULL operand do not hold.
\<close>

subsection \<open>Rows\<close>

text \<open>The REAL columns.\<close>

datatype col =
    Load_1m | Load_5m | Load_15m
  | Cpu_user_percent | Cpu_system_percent | Cpu_idle_percent
  | Mem_total_mb | Mem_available_mb | Disk_total_gb | Disk_available_gb
  | Temp_celsius | Net_rx_bps | Net_tx_bps | Uptime_seconds
  | Swap_total_mb | Swap_free_mb | Swap_in_bps | Swap_out_bps

record row =
  timestamp :: string
  bucket_sec :: "int option"
  cell :: "col \<Rightarrow> double option"

record database =
  metrics_tbl :: "row list"
  alert_log :: "(string \<times> string) list"

definition bind_double :: "double \<Rightarrow> double option" where
  "bind_double x = (if isnan x then None else Some x)"

text \<open>\<open>CAST (strftime ('%s', timestamp) AS INTEGER)\<close>.\<close>

definition unix :: "row \<Rightarrow> int option" where
  "unix r = unix_of (timestamp r)"

text \<open>\<open>strftime ('%Y-%m-%dT%H:%M:%SZ', t, 'unixepoch')\<close>: NULL outside the years 0 to 9999.\<close>

definition sql_iso :: "int option \<Rightarrow> string option" where
  "sql_iso k = (case k of
      None \<Rightarrow> None
    | Some t \<Rightarrow> if - 62167219200 \<le> t \<and> t < 253402300800 then Some (iso_of t) else None)"

subsection \<open>Aggregation\<close>

fun sum_dbl :: "double list \<Rightarrow> double" where
  "sum_dbl [] = Fin 0"
| "sum_dbl (x # xs) = x + sum_dbl xs"

definition avg_of :: "double list \<Rightarrow> double option" where
  "avg_of xs = (if xs = [] then None else bind_double (sum_dbl xs div dbl_of_int (int (length xs))))"

definition avg :: "row list \<Rightarrow> col \<Rightarrow> double option" where
  "avg rs c = avg_of (List.map_filter (\<lambda>r. cell r c) rs)"

text \<open>\<open>GROUP BY\<close> a key: each key that occurs, in order, with its rows.\<close>

definition group_by :: "(row \<Rightarrow> 'k::linorder) \<Rightarrow> row list \<Rightarrow> ('k \<times> row list) list" where
  "group_by key rs = map (\<lambda>k. (k, filter (\<lambda>r. key r = k) rs)) (sort (remdups (map key rs)))"

definition bucket_start :: "int \<Rightarrow> int \<Rightarrow> int" where
  "bucket_start bs t = c_div t bs * bs"

definition bucket_of :: "int \<Rightarrow> row \<Rightarrow> int option" where
  "bucket_of bs r = map_option (bucket_start bs) (unix r)"

subsection \<open>Lemmas\<close>

lemma group_by_set:
  "(k, g) \<in> set (group_by key rs) \<longleftrightarrow> k \<in> key ` set rs \<and> g = filter (\<lambda>r. key r = k) rs"
  by (auto simp: group_by_def)

lemma group_by_member: "r \<in> set rs \<Longrightarrow> (key r, filter (\<lambda>r'. key r' = key r) rs) \<in> set (group_by key rs)"
  by (simp add: group_by_set)

lemma group_by_nonempty: "(k, g) \<in> set (group_by key rs) \<Longrightarrow> g \<noteq> [] \<and> set g \<subseteq> set rs"
  by (auto simp: group_by_set filter_empty_conv)

lemma group_by_Nil [simp]: "group_by key [] = []"
  by (simp add: group_by_def)

lemma map_fst_group_by [simp]: "map fst (group_by key rs) = sort (remdups (map key rs))"
  by (simp add: group_by_def comp_def)

lemma distinct_group_by: "distinct (map fst (group_by key rs))"
  by simp

lemma length_group_by: "length (group_by key rs) = card (key ` set rs)"
  by (simp add: group_by_def length_remdups_card_conv)

lemma bucket_start_div: "0 \<le> t \<Longrightarrow> 0 < bs \<Longrightarrow> bucket_start bs t = t div bs * bs"
  by (simp add: bucket_start_def c_div_nonneg)

lemma bucket_start_bounds:
  assumes "0 \<le> t" and "0 < bs"
  shows "0 \<le> bucket_start bs t" and "bucket_start bs t \<le> t" and "t < bucket_start bs t + bs"
proof -
  have "t = t div bs * bs + t mod bs" and "0 \<le> t mod bs" and "t mod bs < bs" and "0 \<le> t div bs * bs"
    using assms by (simp_all add: pos_imp_zdiv_nonneg_iff)
  then show "0 \<le> bucket_start bs t" and "bucket_start bs t \<le> t" and "t < bucket_start bs t + bs"
    using bucket_start_div [OF assms] by linarith+
qed

lemma bucket_start_dvd: "bs dvd bucket_start bs t"
  by (simp add: bucket_start_def)

text \<open>A bucket lies within one bucket of any multiple of its size.\<close>

lemma bucket_start_coarser:
  assumes "0 \<le> t" and "0 < b" and "b dvd B" and "0 < B"
  shows "bucket_start B (bucket_start b t) = bucket_start B t"
proof -
  obtain m where B: "B = b * m" using assms(3) by (auto simp: dvd_def)
  then have m: "0 < m" using assms(2,4) by (simp add: zero_less_mult_iff)
  have "t div b * b div B = t div B"
    using m assms(2) by (simp add: B zdiv_zmult2_eq)
  then show ?thesis
    using assms bucket_start_bounds(1) [OF assms(1,2)] by (simp add: bucket_start_div)
qed

lemma bucket_start_idem: "0 \<le> t \<Longrightarrow> 0 < b \<Longrightarrow> bucket_start b (bucket_start b t) = bucket_start b t"
  by (rule bucket_start_coarser) auto

subsection \<open>Rows with a canonical timestamp\<close>

text \<open>What every insert of the program writes: a timestamp \<open>iso_of\<close> prints.\<close>

definition row_ok :: "row \<Rightarrow> bool" where
  "row_ok r = (case unix r of None \<Rightarrow> False | Some t \<Rightarrow> time_ok t \<and> timestamp r = iso_of t)"

lemma row_okE:
  assumes "row_ok r"
  obtains t where "unix r = Some t" "time_ok t" "timestamp r = iso_of t"
  using assms by (auto simp: row_ok_def split: option.splits)

lemma unix_iso: "time_ok t \<Longrightarrow> timestamp r = iso_of t \<Longrightarrow> unix r = Some t"
  by (simp add: unix_def iso.parse_fmt)

lemma row_okI: "time_ok t \<Longrightarrow> timestamp r = iso_of t \<Longrightarrow> row_ok r"
  by (simp add: row_ok_def unix_iso)

lemma sql_iso_ok: "time_ok t \<Longrightarrow> sql_iso (Some t) = Some (iso_of t)"
  by (simp add: sql_iso_def time_ok_def)

lemma time_ok_bucket: "time_ok t \<Longrightarrow> 0 < bs \<Longrightarrow> time_ok (bucket_start bs t)"
  using bucket_start_bounds [of t bs] by (auto simp: time_ok_def)

end
