(* ===== verification/Consolidate.thy ===== *)
theory Consolidate
  imports Tables
begin

text \<open>
  \<open>db_consolidate\<close> (\<open>src/db.c\<close>, mirrored by \<open>src/migrate/consolidate.c\<close>): the ladder of tiers,
  the SQL text of a pass, and what its statements do to the \<open>metrics\<close> table. A tier is an
  INSERT of the averages of the aged buckets followed by a DELETE of their rows, with the same WHERE
  clause (\<open>tier_where\<close>); the five tiers run in order in one transaction.
\<close>

subsection \<open>The ladder and the statements\<close>

definition TIER_TRANSITIONS :: "(int \<times> int) list" where
  "TIER_TRANSITIONS =
     [(5, 2 * 3600), (30, 12 * 3600), (300, 5 * 86400), (3600, 60 * 86400), (21600, 365 * 86400)]"

text \<open>\<open>WHERE (unix / bs) * bs + bs <= cutoff AND (bucket_sec IS NULL OR bucket_sec < bs)\<close>.\<close>

definition finer :: "int \<Rightarrow> row \<Rightarrow> bool" where
  "finer bs r = (case bucket_sec r of None \<Rightarrow> True | Some b \<Rightarrow> b < bs)"

definition aged :: "int \<Rightarrow> int \<Rightarrow> row \<Rightarrow> bool" where
  "aged bs cutoff r = (case bucket_of bs r of None \<Rightarrow> False | Some k \<Rightarrow> k + bs \<le> cutoff)"

definition tier_where :: "int \<Rightarrow> int \<Rightarrow> row \<Rightarrow> bool" where
  "tier_where bs cutoff r = (aged bs cutoff r \<and> finer bs r)"

text \<open>One row of the SELECT; the key is not NULL under the WHERE clause.\<close>

definition tier_row :: "int \<Rightarrow> int option \<times> row list \<Rightarrow> row" where
  "tier_row bs kg =
     \<lparr>timestamp = (case sql_iso (fst kg) of None \<Rightarrow> '''' | Some s \<Rightarrow> s),
      bucket_sec = Some bs, cell = avg (snd kg)\<rparr>"

definition tier_insert :: "int \<Rightarrow> int \<Rightarrow> row list \<Rightarrow> row list" where
  "tier_insert bs cutoff tbl =
     tbl @ map (tier_row bs) (group_by (bucket_of bs) (filter (tier_where bs cutoff) tbl))"

definition tier_delete :: "int \<Rightarrow> int \<Rightarrow> row list \<Rightarrow> row list" where
  "tier_delete bs cutoff tbl = filter (\<lambda>r. \<not> tier_where bs cutoff r) tbl"

definition tier_pass :: "int \<Rightarrow> int \<times> int \<Rightarrow> row list \<Rightarrow> row list" where
  "tier_pass now tier tbl =
     tier_delete (fst tier) (now - snd tier) (tier_insert (fst tier) (now - snd tier) tbl)"

definition consolidate :: "int \<Rightarrow> row list \<Rightarrow> row list" where
  "consolidate now tbl = fold (tier_pass now) TIER_TRANSITIONS tbl"

subsection \<open>The SQL text\<close>

definition sql_insert_into :: string where
  "sql_insert_into =
     ''INSERT INTO metrics (  timestamp, load_1m, load_5m, load_15m,'' @
     ''  cpu_user_percent, cpu_system_percent, cpu_idle_percent,'' @
     ''  mem_total_mb, mem_available_mb,  disk_total_gb, disk_available_gb,'' @
     ''  temp_celsius, net_rx_bps, net_tx_bps, uptime_seconds, bucket_sec,'' @
     ''  swap_total_mb, swap_free_mb, swap_in_bps, swap_out_bps) SELECT''"

definition sql_averages :: string where
  "sql_averages =
     ''  AVG(load_1m), AVG(load_5m), AVG(load_15m),'' @
     ''  AVG(cpu_user_percent), AVG(cpu_system_percent), AVG(cpu_idle_percent),'' @
     ''  AVG(mem_total_mb), AVG(mem_available_mb),  AVG(disk_total_gb), AVG(disk_available_gb),'' @
     ''  AVG(temp_celsius), AVG(net_rx_bps), AVG(net_tx_bps), AVG(uptime_seconds),''"

definition sql_swap_averages :: string where
  "sql_swap_averages =
     ''  AVG(swap_total_mb), AVG(swap_free_mb), AVG(swap_in_bps), AVG(swap_out_bps)''"

text \<open>\<open>(CAST(strftime('%s',timestamp) AS INTEGER)/bs)*bs\<close>.\<close>

definition sql_bucket :: "int \<Rightarrow> string" where
  "sql_bucket bs =
     ''(CAST(strftime('%s',timestamp) AS INTEGER)/'' @ show_int bs @ '')*'' @ show_int bs"

definition sql_where :: "int \<Rightarrow> int \<Rightarrow> string" where
  "sql_where bs cutoff =
     '' WHERE '' @ sql_bucket bs @ '' + '' @ show_int bs @ '' <= '' @ show_int cutoff @
     ''   AND (bucket_sec IS NULL OR bucket_sec < '' @ show_int bs @ '')''"

definition tier_sql :: "int \<Rightarrow> int \<Rightarrow> string" where
  "tier_sql bs cutoff =
     sql_insert_into @ ''  strftime('%Y-%m-%dT%H:%M:%SZ',           '' @ sql_bucket bs @
     '', 'unixepoch'),'' @ sql_averages @ ''  '' @ show_int bs @ '','' @ sql_swap_averages @
     '' FROM metrics'' @ sql_where bs cutoff @ '' GROUP BY '' @ sql_bucket bs @ '';'' @
     ''DELETE FROM metrics'' @ sql_where bs cutoff @ '';''"

text \<open>
  The writes of \<open>build_consolidate_sql\<close>: each piece goes after the ones before if it fits in what
  remains of the buffer with its terminating zero, else the build fails.
\<close>

fun append_all :: "int \<Rightarrow> string \<Rightarrow> string list \<Rightarrow> string option" where
  "append_all remaining sql [] = Some sql"
| "append_all remaining sql (p # ps) =
     (if int (length p) \<ge> remaining then None
      else append_all (remaining - int (length p)) (sql @ p) ps)"

definition build_consolidate_sql :: "int \<Rightarrow> int \<Rightarrow> string option" where
  "build_consolidate_sql capacity now =
     append_all capacity []
       ([''BEGIN IMMEDIATE;''] @
        map (\<lambda>(bs, threshold). tier_sql bs (now - threshold)) TIER_TRANSITIONS @ [''COMMIT;''])"

definition CONSOLIDATE_SQL_SIZE :: int where "CONSOLIDATE_SQL_SIZE = 8192"

lemma append_all_fits:
  "int (sum_list (map length ps)) < remaining \<Longrightarrow> append_all remaining sql ps = Some (sql @ concat ps)"
proof (induction ps arbitrary: remaining sql)
  case Nil
  then show ?case by simp
next
  case (Cons p ps)
  then have "int (length p) < remaining" and "int (sum_list (map length ps)) < remaining - int (length p)"
    by auto
  with Cons.IH show ?case by simp
qed

lemma length_show_int:
  assumes "\<bar>n\<bar> < 10 ^ k" and "0 < k"
  shows "length (show_int n) \<le> k + 1"
proof -
  have "nat \<bar>n\<bar> < 10 ^ k" using assms(1) by (simp add: nat_less_iff)
  then have "length (show_nat (nat \<bar>n\<bar>)) \<le> k" using assms(2) by (rule length_show_nat_le)
  then show ?thesis by (auto simp: show_int_def abs_if split: if_splits)
qed

lemma length_tier_sql:
  assumes "\<bar>cutoff\<bar> < 10 ^ 19" and "\<bar>bs\<bar> < 10 ^ 5"
  shows "length (tier_sql bs cutoff) \<le> 1500"
  using length_show_int [OF assms(1)] length_show_int [OF assms(2)]
  by (simp add: tier_sql_def sql_insert_into_def sql_averages_def sql_swap_averages_def
      sql_where_def sql_bucket_def)

subsection \<open>What one tier does\<close>

text \<open>No row is left that a tier of the ladder would take.\<close>

definition untouched :: "(int \<times> int) list \<Rightarrow> int \<Rightarrow> row \<Rightarrow> bool" where
  "untouched ladder now r = list_all (\<lambda>(bs, threshold). \<not> tier_where bs (now - threshold) r) ladder"

definition settled :: "int \<Rightarrow> row list \<Rightarrow> bool" where
  "settled now tbl = list_all (untouched TIER_TRANSITIONS now) tbl"

lemma tier_row_simps [simp]:
  "bucket_sec (tier_row bs kg) = Some bs" "cell (tier_row bs kg) = avg (snd kg)"
  by (simp_all add: tier_row_def)

lemma not_finer_tier_row: "B \<le> bs \<Longrightarrow> \<not> finer B (tier_row bs kg)"
  by (simp add: finer_def)

definition tier_rows :: "int \<Rightarrow> int \<Rightarrow> row list \<Rightarrow> row list" where
  "tier_rows bs cutoff tbl =
     map (tier_row bs) (group_by (bucket_of bs) (filter (tier_where bs cutoff) tbl))"

lemma tier_rows_not_where: "r \<in> set (tier_rows bs cutoff tbl) \<Longrightarrow> B \<le> bs \<Longrightarrow> \<not> tier_where B cut' r"
  by (auto simp: tier_rows_def tier_where_def not_finer_tier_row)

text \<open>The DELETE spares what the INSERT of the same tier has just written.\<close>

lemma tier_pass_eq [db_simps]:
  "tier_pass now (bs, th) tbl =
     filter (\<lambda>r. \<not> tier_where bs (now - th) r) tbl @ tier_rows bs (now - th) tbl"
  using tier_rows_not_where [of _ bs "now - th" tbl bs]
  by (auto simp: tier_pass_def tier_delete_def tier_insert_def filter_id_conv
      simp flip: tier_rows_def)

lemma tier_pass_none:
  "(\<And>r. r \<in> set tbl \<Longrightarrow> \<not> tier_where bs (now - th) r) \<Longrightarrow> tier_pass now (bs, th) tbl = tbl"
  by (simp add: tier_pass_eq tier_rows_def filter_all_False filter_all_True)

lemma tier_pass_settles: "r \<in> set (tier_pass now (bs, th) tbl) \<Longrightarrow> \<not> tier_where bs (now - th) r"
  by (auto simp: tier_pass_eq dest: tier_rows_not_where)

lemma fold_keeps:
  assumes "\<And>x s. x \<in> set xs \<Longrightarrow> P s \<Longrightarrow> P (f x s)" and "P s"
  shows "P (fold f xs s)"
  using assms by (induction xs arbitrary: s) auto

lemma fold_tiers_settle:
  assumes "sorted_wrt (<) (map fst ladder)" and "r \<in> set (fold (tier_pass now) ladder tbl)"
  shows "untouched ladder now r"
  using assms
proof (induction ladder arbitrary: tbl)
  case Nil
  then show ?case by (simp add: untouched_def)
next
  case (Cons tier ladder)
  obtain bs th where tier: "tier = (bs, th)" by (cases tier)
  have "untouched ladder now r" using Cons by simp
  moreover have "\<forall>r \<in> set (fold (tier_pass now) ladder (tier_pass now (bs, th) tbl)).
      \<not> tier_where bs (now - th) r"
  proof (rule fold_keeps [where P = "\<lambda>s. \<forall>r \<in> set s. \<not> tier_where bs (now - th) r"])
    fix x s
    assume "x \<in> set ladder" and s: "\<forall>r \<in> set s. \<not> tier_where bs (now - th) r"
    from \<open>x \<in> set ladder\<close> have "fst x \<in> set (map fst ladder)" by simp
    then have "bs < fst x" using Cons.prems(1) tier by (simp only: list.map sorted_wrt.simps fst_conv)
    then have "bs \<le> fst x" by simp
    then show "\<forall>r \<in> set (tier_pass now x s). \<not> tier_where bs (now - th) r"
      using s by (cases x) (auto simp: tier_pass_eq dest: tier_rows_not_where)
  qed (blast dest: tier_pass_settles)
  ultimately show ?case using Cons.prems(2) tier by (simp add: untouched_def)
qed

lemma ladder_sorted: "sorted_wrt (<) (map fst TIER_TRANSITIONS)"
  by (simp add: TIER_TRANSITIONS_def)

lemma ladder_pos: "(bs, th) \<in> set TIER_TRANSITIONS \<Longrightarrow> 0 < bs \<and> 0 < th"
  by (auto simp: TIER_TRANSITIONS_def)

lemma settled_iff:
  "settled now tbl \<longleftrightarrow> (\<forall>r \<in> set tbl. \<forall>(bs, th) \<in> set TIER_TRANSITIONS. \<not> tier_where bs (now - th) r)"
  by (auto simp: settled_def untouched_def list_all_iff)

lemma consolidate_settles: "settled now (consolidate now tbl)"
  using fold_tiers_settle [OF ladder_sorted]
  by (auto simp: settled_def consolidate_def list_all_iff)

lemma consolidate_settled_same:
  assumes "settled now tbl"
  shows "consolidate now tbl = tbl"
proof -
  have "fold (tier_pass now) ladder tbl = tbl" if "set ladder \<subseteq> set TIER_TRANSITIONS" for ladder
    using that
  proof (induction ladder)
    case (Cons x ladder)
    then have "tier_pass now x tbl = tbl"
      using assms by (cases x) (force simp: settled_iff intro!: tier_pass_none)
    then show ?case using Cons by simp
  qed simp
  then show ?thesis by (simp add: consolidate_def)
qed

subsection \<open>What a pass keeps of the rows\<close>

lemma tier_rows_bucket_sec: "r \<in> set (tier_rows bs cutoff tbl) \<Longrightarrow> bucket_sec r = Some bs"
  by (auto simp: tier_rows_def)

lemma fold_tiers_prefix:
  "\<exists>new'. fold (tier_pass now) ladder (xs @ new) = filter (untouched ladder now) xs @ new' \<and>
     (\<forall>r \<in> set new'. r \<in> set new \<or> bucket_sec r \<in> (Some \<circ> fst) ` set ladder)"
proof (induction ladder arbitrary: xs new)
  case Nil
  then show ?case by (simp add: untouched_def filter_id_conv)
next
  case (Cons tier ladder)
  obtain bs th where tier: "tier = (bs, th)" by (cases tier)
  define keep where "keep = filter (\<lambda>r. \<not> tier_where bs (now - th) r)"
  define new1 where "new1 = keep new @ tier_rows bs (now - th) (xs @ new)"
  have "tier_pass now tier (xs @ new) = keep xs @ new1"
    by (simp add: tier tier_pass_eq keep_def new1_def)
  moreover obtain new' where
      "fold (tier_pass now) ladder (keep xs @ new1) = filter (untouched ladder now) (keep xs) @ new'"
    and "\<forall>r \<in> set new'. r \<in> set new1 \<or> bucket_sec r \<in> (Some \<circ> fst) ` set ladder"
    using Cons.IH [of "keep xs" new1] by blast
  moreover have "filter (untouched ladder now) (keep xs) = filter (untouched (tier # ladder) now) xs"
    by (simp add: keep_def tier untouched_def [abs_def] conj_commute)
  ultimately show ?case
    by (auto simp: tier new1_def keep_def dest: tier_rows_bucket_sec)
qed

lemma tier_rows_sources:
  assumes "r' \<in> set (tier_rows bs cutoff tbl)"
  obtains k g where "r' = tier_row bs (k, g)" "g = filter (\<lambda>r. tier_where bs cutoff r \<and> bucket_of bs r = k) tbl"
    "g \<noteq> []" "set g \<subseteq> set tbl"
proof -
  obtain k g where kg: "(k, g) \<in> set (group_by (bucket_of bs) (filter (tier_where bs cutoff) tbl))"
    and r': "r' = tier_row bs (k, g)"
    using assms by (auto simp: tier_rows_def)
  have "g = filter (\<lambda>r. tier_where bs cutoff r \<and> bucket_of bs r = k) tbl"
    using kg by (simp add: group_by_set conj_commute)
  then show thesis using that [OF r'] group_by_nonempty [OF kg] by auto
qed

end
