(* ===== verification/Ladder.thy ===== *)
theory Ladder
  imports Consolidate
begin

text \<open>
  Consolidation over the life of a database: every row keeps a representative, rows are not
  invented, and a tier never holds two rows for one bucket, however often and whenever the passes
  run, as long as the clock does not go back. Both rest on the ladder's sizes dividing each other.
\<close>

subsection \<open>Every row is represented\<close>

text \<open>A row itself, or the row of a tier that stands for the bucket it fell in.\<close>

definition stands_for :: "(int \<times> int) list \<Rightarrow> row \<Rightarrow> row \<Rightarrow> bool" where
  "stands_for ladder r' r =
     (r' = r \<or> list_ex (\<lambda>(bs, th). bucket_sec r' = Some bs \<and> unix r' = bucket_of bs r) ladder)"

lemma stands_for_refl [simp]: "stands_for ladder r r"
  by (simp add: stands_for_def)

lemma stands_for_unix:
  assumes "stands_for ladder r' r"
  shows "unix r' = unix r \<or> (\<exists>(bs, th) \<in> set ladder. unix r' = bucket_of bs r)"
  using assms by (auto simp: stands_for_def list_ex_iff)

lemma tier_row_unix:
  assumes "row_ok r" and "bucket_of bs r = k" and "0 < bs"
  shows "unix (tier_row bs (k, g)) = k" and "row_ok (tier_row bs (k, g))"
proof -
  obtain t where t: "unix r = Some t" "time_ok t" using assms(1) by (rule row_okE)
  then have k: "k = Some (bucket_start bs t)" and "time_ok (bucket_start bs t)"
    using assms(2,3) by (auto simp: bucket_of_def time_ok_bucket)
  moreover from this have "timestamp (tier_row bs (k, g)) = iso_of (bucket_start bs t)"
    by (simp add: tier_row_def sql_iso_ok)
  ultimately show "unix (tier_row bs (k, g)) = k" and "row_ok (tier_row bs (k, g))"
    using unix_iso row_okI by metis+
qed

text \<open>A row of \<open>tier_rows\<close> and the source rows it stands for.\<close>

lemma tier_rows_source:
  assumes "r' \<in> set (tier_rows bs cutoff tbl)" and "list_all row_ok tbl" and "0 < bs"
  shows "\<exists>r \<in> set tbl. tier_where bs cutoff r \<and> unix r' = bucket_of bs r \<and> row_ok r'"
  using assms(1)
proof (rule tier_rows_sources)
  fix k g
  assume r': "r' = tier_row bs (k, g)" and "g \<noteq> []" and "set g \<subseteq> set tbl"
    and g: "g = filter (\<lambda>r. tier_where bs cutoff r \<and> bucket_of bs r = k) tbl"
  define r where "r = hd g"
  then have "r \<in> set g" using \<open>g \<noteq> []\<close> by simp
  then have "r \<in> set tbl" "tier_where bs cutoff r" "bucket_of bs r = k" using g by auto
  moreover from this have "row_ok r" using assms(2) by (simp add: list_all_iff)
  ultimately show ?thesis using tier_row_unix [of r bs k] assms(3) r' by metis
qed

lemma tier_rows_stand:
  assumes "r \<in> set tbl" and "tier_where bs cutoff r" and "row_ok r" and "0 < bs"
  shows "\<exists>r' \<in> set (tier_rows bs cutoff tbl). unix r' = bucket_of bs r"
proof -
  define sel where "sel = filter (tier_where bs cutoff) tbl"
  have "r \<in> set sel" using assms by (simp add: sel_def)
  from group_by_member [OF this, of "bucket_of bs"]
  obtain g where "(bucket_of bs r, g) \<in> set (group_by (bucket_of bs) sel)" by blast
  then have "tier_row bs (bucket_of bs r, g) \<in> set (tier_rows bs cutoff tbl)"
    by (force simp: tier_rows_def sel_def)
  then show ?thesis using tier_row_unix(1) [OF assms(3) refl assms(4)] by blast
qed

lemma tier_pass_ok: "list_all row_ok tbl \<Longrightarrow> 0 < bs \<Longrightarrow> list_all row_ok (tier_pass now (bs, th) tbl)"
  using tier_rows_source [of _ bs "now - th" tbl] by (auto simp: tier_pass_eq list_all_iff)

lemma bucket_of_coarser:
  assumes "row_ok r" and "unix r' = bucket_of b r" and "0 < b" and "b dvd B" and "0 < B"
  shows "bucket_of B r' = bucket_of B r"
proof -
  obtain t where "unix r = Some t" "time_ok t" using assms(1) by (rule row_okE)
  then show ?thesis
    using assms bucket_start_coarser [of t b B] by (simp add: bucket_of_def time_ok_def)
qed

definition dividing :: "(int \<times> int) list \<Rightarrow> bool" where
  "dividing ladder =
     (sorted_wrt (\<lambda>a b. fst a dvd fst b) ladder \<and> list_all (\<lambda>a. 0 < fst a) ladder)"

lemma dividing_ladder: "dividing TIER_TRANSITIONS"
  by (simp add: dividing_def TIER_TRANSITIONS_def)

lemma dividing_dvd:
  assumes "dividing ladder" and "x \<in> set ladder" and "y \<in> set ladder"
  shows "0 < fst x \<and> (fst x < fst y \<longrightarrow> fst x dvd fst y)"
proof -
  have pos: "0 < fst x" "0 < fst y" using assms by (auto simp: dividing_def list_all_iff)
  obtain i j where ij: "i < length ladder" "ladder ! i = x" "j < length ladder" "ladder ! j = y"
    using assms(2,3) by (auto simp: in_set_conv_nth)
  have "fst x dvd fst y \<or> fst y dvd fst x"
    using assms(1) ij by (cases i j rule: linorder_cases) (auto simp: dividing_def sorted_wrt_iff_nth_less)
  then show ?thesis using pos by (auto dest: zdvd_imp_le)
qed

text \<open>A row of a tier stands for whatever the rows it was made of stand for.\<close>

lemma stands_for_tier:
  assumes "dividing ladder" and "(B, th) \<in> set ladder" and "row_ok r"
    and "stands_for ladder r1 r" and "finer B r1"
    and "unix r2 = bucket_of B r1" and "bucket_sec r2 = Some B"
  shows "stands_for ladder r2 r"
proof -
  have "bucket_of B r1 = bucket_of B r"
  proof (cases "r1 = r")
    case False
    then obtain b th' where b: "(b, th') \<in> set ladder" "bucket_sec r1 = Some b" "unix r1 = bucket_of b r"
      using assms(4) by (auto simp: stands_for_def list_ex_iff)
    moreover have "b < B" using assms(5) b(2) by (simp add: finer_def)
    ultimately have "0 < b" "b dvd B" "0 < B"
      using dividing_dvd [OF assms(1) b(1) assms(2)] by auto
    then show ?thesis using bucket_of_coarser [OF assms(3) b(3)] by blast
  qed simp
  then show ?thesis using assms(2,6,7) by (auto simp: stands_for_def list_ex_iff)
qed

lemma tier_pass_stand:
  assumes "dividing ladder" and "(B, th) \<in> set ladder" and "list_all row_ok tbl" and "row_ok r"
    and "r1 \<in> set tbl" and "stands_for ladder r1 r"
  shows "\<exists>r2 \<in> set (tier_pass now (B, th) tbl). stands_for ladder r2 r"
proof (cases "tier_where B (now - th) r1")
  case True
  have "row_ok r1" "0 < B"
    using assms(3,5) dividing_dvd [OF assms(1,2,2)] by (auto simp: list_all_iff)
  then obtain r2 where r2: "r2 \<in> set (tier_rows B (now - th) tbl)" "unix r2 = bucket_of B r1"
    using tier_rows_stand [OF assms(5) True] by blast
  have "finer B r1" using True by (simp add: tier_where_def)
  then have "stands_for ladder r2 r"
    using stands_for_tier [OF assms(1,2,4,6) _ r2(2) tier_rows_bucket_sec [OF r2(1)]] by blast
  then show ?thesis using r2(1) by (auto simp: tier_pass_eq)
next
  case False
  then show ?thesis using assms(5,6) by (auto simp: tier_pass_eq)
qed

lemma tier_pass_from:
  assumes "dividing ladder" and "(B, th) \<in> set ladder" and "list_all row_ok tbl" and "list_all row_ok hist"
    and "\<forall>r1 \<in> set tbl. \<exists>r \<in> set hist. stands_for ladder r1 r"
    and "r2 \<in> set (tier_pass now (B, th) tbl)"
  shows "\<exists>r \<in> set hist. stands_for ladder r2 r"
proof (cases "r2 \<in> set tbl")
  case False
  then have r2: "r2 \<in> set (tier_rows B (now - th) tbl)" using assms(6) by (auto simp: tier_pass_eq)
  have "0 < B" using dividing_dvd [OF assms(1,2,2)] by simp
  then obtain r1 where r1: "r1 \<in> set tbl" "tier_where B (now - th) r1" "unix r2 = bucket_of B r1"
    using tier_rows_source [OF r2 assms(3)] by blast
  obtain r where r: "r \<in> set hist" "stands_for ladder r1 r" using assms(5) r1(1) by blast
  have "row_ok r" "finer B r1" using assms(4) r(1) r1(2) by (auto simp: list_all_iff tier_where_def)
  then have "stands_for ladder r2 r"
    using stands_for_tier [OF assms(1,2) _ r(2) _ r1(3) tier_rows_bucket_sec [OF r2]] by blast
  then show ?thesis using r(1) by blast
qed (use assms(5) in blast)

lemma consolidate_ok: "list_all row_ok tbl \<Longrightarrow> list_all row_ok (consolidate now tbl)"
  unfolding consolidate_def
  by (rule fold_keeps) (auto intro!: tier_pass_ok dest: ladder_pos)

text \<open>A pass keeps a representative of every sample that had one, and its rows stand for samples if
  those before it did.\<close>

lemma consolidate_stand:
  assumes "list_all row_ok tbl" and "row_ok r" and "\<exists>r1 \<in> set tbl. stands_for TIER_TRANSITIONS r1 r"
  shows "\<exists>r2 \<in> set (consolidate now tbl). stands_for TIER_TRANSITIONS r2 r"
proof -
  define P where "P t = (list_all row_ok t \<and> (\<exists>r1 \<in> set t. stands_for TIER_TRANSITIONS r1 r))" for t
  have "P (tier_pass now x t)" if x: "x \<in> set TIER_TRANSITIONS" and t: "P t" for x t
  proof -
    obtain B th where B: "x = (B, th)" by (cases x)
    note m = x [unfolded B]
    show ?thesis
      using t tier_pass_ok [of t B now th] ladder_pos [OF m] tier_pass_stand [OF dividing_ladder m _ assms(2), of t _ now]
      unfolding P_def B by blast
  qed
  then have "P (consolidate now tbl)"
    unfolding consolidate_def by (rule fold_keeps) (simp_all add: P_def assms)
  then show ?thesis by (simp add: P_def)
qed

lemma consolidate_from:
  assumes "list_all row_ok tbl" and "list_all row_ok hist"
    and "\<forall>r1 \<in> set tbl. \<exists>r \<in> set hist. stands_for TIER_TRANSITIONS r1 r"
  shows "\<forall>r2 \<in> set (consolidate now tbl). \<exists>r \<in> set hist. stands_for TIER_TRANSITIONS r2 r"
proof -
  define P where "P t = (list_all row_ok t \<and> (\<forall>r1 \<in> set t. \<exists>r \<in> set hist. stands_for TIER_TRANSITIONS r1 r))" for t
  have "P (tier_pass now x t)" if x: "x \<in> set TIER_TRANSITIONS" and t: "P t" for x t
  proof -
    obtain B th where B: "x = (B, th)" by (cases x)
    note m = x [unfolded B]
    have ok: "list_all row_ok t" and from_hist: "\<forall>r1 \<in> set t. \<exists>r \<in> set hist. stands_for TIER_TRANSITIONS r1 r"
      using t by (simp_all add: P_def)
    show ?thesis
      using tier_pass_ok [OF ok, of B now th] ladder_pos [OF m]
        tier_pass_from [OF dividing_ladder m ok assms(2) from_hist, of _ now]
      unfolding P_def B by blast
  qed
  then have "P (consolidate now tbl)"
    unfolding consolidate_def by (rule fold_keeps) (simp_all add: P_def assms)
  then show ?thesis by (simp add: P_def)
qed

subsection \<open>A tier holds one row per bucket\<close>

text \<open>
  The rows of a tier start at multiples of its size, end before the limit, and differ.
\<close>

definition tier_clean :: "int \<Rightarrow> int \<Rightarrow> row list \<Rightarrow> bool" where
  "tier_clean bs limit tbl =
     (list_all (\<lambda>r. bucket_sec r = Some bs \<longrightarrow>
          (case unix r of None \<Rightarrow> False | Some t \<Rightarrow> bs dvd t \<and> t + bs \<le> limit)) tbl \<and>
      distinct (map timestamp (filter (\<lambda>r. bucket_sec r = Some bs) tbl)))"

lemma tier_clean_pass_other:
  assumes "tier_clean B limit tbl" and "B \<noteq> bs"
  shows "tier_clean B limit (tier_pass now (bs, th) tbl)"
proof -
  have "filter (\<lambda>r. bucket_sec r = Some B) (tier_rows bs (now - th) tbl) = []"
    using assms(2) by (auto simp: filter_empty_conv dest: tier_rows_bucket_sec)
  then show ?thesis
    using assms by (auto simp: tier_clean_def tier_pass_eq list_all_iff
        intro!: distinct_map_filter_conj dest!: tier_rows_bucket_sec)
qed

lemma timestamp_tier_row:
  assumes "row_ok r" and "bucket_of bs r = k" and "0 < bs"
  shows "\<exists>u. k = Some u \<and> time_ok u \<and> bs dvd u \<and> timestamp (tier_row bs (k, g)) = iso_of u"
proof -
  obtain t where t: "unix r = Some t" "time_ok t" using assms(1) by (rule row_okE)
  then have "k = Some (bucket_start bs t)" and "time_ok (bucket_start bs t)"
    using assms(2,3) by (auto simp: bucket_of_def time_ok_bucket)
  then show ?thesis by (auto simp: tier_row_def sql_iso_ok bucket_start_dvd)
qed

lemma distinct_tier_rows:
  assumes "list_all row_ok tbl" and "0 < bs"
  shows "distinct (map timestamp (tier_rows bs cutoff tbl))"
proof -
  define groups where "groups = group_by (bucket_of bs) (filter (tier_where bs cutoff) tbl)"
  have key: "\<exists>u. fst kg = Some u \<and> time_ok u \<and> timestamp (tier_row bs kg) = iso_of u"
    if kg: "kg \<in> set groups" for kg
  proof -
    have "fst kg \<in> bucket_of bs ` set (filter (tier_where bs cutoff) tbl)"
      using kg group_by_set [of "fst kg" "snd kg"] by (simp add: groups_def)
    then obtain r where "r \<in> set tbl" "bucket_of bs r = fst kg" by auto
    then show ?thesis
      using timestamp_tier_row [of r bs "fst kg" "snd kg"] assms by (auto simp: list_all_iff)
  qed
  have "inj_on (timestamp \<circ> tier_row bs) (set groups)"
  proof (rule inj_onI)
    fix x y assume xy: "x \<in> set groups" "y \<in> set groups"
      and "(timestamp \<circ> tier_row bs) x = (timestamp \<circ> tier_row bs) y"
    then have "fst x = fst y" using key [OF xy(1)] key [OF xy(2)] iso.fmt_inj by auto
    then show "x = y" using xy by (cases x; cases y) (simp add: groups_def group_by_set)
  qed
  moreover have "distinct groups"
    using distinct_group_by [of "bucket_of bs"] unfolding groups_def by (simp only: distinct_map)
  ultimately show ?thesis by (simp add: tier_rows_def distinct_map flip: groups_def)
qed

text \<open>A pass of a tier that was clean and settled at an earlier cutoff leaves it clean.\<close>

lemma tier_clean_pass_same:
  assumes ok: "list_all row_ok tbl" and "0 < bs" and clean: "tier_clean bs cut0 tbl"
    and settled: "\<And>r. r \<in> set tbl \<Longrightarrow> \<not> tier_where bs cut0 r" and le: "cut0 \<le> now - th"
  shows "tier_clean bs (now - th) (tier_pass now (bs, th) tbl)"
proof -
  define new where "new = tier_rows bs (now - th) tbl"
  have new: "\<exists>u. unix r' = Some u \<and> timestamp r' = iso_of u \<and> time_ok u \<and> bs dvd u \<and>
      cut0 < u + bs \<and> u + bs \<le> now - th" if r': "r' \<in> set new" for r'
  proof -
    obtain r where r: "r \<in> set tbl" "tier_where bs (now - th) r" "unix r' = bucket_of bs r" "row_ok r'"
      using tier_rows_source [OF r' [unfolded new_def] ok assms(2)] by blast
    moreover have "\<not> aged bs cut0 r" using settled [OF r(1)] r(2) by (simp add: tier_where_def)
    ultimately show ?thesis
      by (auto simp: tier_where_def aged_def bucket_of_def bucket_start_dvd elim: row_okE
          split: option.splits)
  qed
  have old: "\<exists>u. unix r = Some u \<and> timestamp r = iso_of u \<and> time_ok u \<and> bs dvd u \<and> u + bs \<le> cut0"
    if "r \<in> set tbl" "bucket_sec r = Some bs" for r
    using that clean ok
    by (auto simp: tier_clean_def list_all_iff row_ok_def split: option.splits)
  have "timestamp r \<noteq> timestamp r'" if "r \<in> set tbl" "bucket_sec r = Some bs" "r' \<in> set new" for r r'
    using old [OF that(1,2)] new [OF that(3)] iso.fmt_inj by fastforce
  moreover have "filter (\<lambda>r. bucket_sec r = Some bs) new = new"
    using tier_rows_bucket_sec by (auto simp: filter_id_conv new_def)
  moreover have "distinct (map timestamp new)"
    unfolding new_def by (rule distinct_tier_rows [OF ok assms(2)])
  moreover have "distinct (map timestamp
      (filter (\<lambda>r. \<not> tier_where bs (now - th) r \<and> bucket_sec r = Some bs) tbl))"
    using clean by (intro distinct_map_filter_conj) (simp add: tier_clean_def)
  ultimately have "distinct (map timestamp (filter (\<lambda>r. bucket_sec r = Some bs) (tier_pass now (bs, th) tbl)))"
    by (auto simp: tier_pass_eq simp flip: new_def)
  moreover have "case unix r of None \<Rightarrow> False | Some t \<Rightarrow> bs dvd t \<and> t + bs \<le> now - th"
    if "r \<in> set (tier_pass now (bs, th) tbl)" "bucket_sec r = Some bs" for r
    using that old [of r] new [of r] le by (auto simp: tier_pass_eq simp flip: new_def)
  ultimately show ?thesis by (simp add: tier_clean_def list_all_iff)
qed

text \<open>A coarser tier that was settled at an earlier cutoff stays settled there.\<close>

lemma tier_pass_keeps_settled:
  assumes ok: "list_all row_ok tbl" and "0 < bs" and "bs dvd B" and "bs < B"
    and settled: "\<And>r. r \<in> set tbl \<Longrightarrow> \<not> tier_where B cut0 r"
    and r': "r' \<in> set (tier_pass now (bs, th) tbl)"
  shows "\<not> tier_where B cut0 r'"
proof (cases "r' \<in> set tbl")
  case False
  then have new: "r' \<in> set (tier_rows bs (now - th) tbl)" using r' by (auto simp: tier_pass_eq)
  then obtain r where r: "r \<in> set tbl" "tier_where bs (now - th) r" "unix r' = bucket_of bs r"
    using tier_rows_source [OF _ ok assms(2)] by blast
  then have "bucket_of B r' = bucket_of B r"
    using bucket_of_coarser [of r r' bs B] ok assms(2-4) by (simp add: list_all_iff)
  moreover have "finer B r" using r(2) assms(4) by (auto simp: tier_where_def finer_def split: option.splits)
  ultimately show ?thesis using settled [OF r(1)] by (auto simp: tier_where_def aged_def)
qed (use settled in blast)

text \<open>The invariant of the table between two passes: clean and settled since the last one.\<close>

definition ladder_inv :: "int \<Rightarrow> (int \<times> int) list \<Rightarrow> int \<Rightarrow> row list \<Rightarrow> bool" where
  "ladder_inv interval ladder now tbl =
     (list_all row_ok tbl \<and>
      list_all (\<lambda>(bs, th). list_all (\<lambda>r. \<not> tier_where bs (now - th) r) tbl \<and>
        (interval < bs \<longrightarrow> tier_clean bs (now - th) tbl)) ladder)"

lemma ladder_inv_iff:
  "ladder_inv iv ladder now tbl \<longleftrightarrow> list_all row_ok tbl \<and>
     (\<forall>(bs, th) \<in> set ladder. (\<forall>r \<in> set tbl. \<not> tier_where bs (now - th) r) \<and>
        (iv < bs \<longrightarrow> tier_clean bs (now - th) tbl))"
  by (auto simp: ladder_inv_def list_all_iff)

lemma fold_tiers_clean:
  assumes "dividing ladder" and "sorted_wrt (<) (map fst ladder)"
    and "ladder_inv iv ladder now0 tbl" and "now0 \<le> now"
  shows "\<forall>(bs, th) \<in> set ladder. iv < bs \<longrightarrow>
     tier_clean bs (now - th) (fold (tier_pass now) ladder tbl)"
  using assms(1-3)
proof (induction ladder arbitrary: tbl)
  case Nil
  then show ?case by simp
next
  case (Cons x ladder)
  obtain bs th where x: "x = (bs, th)" by (cases x)
  have pos: "0 < bs" and later: "\<And>B t. (B, t) \<in> set ladder \<Longrightarrow> bs dvd B \<and> bs < B"
    using Cons.prems(1,2) by (force simp: x dividing_def)+
  have ok: "list_all row_ok tbl" using Cons.prems(3) by (simp add: ladder_inv_def)
  define mid where "mid = tier_pass now (bs, th) tbl"
  have "ladder_inv iv ladder now0 mid"
    unfolding ladder_inv_iff
  proof (intro conjI ballI, goal_cases)
    case 1
    then show ?case using ok pos by (simp add: mid_def tier_pass_ok)
  next
    case (2 y)
    obtain B t where y: "y = (B, t)" by (cases y)
    have "\<And>r. r \<in> set tbl \<Longrightarrow> \<not> tier_where B (now0 - t) r" and "iv < B \<Longrightarrow> tier_clean B (now0 - t) tbl"
      using Cons.prems(3) 2 y by (auto simp: ladder_inv_iff)
    then show ?case
      using 2 y later [of B t] tier_pass_keeps_settled [OF ok pos, of B "now0 - t" _ now th]
        tier_clean_pass_other [of B "now0 - t" tbl bs now th]
      by (auto simp: mid_def)
  qed
  then have rest: "\<forall>(bs, th) \<in> set ladder. iv < bs \<longrightarrow>
      tier_clean bs (now - th) (fold (tier_pass now) ladder mid)"
    using Cons by (simp add: dividing_def)
  have "tier_clean bs (now - th) (fold (tier_pass now) ladder mid)" if "iv < bs"
  proof (rule fold_keeps [where P = "tier_clean bs (now - th)"])
    show "tier_clean bs (now - th) mid"
      unfolding mid_def using Cons.prems(3) that assms(4)
      by (intro tier_clean_pass_same [OF ok pos, of "now0 - th"]) (auto simp: x ladder_inv_iff)
    fix y s
    assume "y \<in> set ladder" and "tier_clean bs (now - th) s"
    then show "tier_clean bs (now - th) (tier_pass now y s)"
      using later [of "fst y" "snd y"] tier_clean_pass_other [of bs "now - th" s "fst y" now "snd y"]
      by (cases y) auto
  qed
  then show ?case using rest by (simp add: x mid_def)
qed

lemma consolidate_inv:
  assumes "ladder_inv iv TIER_TRANSITIONS now0 tbl" and "now0 \<le> now"
  shows "ladder_inv iv TIER_TRANSITIONS now (consolidate now tbl)"
proof -
  have "list_all row_ok tbl" using assms(1) by (simp add: ladder_inv_def)
  then have "list_all row_ok (consolidate now tbl)"
    by (rule consolidate_ok)
  then show ?thesis
    using consolidate_settles [of now tbl] fold_tiers_clean [OF dividing_ladder ladder_sorted assms]
    by (auto simp: ladder_inv_iff settled_iff consolidate_def)
qed

text \<open>A new row, not older than the last pass, is in no aged bucket.\<close>

lemma ladder_inv_insert:
  assumes "ladder_inv iv TIER_TRANSITIONS now0 tbl" and "now0 \<le> t" and "time_ok t"
    and "timestamp r = iso_of t" and "bucket_sec r = Some iv"
  shows "ladder_inv iv TIER_TRANSITIONS now0 (tbl @ [r])"
proof -
  have u: "unix r = Some t" using assms(3,4) by (rule unix_iso)
  have "\<not> tier_where bs (now0 - th) r" if "(bs, th) \<in> set TIER_TRANSITIONS" for bs th
    using ladder_pos [OF that] bucket_start_bounds(3) [of t bs] assms(2,3) u
    by (auto simp: tier_where_def aged_def bucket_of_def time_ok_def)
  then show ?thesis
    using assms row_okI [of t r] by (auto simp: ladder_inv_iff tier_clean_def)
qed

lemma ladder_inv_filter:
  "ladder_inv iv ladder now0 tbl \<Longrightarrow> ladder_inv iv ladder now0 (filter P tbl)"
  by (auto simp: ladder_inv_iff tier_clean_def list_all_iff intro: distinct_map_filter_conj)

subsection \<open>Properties of the consolidation\<close>

text \<open>C21: A pass of the tiered consolidation settles the table: repeating it at the same instant
  changes nothing, whatever the table held. All tiers converge in the one pass, because they run
  from the finest to the coarsest in the same transaction.\<close>

theorem consolidate_idempotent: "consolidate now (consolidate now tbl) = consolidate now tbl"
  using consolidate_settled_same [OF consolidate_settles] .

text \<open>C22: Consolidation loses and invents nothing: on a table of canonical timestamps, each row is
  afterwards represented, by itself or by the row of a tier for the bucket it fell in, and each row
  there is represents one that was there; the timestamps stay canonical.\<close>

theorem consolidate_represents:
  assumes "list_all row_ok tbl"
  shows "list_all row_ok (consolidate now tbl) \<and>
    (\<forall>r \<in> set tbl. \<exists>r' \<in> set (consolidate now tbl). stands_for TIER_TRANSITIONS r' r) \<and>
    (\<forall>r' \<in> set (consolidate now tbl). \<exists>r \<in> set tbl. stands_for TIER_TRANSITIONS r' r)"
  using consolidate_ok [OF assms] consolidate_stand [OF assms] consolidate_from [OF assms assms] assms
  by (auto simp: list_all_iff) (blast intro: stands_for_refl)+

definition sample_row :: "int \<Rightarrow> int \<Rightarrow> rat \<Rightarrow> row" where
  "sample_row t interval x =
     \<lparr>timestamp = iso_of t, bucket_sec = Some interval, cell = (\<lambda>_. Some (Fin x))\<rparr>"

lemma sample_row_ok: "time_ok t \<Longrightarrow> row_ok (sample_row t interval x)"
  by (rule row_okI) (simp_all add: sample_row_def)

theorem consolidate_represents_witness:
  "list_all row_ok (consolidate 10000 [sample_row 1 1 4, sample_row 3 1 6])"
  using consolidate_represents [of "[sample_row 1 1 4, sample_row 3 1 6]" 10000]
  by (simp add: sample_row_ok time_ok_def)

text \<open>Rows that no tier takes stay as they are, in their order, ahead of everything else; all a
  pass adds are rows that carry the bucket size of a tier.\<close>

lemma consolidate_spares:
  "\<exists>new. consolidate now tbl = filter (untouched TIER_TRANSITIONS now) tbl @ new \<and>
     list_all (\<lambda>r. bucket_sec r \<in> Some ` fst ` set TIER_TRANSITIONS) new"
  using fold_tiers_prefix [of now TIER_TRANSITIONS tbl "[]"]
  by (auto simp: consolidate_def image_comp list_all_iff)

text \<open>The text of a pass always fits its 8192-byte buffer: for every clock value of a 64-bit
  \<open>long\<close> (in the range where the cutoffs do not overflow), \<open>build_consolidate_sql\<close> succeeds, and the
  text is one transaction around the five tiers in ladder order.\<close>

lemma build_consolidate_sql_fits:
  assumes "- (2 ^ 63) + 365 * 86400 \<le> now" and "now < 2 ^ 63"
  shows "build_consolidate_sql CONSOLIDATE_SQL_SIZE now =
    Some (''BEGIN IMMEDIATE;'' @ tier_sql 5 (now - 7200) @ tier_sql 30 (now - 43200) @
      tier_sql 300 (now - 432000) @ tier_sql 3600 (now - 5184000) @
      tier_sql 21600 (now - 31536000) @ ''COMMIT;'')"
proof -
  have len: "length (tier_sql bs (now - th)) \<le> 1500"
    if "0 < bs" "bs \<le> 21600" "0 < th" "th \<le> 31536000" for bs th
    using length_tier_sql [of "now - th" bs] assms that by simp
  show ?thesis
    unfolding build_consolidate_sql_def
    by (subst append_all_fits)
      (use len [of 5 7200] len [of 30 43200] len [of 300 432000] len [of 3600 5184000]
          len [of 21600 31536000] in \<open>simp_all add: TIER_TRANSITIONS_def CONSOLIDATE_SQL_SIZE_def\<close>)
qed

end
