(* ===== verification/Db.thy ===== *)
theory Db
  imports Ladder
begin

text \<open>
  \<open>src/db.c\<close> apart from the ladder: opening a database file, inserting a sample, pruning, the
  alert log and the queries. \<open>now\<close> stands for \<open>time (NULL)\<close>. What SQLite and the file system may
  answer is an argument: \<open>step i\<close> is the result of the \<open>i\<close>-th \<open>sqlite3_step\<close> on a statement, and
  \<open>open_results\<close> says which calls of \<open>db_open\<close> succeed. A statement takes effect when its step
  returns \<open>SQLITE_DONE\<close>.
\<close>

subsection \<open>Stepping a statement\<close>

datatype step_rc = ST_ROW | ST_DONE | ST_BUSY | ST_ERROR

definition RETRY_COUNT :: nat where "RETRY_COUNT = 3"

text \<open>\<open>rc\<close> is the variable of that name, not assigned yet before the first step.\<close>

fun retry_loop :: "(nat \<Rightarrow> step_rc) \<Rightarrow> nat \<Rightarrow> nat \<Rightarrow> step_rc \<Rightarrow> step_rc" where
  "retry_loop step i 0 rc = rc"
| "retry_loop step i (Suc tries) rc =
     (if step i \<noteq> ST_BUSY then step i else retry_loop step (i + 1) tries (step i))"

definition step_with_retry :: "(nat \<Rightarrow> step_rc) \<Rightarrow> step_rc" where
  "step_with_retry step = retry_loop step 0 RETRY_COUNT ST_BUSY"

lemma step_with_retry_eq:
  "step_with_retry step =
     (if step 0 \<noteq> ST_BUSY then step 0 else if step 1 \<noteq> ST_BUSY then step 1 else step 2)"
  by (auto simp: step_with_retry_def RETRY_COUNT_def numeral_3_eq_3 numeral_2_eq_2)

subsection \<open>Files and handles\<close>

definition MINIMONI_APPLICATION_ID :: int where "MINIMONI_APPLICATION_ID = 0x6D6F6E69"
definition MINIMONI_SCHEMA_VERSION :: int where "MINIMONI_SCHEMA_VERSION = 2"

text \<open>A database file: the two header values, whether its journal is a WAL (this too is kept in the
  header), and the tables, if the schema was created.\<close>

record dbfile =
  application_id :: int
  user_version :: int
  journal_wal :: bool
  tables :: "database option"

datatype path_state = Missing | Directory | File dbfile

definition empty_file :: dbfile where
  "empty_file = \<lparr>application_id = 0, user_version = 0, journal_wal = False, tables = None\<rparr>"

definition empty_db :: database where
  "empty_db = \<lparr>metrics_tbl = [], alert_log = []\<rparr>"

text \<open>\<open>db_t\<close>: \<open>memset\<close> to zero, or an open handle; \<open>statements\<close> are the five prepared ones.\<close>

record db_t =
  handle :: bool
  interval_sec :: int
  statements :: bool
  sql_consolidate :: bool

definition db_zero :: db_t where
  "db_zero = \<lparr>handle = False, interval_sec = 0, statements = False, sql_consolidate = False\<rparr>"

record open_results =
  create_ok :: bool
  open_ok :: bool
  wal_ok :: bool
  read_app_ok :: bool
  read_version_ok :: bool
  schema_ok :: bool
  stamp_app_ok :: bool
  stamp_version_ok :: bool
  prepare_ok :: bool
  malloc_ok :: bool

definition all_ok :: open_results where
  "all_ok = \<lparr>create_ok = True, open_ok = True, wal_ok = True, read_app_ok = True, read_version_ok = True,
     schema_ok = True, stamp_app_ok = True, stamp_version_ok = True, prepare_ok = True,
     malloc_ok = True\<rparr>"

definition db_close :: "db_t \<Rightarrow> db_t" where
  "db_close d = (if \<not> handle d then d else db_zero)"

text \<open>The empty file, made before SQLite opens it; a file already there is left alone.\<close>

definition create_private :: "open_results \<Rightarrow> path_state \<Rightarrow> int \<times> path_state" where
  "create_private res p =
     (if \<not> create_ok res then (- 1, p)
      else (0, case p of Missing \<Rightarrow> File empty_file | _ \<Rightarrow> p))"

text \<open>\<open>SQL_CREATE\<close> and the two stamps, whose results the code does not look at.\<close>

definition stamp :: "open_results \<Rightarrow> dbfile \<Rightarrow> dbfile" where
  "stamp res f =
     f\<lparr>application_id := (if stamp_app_ok res then MINIMONI_APPLICATION_ID else application_id f),
       user_version := (if stamp_version_ok res then MINIMONI_SCHEMA_VERSION else user_version f)\<rparr>"

definition create_schema :: "dbfile \<Rightarrow> dbfile" where
  "create_schema f = f\<lparr>tables := (case tables f of None \<Rightarrow> Some empty_db | Some t \<Rightarrow> Some t)\<rparr>"

text \<open>The statements name the two tables, so preparing them fails on a file without the schema.\<close>

definition prepare_statements :: "open_results \<Rightarrow> dbfile \<Rightarrow> int \<Rightarrow> int \<times> db_t" where
  "prepare_statements res f interval =
     (if \<not> prepare_ok res \<or> tables f = None then (- 1, db_zero)
      else if \<not> malloc_ok res then (- 1, db_zero)
      else (0, \<lparr>handle = True, interval_sec = interval, statements = True, sql_consolidate = True\<rparr>))"

definition db_zero_for :: "int \<Rightarrow> db_t" where
  "db_zero_for interval = db_zero\<lparr>interval_sec := interval\<rparr>"

text \<open>One PRAGMA value; it is read when the statement is prepared and steps to a row.\<close>

definition read_pragma_long :: "bool \<Rightarrow> int \<Rightarrow> int option" where
  "read_pragma_long ok n = (if ok then Some n else None)"

definition check_existing :: "open_results \<Rightarrow> dbfile \<Rightarrow> bool" where
  "check_existing res f =
     (case (read_pragma_long (read_app_ok res) (application_id f), read_pragma_long (read_version_ok res) (user_version f)) of
        (Some app, Some version) \<Rightarrow> app = MINIMONI_APPLICATION_ID \<and> version = MINIMONI_SCHEMA_VERSION
      | _ \<Rightarrow> False)"

lemma check_existing_iff:
  "check_existing res f \<longleftrightarrow> read_app_ok res \<and> read_version_ok res \<and>
     application_id f = MINIMONI_APPLICATION_ID \<and> user_version f = MINIMONI_SCHEMA_VERSION"
  by (simp add: check_existing_def read_pragma_long_def)

text \<open>\<open>PRAGMA journal_mode=WAL\<close>, which runs on every file that opens; a failure is only reported.\<close>

definition set_wal :: "open_results \<Rightarrow> dbfile \<Rightarrow> dbfile" where
  "set_wal res f = (if wal_ok res then f\<lparr>journal_wal := True\<rparr> else f)"

definition open_existing :: "open_results \<Rightarrow> dbfile \<Rightarrow> int \<Rightarrow> int \<times> db_t \<times> path_state" where
  "open_existing res f interval =
     (if \<not> open_ok res then (- 1, db_zero_for interval, File f)
      else if \<not> check_existing res f then (- 1, db_zero_for interval, File (set_wal res f))
      else (case prepare_statements res f interval of (rc, d) \<Rightarrow> (rc, d, File (set_wal res f))))"

definition open_new :: "open_results \<Rightarrow> dbfile \<Rightarrow> int \<Rightarrow> int \<times> db_t \<times> path_state" where
  "open_new res f interval =
     (if \<not> open_ok res then (- 1, db_zero_for interval, File f)
      else if \<not> schema_ok res then (- 1, db_zero_for interval, File (set_wal res f))
      else let f' = stamp res (create_schema (set_wal res f))
           in case prepare_statements res f' interval of (rc, d) \<Rightarrow> (rc, d, File f'))"

definition db_open :: "open_results \<Rightarrow> path_state \<Rightarrow> int \<Rightarrow> int \<times> db_t \<times> path_state" where
  "db_open res p interval =
     (case p of
        Directory \<Rightarrow> (- 1, db_zero_for interval, p)
      | File f \<Rightarrow> open_existing res f interval
      | Missing \<Rightarrow>
          (case create_private res p of
             (rc, p') \<Rightarrow>
               if rc \<noteq> 0 then (- 1, db_zero_for interval, p')
               else (case p' of File f \<Rightarrow> open_new res f interval
                              | _ \<Rightarrow> (- 1, db_zero_for interval, p'))))"

text \<open>Read-only, for the HTTP server: nothing is checked, prepared or created.\<close>

definition db_open_readonly :: "bool \<Rightarrow> path_state \<Rightarrow> int \<times> db_t" where
  "db_open_readonly ok p =
     (case p of File f \<Rightarrow> if ok then (0, db_zero\<lparr>handle := True\<rparr>) else (- 1, db_zero)
      | _ \<Rightarrow> (- 1, db_zero))"

subsection \<open>Inserting a sample\<close>

definition bind_when :: "bool \<Rightarrow> double \<Rightarrow> double option" where
  "bind_when valid x = (if valid then bind_double x else None)"

fun metric_cell :: "metrics_t \<Rightarrow> col \<Rightarrow> double option" where
  "metric_cell m Load_1m = bind_double (load_1m m)"
| "metric_cell m Load_5m = bind_double (load_5m m)"
| "metric_cell m Load_15m = bind_double (load_15m m)"
| "metric_cell m Cpu_user_percent = bind_when (cpu_valid m) (cpu_user_percent m)"
| "metric_cell m Cpu_system_percent = bind_when (cpu_valid m) (cpu_system_percent m)"
| "metric_cell m Cpu_idle_percent = bind_when (cpu_valid m) (cpu_idle_percent m)"
| "metric_cell m Mem_total_mb = bind_double (mem_total_mb m)"
| "metric_cell m Mem_available_mb = bind_double (mem_available_mb m)"
| "metric_cell m Disk_total_gb = bind_double (disk_total_gb m)"
| "metric_cell m Disk_available_gb = bind_double (disk_available_gb m)"
| "metric_cell m Temp_celsius = bind_when (temp_valid m) (temp_celsius m)"
| "metric_cell m Net_rx_bps = bind_when (net_valid m) (net_rx_bps m)"
| "metric_cell m Net_tx_bps = bind_when (net_valid m) (net_tx_bps m)"
| "metric_cell m Uptime_seconds = bind_double (uptime_seconds m)"
| "metric_cell m Swap_total_mb = bind_when (swap_valid m) (swap_total_mb m)"
| "metric_cell m Swap_free_mb = bind_when (swap_valid m) (swap_free_mb m)"
| "metric_cell m Swap_in_bps = bind_when (swap_io_valid m) (swap_in_bps m)"
| "metric_cell m Swap_out_bps = bind_when (swap_io_valid m) (swap_out_bps m)"

definition metric_row :: "int \<Rightarrow> int \<Rightarrow> metrics_t \<Rightarrow> row" where
  "metric_row now interval m =
     \<lparr>timestamp = iso_of now, bucket_sec = Some interval, cell = metric_cell m\<rparr>"

definition db_insert :: "(nat \<Rightarrow> step_rc) \<Rightarrow> int \<Rightarrow> db_t \<Rightarrow> metrics_t \<Rightarrow> database \<Rightarrow> int \<times> database" where
  "db_insert step now d m db =
     (if step_with_retry step \<noteq> ST_DONE then (- 1, db)
      else (0, db\<lparr>metrics_tbl := metrics_tbl db @ [metric_row now (interval_sec d) m]\<rparr>))"

subsection \<open>Pruning\<close>

definition iso_cutoff :: "int \<Rightarrow> int \<Rightarrow> string" where
  "iso_cutoff now seconds_ago = iso_of (now - seconds_ago)"

definition prune_metrics :: "string \<Rightarrow> database \<Rightarrow> database" where
  "prune_metrics cutoff db =
     db\<lparr>metrics_tbl := filter (\<lambda>r. \<not> timestamp r < cutoff) (metrics_tbl db)\<rparr>"

definition prune_alerts :: "string \<Rightarrow> database \<Rightarrow> database" where
  "prune_alerts cutoff db = db\<lparr>alert_log := filter (\<lambda>(n, f). \<not> f < cutoff) (alert_log db)\<rparr>"

definition db_prune ::
    "(nat \<Rightarrow> step_rc) \<Rightarrow> (nat \<Rightarrow> step_rc) \<Rightarrow> int \<Rightarrow> int \<Rightarrow> database \<Rightarrow> int \<times> database" where
  "db_prune step1 step2 now retention_days db =
     (if step_with_retry step1 \<noteq> ST_DONE then (- 1, db)
      else let db1 = prune_metrics (iso_cutoff now (retention_days * 86400)) db
           in if step_with_retry step2 \<noteq> ST_DONE then (- 1, db1)
              else (0, prune_alerts (iso_cutoff now (retention_days * 86400)) db1))"

subsection \<open>The alert log\<close>

text \<open>\<open>SELECT COUNT(*)\<close>; \<open>sqlite3_column_int\<close> keeps the low 32 bits of the count.\<close>

definition alert_check :: "string \<Rightarrow> string \<Rightarrow> database \<Rightarrow> int" where
  "alert_check name cutoff db =
     to_signed 32 (int (length (filter (\<lambda>(n, f). n = name \<and> f > cutoff) (alert_log db))))"

definition db_alert_on_cooldown ::
    "(nat \<Rightarrow> step_rc) \<Rightarrow> int \<Rightarrow> string \<Rightarrow> int \<Rightarrow> database \<Rightarrow> int" where
  "db_alert_on_cooldown step now name cooldown db =
     (if step_with_retry step \<noteq> ST_ROW then - 1
      else if alert_check name (iso_of (now - cooldown)) db > 0 then 1 else 0)"

definition db_alert_log_fire ::
    "(nat \<Rightarrow> step_rc) \<Rightarrow> int \<Rightarrow> string \<Rightarrow> database \<Rightarrow> int \<times> database" where
  "db_alert_log_fire step now name db =
     (if step_with_retry step \<noteq> ST_DONE then (- 1, db)
      else (0, db\<lparr>alert_log := alert_log db @ [(name, iso_of now)]\<rparr>))"

subsection \<open>Consolidation\<close>

text \<open>One transaction: with \<open>exec_ok\<close> every statement and the COMMIT went through, else ROLLBACK.\<close>

definition db_consolidate :: "bool \<Rightarrow> int \<Rightarrow> db_t \<Rightarrow> database \<Rightarrow> int \<times> database" where
  "db_consolidate exec_ok now d db =
     (if \<not> sql_consolidate d then (- 1, db)
      else if build_consolidate_sql CONSOLIDATE_SQL_SIZE now = None then (- 1, db)
      else if \<not> exec_ok then (- 1, db)
      else (0, db\<lparr>metrics_tbl := consolidate now (metrics_tbl db)\<rparr>))"

text \<open>A log entry as \<open>db_alert_log_fire\<close> writes it.\<close>

definition log_ok :: "string \<times> string \<Rightarrow> bool" where
  "log_ok e = (case unix_of (snd e) of None \<Rightarrow> False | Some t \<Rightarrow> time_ok t \<and> snd e = iso_of t)"

lemma log_okI: "time_ok t \<Longrightarrow> log_ok (n, iso_of t)"
  by (simp add: log_ok_def iso.parse_fmt)

lemma log_okE:
  assumes "log_ok (n, f)"
  obtains t where "time_ok t" "f = iso_of t"
  using assms by (auto simp: log_ok_def split: option.splits)

subsection \<open>The life of a database\<close>

text \<open>
  What the daemon does to its database between two openings, in any order and however often: the
  clock advances, a sample is inserted, the tiers are consolidated, old rows are pruned and alerts
  are logged. Every operation may succeed or fail.
\<close>

inductive db_run :: "db_t \<Rightarrow> int \<Rightarrow> database \<Rightarrow> int \<Rightarrow> database \<Rightarrow> bool" for d t0 db0 where
  run_start: "time_ok t0 \<Longrightarrow> db_run d t0 db0 t0 db0"
| run_tick: "db_run d t0 db0 t db \<Longrightarrow> t \<le> t' \<Longrightarrow> time_ok t' \<Longrightarrow> db_run d t0 db0 t' db"
| run_insert: "db_run d t0 db0 t db \<Longrightarrow> db_run d t0 db0 t (snd (db_insert step t d m db))"
| run_consolidate: "db_run d t0 db0 t db \<Longrightarrow> db_run d t0 db0 t (snd (db_consolidate ok t d db))"
| run_prune: "db_run d t0 db0 t db \<Longrightarrow> db_run d t0 db0 t (snd (db_prune step1 step2 t days db))"
| run_fire: "db_run d t0 db0 t db \<Longrightarrow> db_run d t0 db0 t (snd (db_alert_log_fire step t name db))"

lemmas db_run_intros = run_start run_tick run_insert run_consolidate run_prune run_fire

lemma db_insert_metrics [db_simps]:
  "metrics_tbl (snd (db_insert step now d m db)) =
     metrics_tbl db @ (if step_with_retry step = ST_DONE then [metric_row now (interval_sec d) m] else [])"
  by (simp add: db_insert_def)

lemma db_consolidate_metrics [db_simps]:
  "metrics_tbl (snd (db_consolidate ok now d db)) =
     (if fst (db_consolidate ok now d db) = 0 then consolidate now (metrics_tbl db) else metrics_tbl db)"
  by (simp add: db_consolidate_def)

lemma db_prune_metrics [db_simps]:
  "\<exists>P. metrics_tbl (snd (db_prune step1 step2 now days db)) = filter P (metrics_tbl db)"
proof -
  have "metrics_tbl db = filter (\<lambda>_. True) (metrics_tbl db)" by simp
  then show ?thesis
    by (auto simp: db_prune_def prune_metrics_def prune_alerts_def Let_def intro: exI [of _ "\<lambda>_. True"])
qed

lemma db_fire_metrics [db_simps]:
  "metrics_tbl (snd (db_alert_log_fire step now name db)) = metrics_tbl db"
  by (simp add: db_alert_log_fire_def)

definition db_inv :: "int \<Rightarrow> int \<Rightarrow> database \<Rightarrow> bool" where
  "db_inv interval since db = ladder_inv interval TIER_TRANSITIONS since (metrics_tbl db)"

lemma db_run_inv:
  assumes "db_run d t0 db0 t db" and "db_inv (interval_sec d) t0 db0"
  shows "time_ok t \<and> t0 \<le> t \<and> (\<exists>since. t0 \<le> since \<and> since \<le> t \<and> db_inv (interval_sec d) since db)"
  using assms
proof (induction rule: db_run.induct)
  case run_start
  then show ?case by auto
next
  case (run_tick t db t')
  then show ?case by (meson order_trans)
next
  case (run_insert t db step m)
  then obtain since where since: "time_ok t" "t0 \<le> t" "t0 \<le> since" "since \<le> t"
    and inv: "ladder_inv (interval_sec d) TIER_TRANSITIONS since (metrics_tbl db)"
    by (auto simp: db_inv_def)
  have "ladder_inv (interval_sec d) TIER_TRANSITIONS since
      (metrics_tbl db @ [metric_row t (interval_sec d) m])"
    by (rule ladder_inv_insert [OF inv since(4,1)]) (simp_all add: metric_row_def)
  then show ?case using inv since by (auto simp: db_inv_def db_simps)
next
  case (run_consolidate t db ok)
  then obtain since where since: "time_ok t" "t0 \<le> t" "t0 \<le> since" "since \<le> t"
    and inv: "ladder_inv (interval_sec d) TIER_TRANSITIONS since (metrics_tbl db)"
    by (auto simp: db_inv_def)
  define since' where "since' = (if fst (db_consolidate ok t d db) = 0 then t else since)"
  have "db_inv (interval_sec d) since' (snd (db_consolidate ok t d db))"
    using consolidate_inv [OF inv since(4)] inv by (simp add: db_inv_def db_simps since'_def)
  moreover have "t0 \<le> since' \<and> since' \<le> t" using since by (auto simp: since'_def)
  ultimately show ?case using since by blast
next
  case (run_prune t db step1 step2 days)
  obtain P where "metrics_tbl (snd (db_prune step1 step2 t days db)) = filter P (metrics_tbl db)"
    using db_prune_metrics by blast
  then show ?case using run_prune by (auto simp: db_inv_def intro: ladder_inv_filter)
next
  case (run_fire t db step name)
  then show ?case by (simp add: db_inv_def db_simps)
qed

lemma db_inv_empty [simp]: "db_inv interval since empty_db"
  by (simp add: db_inv_def empty_db_def ladder_inv_def tier_clean_def list_all_iff)

lemma db_run_metrics_ok:
  "db_run d t0 db0 t db \<Longrightarrow> db_inv (interval_sec d) t0 db0 \<Longrightarrow> list_all row_ok (metrics_tbl db)"
  using db_run_inv [of d t0 db0 t db] by (auto simp: db_inv_def ladder_inv_def)

subsection \<open>Properties\<close>

text \<open>A tier never holds two rows for one bucket. Starting from an empty database, whatever
  sequence of inserts, consolidations, prunings and log entries runs while the clock does not go
  back, and whichever of them fail, the rows of a tier coarser than the collect interval start at
  multiples of its size and have different timestamps. This is what the test on the end of the
  bucket, and not on the row, is for.\<close>

lemma no_duplicate_buckets:
  assumes "db_run d t0 empty_db t db" and "(bs, th) \<in> set TIER_TRANSITIONS" and "interval_sec d < bs"
  shows "distinct (map timestamp (filter (\<lambda>r. bucket_sec r = Some bs) (metrics_tbl db))) \<and>
    (\<forall>r \<in> set (metrics_tbl db). bucket_sec r = Some bs \<longrightarrow> (\<exists>u. unix r = Some u \<and> bs dvd u))"
proof -
  obtain since where "tier_clean bs (since - th) (metrics_tbl db)"
    using db_run_inv [OF assms(1) db_inv_empty] assms(2,3) by (auto simp: db_inv_def ladder_inv_iff)
  then show ?thesis by (auto simp: tier_clean_def list_all_iff split: option.splits)
qed

definition open_handle :: "int \<Rightarrow> db_t" where
  "open_handle interval =
     \<lparr>handle = True, interval_sec = interval, statements = True, sql_consolidate = True\<rparr>"

text \<open>C36: A freshly created database is accepted when it is opened again: if the daemon's first
  \<open>db_open\<close> of a missing file succeeds with both stamps written, the file then holds the empty
  schema at this version, and a later \<open>db_open\<close> of it succeeds and leaves its tables alone.\<close>

theorem db_open_reopen:
  assumes "db_open res Missing interval = (0, d, p)" and "stamp_app_ok res" and "stamp_version_ok res"
  shows "\<exists>f. p = File f \<and> tables f = Some empty_db \<and> d = open_handle interval \<and>
    (\<forall>interval'. \<exists>f'. db_open all_ok p interval' = (0, open_handle interval', File f') \<and>
       tables f' = tables f)"
proof -
  have "create_ok res" and "open_ok res" and "schema_ok res" and "prepare_ok res" and "malloc_ok res"
    using assms(1)
    by (auto simp: db_open_def create_private_def open_new_def prepare_statements_def Let_def
        split: if_splits)
  with assms show ?thesis
    by (auto simp: db_open_def create_private_def open_new_def open_existing_def stamp_def Let_def
        create_schema_def set_wal_def prepare_statements_def check_existing_iff all_ok_def
        empty_file_def open_handle_def split: if_splits)
qed

theorem db_open_reopen_witness:
  "\<exists>d f. db_open all_ok Missing 30 = (0, d, File f) \<and> tables f = Some empty_db"
proof -
  have "db_open all_ok Missing 30 = (0, open_handle 30, snd (snd (db_open all_ok Missing 30)))"
    by (simp add: db_open_def create_private_def open_new_def prepare_statements_def all_ok_def
        create_schema_def stamp_def set_wal_def empty_file_def open_handle_def Let_def)
  from db_open_reopen [OF this] this show ?thesis by (auto simp: all_ok_def)
qed

text \<open>C35: A file of another application or of another schema version is refused, and its tables and
  header values are as they were; the one thing \<open>db_open\<close> may change in it is the journal mode,
  which is set before the checks.\<close>

theorem db_open_refuses_foreign:
  assumes "application_id f \<noteq> MINIMONI_APPLICATION_ID \<or> user_version f \<noteq> MINIMONI_SCHEMA_VERSION"
  shows "\<exists>d f'. db_open res (File f) interval = (- 1, d, File f') \<and> \<not> handle d \<and>
    tables f' = tables f \<and> application_id f' = application_id f \<and> user_version f' = user_version f \<and>
    journal_wal f' = (journal_wal f \<or> open_ok res \<and> wal_ok res)"
  using assms
  by (auto simp: db_open_def open_existing_def check_existing_iff set_wal_def db_zero_for_def db_zero_def)

theorem db_open_refuses_foreign_witness:
  "fst (db_open all_ok (File \<lparr>application_id = 0, user_version = 7, journal_wal = False,
     tables = None\<rparr>) 30) = - 1"
  using db_open_refuses_foreign [of "\<lparr>application_id = 0, user_version = 7, journal_wal = False,
     tables = None\<rparr>" all_ok 30]
  by (auto simp: MINIMONI_APPLICATION_ID_def)

text \<open>C33: Pruning keeps exactly the last \<open>retention_days\<close> days: when both statements go through, the
  samples and the alert log keep, in order, the entries at or after the cutoff instant. The
  comparison of timestamp texts is the comparison of instants.\<close>

theorem db_prune_retention:
  assumes "list_all row_ok (metrics_tbl db)" and "time_ok (now - days * 86400)"
    and "list_all log_ok (alert_log db)"
    and "step_with_retry step1 = ST_DONE" and "step_with_retry step2 = ST_DONE"
  shows "db_prune step1 step2 now days db = (0, db\<lparr>
    metrics_tbl := filter (\<lambda>r. now - days * 86400 \<le> the (unix r)) (metrics_tbl db),
    alert_log := filter (\<lambda>(n, f). now - days * 86400 \<le> the (unix_of f)) (alert_log db)\<rparr>)"
proof -
  have "filter (\<lambda>r. \<not> timestamp r < iso_of (now - days * 86400)) (metrics_tbl db) =
      filter (\<lambda>r. now - days * 86400 \<le> the (unix r)) (metrics_tbl db)"
  proof (rule filter_cong [OF refl])
    fix r assume "r \<in> set (metrics_tbl db)"
    then have "row_ok r" using assms(1) by (simp add: list_all_iff)
    then show "(\<not> timestamp r < iso_of (now - days * 86400)) = (now - days * 86400 \<le> the (unix r))"
      by (rule row_okE) (use assms(2) in \<open>auto simp: iso.fmt_less\<close>)
  qed
  moreover have "filter (\<lambda>(n, f). \<not> f < iso_of (now - days * 86400)) (alert_log db) =
      filter (\<lambda>(n, f). now - days * 86400 \<le> the (unix_of f)) (alert_log db)"
    using assms(2,3)
    by (intro filter_cong refl) (auto simp: list_all_iff iso.fmt_less iso.parse_fmt elim!: log_okE)
  ultimately show ?thesis
    by (simp add: db_prune_def assms(4,5) prune_metrics_def prune_alerts_def iso_cutoff_def Let_def)
qed

theorem db_prune_retention_witness:
  "db_prune (\<lambda>_. ST_DONE) (\<lambda>_. ST_DONE) 200000 1
     \<lparr>metrics_tbl = [sample_row 100000 30 4, sample_row 150000 30 5], alert_log = [(''a'', iso_of 7)]\<rparr> =
   (0, \<lparr>metrics_tbl = [sample_row 150000 30 5], alert_log = []\<rparr>)"
proof -
  define db where "db = \<lparr>metrics_tbl = [sample_row 100000 30 4, sample_row 150000 30 5],
    alert_log = [(''a'', iso_of 7)]\<rparr>"
  have u: "unix (sample_row t 30 x) = Some t" if "time_ok t" for t x
    using that by (rule unix_iso) (simp add: sample_row_def)
  have "db_prune (\<lambda>_. ST_DONE) (\<lambda>_. ST_DONE) 200000 1 db = (0, db\<lparr>
    metrics_tbl := filter (\<lambda>r. 200000 - 1 * 86400 \<le> the (unix r)) (metrics_tbl db),
    alert_log := filter (\<lambda>(n, f). 200000 - 1 * 86400 \<le> the (unix_of f)) (alert_log db)\<rparr>)"
    by (rule db_prune_retention) (simp_all add: db_def sample_row_ok log_okI time_ok_def step_with_retry_eq)
  then show ?thesis by (simp add: db_def u iso.parse_fmt time_ok_def)
qed

end
