(* ===== verification/Query.thy ===== *)
theory Query
  imports Db
begin

text \<open>
  The queries of \<open>src/db.c\<close>: the SELECT lists, \<open>read_row\<close> with the values worked out as a row is
  read, \<open>db_current\<close>, \<open>db_count_range\<close> and \<open>db_query_range\<close>.
\<close>

subsection \<open>Reading a row\<close>

text \<open>A row of a SELECT: the text, the instant and the columns from the third on.\<close>

type_synonym selected = "string option \<times> int option \<times> (col \<Rightarrow> double option)"

record db_row_t =
  r_timestamp :: string
  r_unix_time :: int
  r_load_1m :: double
  r_load_5m :: double
  r_load_15m :: double
  r_cpu_valid :: bool
  r_cpu_user_percent :: double
  r_cpu_system_percent :: double
  r_cpu_idle_percent :: double
  r_mem_total_mb :: double
  r_mem_available_mb :: double
  r_mem_used_mb :: double
  r_mem_used_percent :: double
  r_mem_available_percent :: double
  r_disk_total_gb :: double
  r_disk_available_gb :: double
  r_disk_used_gb :: double
  r_disk_used_percent :: double
  r_disk_available_percent :: double
  r_temp_valid :: bool
  r_temp_celsius :: double
  r_net_valid :: bool
  r_net_rx_bps :: double
  r_net_tx_bps :: double
  r_uptime_seconds :: double
  r_swap_valid :: bool
  r_swap_total_mb :: double
  r_swap_free_mb :: double
  r_swap_used_mb :: double
  r_swap_used_percent :: double
  r_swap_free_percent :: double
  r_swap_io_valid :: bool
  r_swap_in_bps :: double
  r_swap_out_bps :: double
  r_swap_in_ram :: double
  r_swap_out_ram :: double

text \<open>\<open>sqlite3_column_double\<close> gives 0 for a NULL.\<close>

definition col_double :: "double option \<Rightarrow> double" where
  "col_double v = (case v of None \<Rightarrow> Fin 0 | Some x \<Rightarrow> x)"

definition used_of :: "double \<Rightarrow> double \<Rightarrow> double" where
  "used_of tot available = (if tot - available > Fin 0 then tot - available else Fin 0)"

definition percent_of :: "double \<Rightarrow> double \<Rightarrow> double" where
  "percent_of used tot = (if tot > Fin 0 then used * Fin 100 div tot else Fin 0)"

text \<open>A group of fields is left at the zero of the \<open>memset\<close> when its validity column is NULL.\<close>

definition gated :: "bool \<Rightarrow> double \<Rightarrow> double" where
  "gated valid x = (if valid then x else Fin 0)"

text \<open>Swap traffic in percent of the memory per minute; 0 when the total is not positive.\<close>

definition ram_share :: "double \<Rightarrow> double \<Rightarrow> double" where
  "ram_share bps mem_total =
     (if mem_total * Fin 1024 * Fin 1024 > Fin 0
      then bps * Fin 60 * Fin 100 div (mem_total * Fin 1024 * Fin 1024) else Fin 0)"

definition read_row :: "selected \<Rightarrow> db_row_t" where
  "read_row s = (case s of (ts, u, cells) \<Rightarrow>
     (let d = (\<lambda>c. col_double (cells c)); valid = (\<lambda>c. cells c \<noteq> None);
          mem_used = used_of (d Mem_total_mb) (d Mem_available_mb);
          mem_percent = percent_of mem_used (d Mem_total_mb);
          disk_used = used_of (d Disk_total_gb) (d Disk_available_gb);
          disk_percent = percent_of disk_used (d Disk_total_gb);
          sv = valid Swap_total_mb;
          swap_used = used_of (d Swap_total_mb) (d Swap_free_mb);
          swap_percent = percent_of swap_used (d Swap_total_mb);
          io = valid Swap_in_bps
      in \<lparr>r_timestamp = (case ts of None \<Rightarrow> [] | Some t \<Rightarrow> take 23 t),
          r_unix_time = (case u of None \<Rightarrow> 0 | Some t \<Rightarrow> t),
          r_load_1m = d Load_1m, r_load_5m = d Load_5m, r_load_15m = d Load_15m,
          r_cpu_valid = valid Cpu_user_percent,
          r_cpu_user_percent = gated (valid Cpu_user_percent) (d Cpu_user_percent),
          r_cpu_system_percent = gated (valid Cpu_user_percent) (d Cpu_system_percent),
          r_cpu_idle_percent = gated (valid Cpu_user_percent) (d Cpu_idle_percent),
          r_mem_total_mb = d Mem_total_mb, r_mem_available_mb = d Mem_available_mb,
          r_mem_used_mb = mem_used, r_mem_used_percent = mem_percent,
          r_mem_available_percent = Fin 100 - mem_percent,
          r_disk_total_gb = d Disk_total_gb, r_disk_available_gb = d Disk_available_gb,
          r_disk_used_gb = disk_used, r_disk_used_percent = disk_percent,
          r_disk_available_percent = Fin 100 - disk_percent,
          r_temp_valid = valid Temp_celsius,
          r_temp_celsius = gated (valid Temp_celsius) (d Temp_celsius),
          r_net_valid = valid Net_rx_bps,
          r_net_rx_bps = gated (valid Net_rx_bps) (d Net_rx_bps),
          r_net_tx_bps = gated (valid Net_rx_bps) (d Net_tx_bps),
          r_uptime_seconds = d Uptime_seconds,
          r_swap_valid = sv,
          r_swap_total_mb = gated sv (d Swap_total_mb),
          r_swap_free_mb = gated sv (d Swap_free_mb),
          r_swap_used_mb = gated sv swap_used,
          r_swap_used_percent = gated sv swap_percent,
          r_swap_free_percent = gated sv (Fin 100 - swap_percent),
          r_swap_io_valid = io,
          r_swap_in_bps = gated io (d Swap_in_bps),
          r_swap_out_bps = gated io (d Swap_out_bps),
          r_swap_in_ram = gated io (ram_share (d Swap_in_bps) (d Mem_total_mb)),
          r_swap_out_ram = gated io (ram_share (d Swap_out_bps) (d Mem_total_mb))\<rparr>))"

text \<open>The SELECT list of \<open>db_current\<close> and \<open>SQL_RAW\<close>.\<close>

definition select_raw :: "row \<Rightarrow> selected" where
  "select_raw r = (Some (timestamp r), unix r, cell r)"

subsection \<open>The queries\<close>

text \<open>\<open>ORDER BY timestamp DESC LIMIT 1\<close>, by the index: the last inserted of equal timestamps.\<close>

fun newest :: "row list \<Rightarrow> row option" where
  "newest [] = None"
| "newest (r # rs) =
     (case newest rs of None \<Rightarrow> Some r
      | Some r' \<Rightarrow> if timestamp r > timestamp r' then Some r else Some r')"

text \<open>\<open>stepped\<close>: the one step did not fail.\<close>

definition db_current :: "bool \<Rightarrow> bool \<Rightarrow> database \<Rightarrow> int \<times> db_row_t option" where
  "db_current prepared stepped db =
     (if \<not> prepared then (- 1, None)
      else if \<not> stepped then (1, None)
      else case newest (metrics_tbl db) of
             None \<Rightarrow> (1, None)
           | Some r \<Rightarrow> (0, Some (read_row (select_raw r))))"

definition in_range :: "string \<Rightarrow> row list \<Rightarrow> row list" where
  "in_range cutoff tbl = filter (\<lambda>r. cutoff \<le> timestamp r) tbl"

definition db_count_range :: "bool \<Rightarrow> bool \<Rightarrow> int \<Rightarrow> int \<Rightarrow> database \<Rightarrow> int" where
  "db_count_range prepared stepped now range_seconds db =
     (if \<not> prepared then - 1
      else if \<not> stepped then - 1
      else to_signed 32 (int (length (in_range (iso_cutoff now range_seconds) (metrics_tbl db)))))"

definition query_raw :: "string \<Rightarrow> row list \<Rightarrow> selected list" where
  "query_raw cutoff tbl = map select_raw (sort_key unix (in_range cutoff tbl))"

definition select_bucket :: "int option \<times> row list \<Rightarrow> selected" where
  "select_bucket kg = (sql_iso (fst kg), fst kg, avg (snd kg))"

definition query_buckets :: "int \<Rightarrow> string \<Rightarrow> row list \<Rightarrow> selected list" where
  "query_buckets bs cutoff tbl =
     map select_bucket (group_by (bucket_of bs) (in_range cutoff tbl))"

text \<open>The rows, or \<open>None\<close> for -1. The buffer doubles when it is full; \<open>ok\<close> says that the statement
  was prepared, every allocation succeeded and no step failed.\<close>

definition db_query_range :: "bool \<Rightarrow> int \<Rightarrow> int \<Rightarrow> int \<Rightarrow> database \<Rightarrow> db_row_t list option" where
  "db_query_range ok now range_seconds bs db =
     (if \<not> ok then None
      else Some (map read_row
             (if bs \<le> 0 then query_raw (iso_cutoff now range_seconds) (metrics_tbl db)
              else query_buckets bs (iso_cutoff now range_seconds) (metrics_tbl db))))"

subsection \<open>Lemmas\<close>

lemma newest_None [simp]: "newest rs = None \<longleftrightarrow> rs = []"
  by (cases rs) (auto split: option.splits)

lemma newest_spec:
  "newest rs = Some r \<Longrightarrow> r \<in> set rs \<and> (\<forall>r' \<in> set rs. timestamp r' \<le> timestamp r)"
proof (induction rs arbitrary: r)
  case (Cons x rs)
  then show ?case
    by (cases "newest rs") (auto split: if_splits dest: order_trans less_imp_le)
qed simp

lemma newest_snoc:
  "(\<And>r'. r' \<in> set rs \<Longrightarrow> timestamp r' \<le> timestamp r) \<Longrightarrow> newest (rs @ [r]) = Some r"
proof (induction rs)
  case (Cons a rs)
  then have "\<not> timestamp r < timestamp a" and "newest (rs @ [r]) = Some r" by (simp_all add: leD)
  then show ?case by simp
qed simp

lemma double_pos_cases: "Fin 0 < x \<longleftrightarrow> x = PInf \<or> (\<exists>q > 0. x = Fin q)"
  by (cases x) auto

lemma percent_of_range:
  assumes "Fin 0 \<le> available"
  shows "\<exists>q. percent_of (used_of (Fin t) available) (Fin t) = Fin q \<and> 0 \<le> q \<and> q \<le> 100"
proof (cases available)
  case (Fin a)
  then have "0 \<le> (t - a) * 100 / t \<and> (t - a) * 100 / t \<le> 100" if "0 < t" "a < t"
    using assms that by (simp add: divide_simps)
  then show ?thesis using Fin by (auto simp: percent_of_def used_of_def)
qed (use assms in \<open>auto simp: less_eq_double_def percent_of_def used_of_def minus_double_def\<close>)

lemma in_range_set: "set (in_range cutoff tbl) = {r \<in> set tbl. cutoff \<le> timestamp r}"
  by (auto simp: in_range_def)

lemma in_range_instants:
  assumes "list_all row_ok tbl" and "time_ok t"
  shows "in_range (iso_of t) tbl = filter (\<lambda>r. t \<le> the (unix r)) tbl"
  unfolding in_range_def
proof (rule filter_cong [OF refl])
  fix r assume "r \<in> set tbl"
  then have "row_ok r" using assms(1) by (simp add: list_all_iff)
  then show "(iso_of t \<le> timestamp r) = (t \<le> the (unix r))"
    by (rule row_okE) (use assms(2) in \<open>auto simp: iso.fmt_le\<close>)
qed

lemma read_row_unix [simp]:
  "r_unix_time (read_row (ts, u, c)) = (case u of None \<Rightarrow> 0 | Some t \<Rightarrow> t)"
  "r_timestamp (read_row (ts, u, c)) = (case ts of None \<Rightarrow> [] | Some t \<Rightarrow> take 23 t)"
  by (simp_all add: read_row_def Let_def)

subsection \<open>Properties\<close>

text \<open>A row that holds a sample: the instant, and each group of readings, if it was valid.\<close>

definition same_sample :: "int \<Rightarrow> metrics_t \<Rightarrow> db_row_t \<Rightarrow> bool" where
  "same_sample now m row =
     (r_unix_time row = now \<and> r_timestamp row = iso_of now \<and>
      r_load_1m row = load_1m m \<and> r_load_5m row = load_5m m \<and> r_load_15m row = load_15m m \<and>
      r_cpu_valid row = cpu_valid m \<and>
      (cpu_valid m \<longrightarrow> r_cpu_user_percent row = cpu_user_percent m \<and> r_cpu_system_percent row = cpu_system_percent m \<and>
        r_cpu_idle_percent row = cpu_idle_percent m) \<and>
      r_mem_total_mb row = mem_total_mb m \<and> r_mem_available_mb row = mem_available_mb m \<and>
      r_disk_total_gb row = disk_total_gb m \<and> r_disk_available_gb row = disk_available_gb m \<and>
      r_temp_valid row = temp_valid m \<and> (temp_valid m \<longrightarrow> r_temp_celsius row = temp_celsius m) \<and>
      r_net_valid row = net_valid m \<and>
      (net_valid m \<longrightarrow> r_net_rx_bps row = net_rx_bps m \<and> r_net_tx_bps row = net_tx_bps m) \<and>
      r_uptime_seconds row = uptime_seconds m \<and>
      r_swap_valid row = swap_valid m \<and>
      (swap_valid m \<longrightarrow> r_swap_total_mb row = swap_total_mb m \<and> r_swap_free_mb row = swap_free_mb m) \<and>
      r_swap_io_valid row = swap_io_valid m \<and>
      (swap_io_valid m \<longrightarrow> r_swap_in_bps row = swap_in_bps m \<and> r_swap_out_bps row = swap_out_bps m))"

definition numbers :: "metrics_t \<Rightarrow> bool" where
  "numbers m = list_all (\<lambda>(valid, x). valid \<longrightarrow> x \<noteq> NaN)
     [(True, load_1m m), (True, load_5m m), (True, load_15m m), (cpu_valid m, cpu_user_percent m),
      (cpu_valid m, cpu_system_percent m), (cpu_valid m, cpu_idle_percent m), (True, mem_total_mb m),
      (True, mem_available_mb m), (True, disk_total_gb m), (True, disk_available_gb m), (temp_valid m, temp_celsius m),
      (net_valid m, net_rx_bps m), (net_valid m, net_tx_bps m), (True, uptime_seconds m), (swap_valid m, swap_total_mb m),
      (swap_valid m, swap_free_mb m), (swap_io_valid m, swap_in_bps m), (swap_io_valid m, swap_out_bps m)]"

lemma current_after_insert:
  assumes "step_with_retry step = ST_DONE" and "time_ok now"
    and "list_all row_ok (metrics_tbl db)"
    and "list_all (\<lambda>r. the (unix r) \<le> now) (metrics_tbl db)"
  shows "db_current True True (snd (db_insert step now d m db)) =
    (0, Some (read_row (Some (iso_of now), Some now, metric_cell m)))"
proof -
  define r where "r = metric_row now (interval_sec d) m"
  have "timestamp r' \<le> timestamp r" if "r' \<in> set (metrics_tbl db)" for r'
  proof -
    have "row_ok r'" and "the (unix r') \<le> now" using assms(3,4) that by (auto simp: list_all_iff)
    then show ?thesis
      by (elim row_okE) (use assms(2) in \<open>auto simp: r_def metric_row_def iso.fmt_le\<close>)
  qed
  then have "newest (metrics_tbl (snd (db_insert step now d m db))) = Some r"
    using newest_snoc [of "metrics_tbl db" r] assms(1) by (simp add: db_simps r_def)
  moreover have "unix r = Some now" using assms(2) by (rule unix_iso) (simp add: r_def metric_row_def)
  ultimately show ?thesis by (simp add: db_current_def select_raw_def r_def metric_row_def)
qed

lemma same_sample_row:
  assumes "numbers m"
  shows "same_sample now m (read_row (Some (iso_of now), Some now, metric_cell m))"
  using assms
  by (simp add: numbers_def same_sample_def read_row_def Let_def gated_def bind_when_def bind_double_def isnan_def
      col_double_def length_iso_of)

text \<open>C16: What the daemon writes is what it reads back: after a successful \<open>db_insert\<close> at an instant
  not before any stored one, \<open>db_current\<close> succeeds and gives that sample with its instant: every
  reading of the groups that were valid, and the validity of each group. The readings must not be
  NaN, which SQLite stores as NULL.\<close>

theorem insert_current:
  assumes "step_with_retry step = ST_DONE" and "time_ok now"
    and "list_all row_ok (metrics_tbl db)"
    and "list_all (\<lambda>r. the (unix r) \<le> now) (metrics_tbl db)" and "numbers m"
  shows "\<exists>row. db_current True True (snd (db_insert step now d m db)) = (0, Some row) \<and> same_sample now m row"
  using current_after_insert [OF assms(1-4)] same_sample_row [OF assms(5)] by simp

definition sample_metrics :: "rat \<Rightarrow> metrics_t" where
  "sample_metrics x = \<lparr>load_1m = Fin x, load_5m = Fin x, load_15m = Fin x, cpu_valid = True,
     cpu_user_percent = Fin x, cpu_system_percent = Fin 0, cpu_idle_percent = Fin (100 - x),
     mem_total_mb = Fin 2000, mem_available_mb = Fin 500, swap_valid = False, swap_total_mb = Fin 0,
     swap_free_mb = Fin 0, swap_io_valid = False, swap_in_bps = Fin 0, swap_out_bps = Fin 0,
     disk_total_gb = Fin 100, disk_available_gb = Fin 40, temp_valid = False, temp_celsius = Fin 0,
     net_valid = True, net_rx_bps = Fin 1000, net_tx_bps = Fin 10, uptime_seconds = Fin 60\<rparr>"

theorem insert_current_witness:
  "\<exists>row. db_current True True (snd (db_insert (\<lambda>_. ST_DONE) 1700000000 (open_handle 30)
     (sample_metrics 25) \<lparr>metrics_tbl = [sample_row 1600000000 30 4], alert_log = []\<rparr>)) =
     (0, Some row) \<and> r_unix_time row = 1700000000 \<and> r_cpu_user_percent row = Fin 25"
proof -
  have u: "unix (sample_row 1600000000 30 4) = Some 1600000000"
    by (rule unix_iso) (simp_all add: time_ok_def sample_row_def)
  show ?thesis
    using insert_current [of "\<lambda>_. ST_DONE" 1700000000
        "\<lparr>metrics_tbl = [sample_row 1600000000 30 4], alert_log = []\<rparr>" "sample_metrics 25" "open_handle 30"]
    by (auto simp: step_with_retry_eq time_ok_def sample_row_ok u sample_metrics_def numbers_def same_sample_def)
qed

text \<open>The percentages worked out as a row is read are percentages: with a stored total and a
  stored available of at least zero, the used share of memory and of disk is between 0 and 100, and
  the available share completes it to 100, also when the available is above the total.\<close>

lemma read_row_percentages:
  assumes "cells Mem_total_mb = Some (Fin mt)" and "cells Mem_available_mb = Some (Fin ma)" and "0 \<le> ma"
    and "cells Disk_total_gb = Some (Fin dt)" and "cells Disk_available_gb = Some (Fin da)" and "0 \<le> da"
  shows "\<exists>p q. r_mem_used_percent (read_row (ts, u, cells)) = Fin p \<and> 0 \<le> p \<and> p \<le> 100 \<and>
    r_mem_available_percent (read_row (ts, u, cells)) = Fin (100 - p) \<and>
    r_disk_used_percent (read_row (ts, u, cells)) = Fin q \<and> 0 \<le> q \<and> q \<le> 100 \<and>
    r_disk_available_percent (read_row (ts, u, cells)) = Fin (100 - q)"
proof -
  obtain p where "percent_of (used_of (Fin mt) (Fin ma)) (Fin mt) = Fin p" "0 \<le> p" "p \<le> 100"
    using percent_of_range [of "Fin ma" mt] assms(3) by auto
  moreover obtain q where "percent_of (used_of (Fin dt) (Fin da)) (Fin dt) = Fin q" "0 \<le> q" "q \<le> 100"
    using percent_of_range [of "Fin da" dt] assms(6) by auto
  ultimately show ?thesis
    using assms by (simp add: read_row_def Let_def col_double_def)
qed

text \<open>The keys of the groups of rows that have an instant.\<close>

lemma bucket_keys:
  assumes "\<And>r. r \<in> set sel \<Longrightarrow> \<exists>t. unix r = Some t \<and> time_ok t"
    and "keys = sort (remdups (map (bucket_of bs) sel))"
  shows bucket_keys_some: "k \<in> set keys \<Longrightarrow> \<exists>t. k = Some (bucket_start bs t) \<and> time_ok t"
    and bucket_keys_sorted: "sorted_wrt (<) (map (\<lambda>k. case k of None \<Rightarrow> 0 | Some t \<Rightarrow> t) keys)"
    and bucket_keys_set: "set (map (\<lambda>k. case k of None \<Rightarrow> 0 | Some t \<Rightarrow> t) keys) =
      {bucket_start bs t | t r. r \<in> set sel \<and> unix r = Some t}"
proof -
  show key: "\<exists>t. k = Some (bucket_start bs t) \<and> time_ok t" if "k \<in> set keys" for k
    using that assms by (force simp: bucket_of_def)
  have "sorted_wrt (<) keys" by (simp add: assms(2) strict_sorted_iff)
  then show "sorted_wrt (<) (map (\<lambda>k. case k of None \<Rightarrow> 0 | Some t \<Rightarrow> t) keys)"
    unfolding sorted_wrt_map
  proof (rule sorted_wrt_mono_rel [rotated])
    fix x y assume "x \<in> set keys" "y \<in> set keys" "x < y"
    then show "(case x of None \<Rightarrow> 0 | Some t \<Rightarrow> t) < (case y of None \<Rightarrow> 0 | Some t \<Rightarrow> t)"
      using key [of x] key [of y] by auto
  qed
  have "set (map (\<lambda>k. case k of None \<Rightarrow> 0 | Some t \<Rightarrow> t) keys) =
      (\<lambda>r. case bucket_of bs r of None \<Rightarrow> 0 | Some t \<Rightarrow> t) ` set sel"
    unfolding assms(2) by (simp add: image_image)
  also have "\<dots> = (\<lambda>r. bucket_start bs (the (unix r))) ` set sel"
    by (rule image_cong [OF refl]) (use assms(1) in \<open>fastforce simp: bucket_of_def\<close>)
  also have "\<dots> = {bucket_start bs t | t r. r \<in> set sel \<and> unix r = Some t}"
  proof (intro equalityI subsetI)
    fix x assume "x \<in> (\<lambda>r. bucket_start bs (the (unix r))) ` set sel"
    then obtain r where "r \<in> set sel" "x = bucket_start bs (the (unix r))" by auto
    moreover from this assms(1) obtain t where "unix r = Some t" by blast
    ultimately show "x \<in> {bucket_start bs t | t r. r \<in> set sel \<and> unix r = Some t}" by auto
  qed (force intro: rev_image_eqI)
  finally show "set (map (\<lambda>k. case k of None \<Rightarrow> 0 | Some t \<Rightarrow> t) keys) =
      {bucket_start bs t | t r. r \<in> set sel \<and> unix r = Some t}" .
qed

text \<open>C17: A bucketed range query over canonical rows gives one row per bucket that holds a sample in
  the range: its instants are multiples of the bucket size in strictly increasing order, and an
  instant is there exactly when some row at or after the cutoff falls in its bucket. No bucket is
  reported twice and none is left out. What a row says are the averages over all the samples of its
  bucket in the range.\<close>

theorem query_range_buckets:
  assumes "list_all row_ok (metrics_tbl db)" and "time_ok (now - range_seconds)" and "0 < bs"
    and "db_query_range True now range_seconds bs db = Some rows"
  shows "sorted_wrt (<) (map r_unix_time rows) \<and>
    set (map r_unix_time rows) =
      {bucket_start bs t | t r. r \<in> set (metrics_tbl db) \<and> unix r = Some t \<and> now - range_seconds \<le> t} \<and>
    list_all (\<lambda>row. let k = r_unix_time row;
        samples = filter (\<lambda>r. now - range_seconds \<le> the (unix r) \<and> bucket_of bs r = Some k) (metrics_tbl db)
      in bs dvd k \<and> row = read_row (Some (iso_of k), Some k, avg samples)) rows"
proof -
  define sel where "sel = in_range (iso_of (now - range_seconds)) (metrics_tbl db)"
  define keys where "keys = sort (remdups (map (bucket_of bs) sel))"
  have sel: "sel = filter (\<lambda>r. now - range_seconds \<le> the (unix r)) (metrics_tbl db)"
    unfolding sel_def by (rule in_range_instants [OF assms(1,2)])
  have ok: "\<exists>t. unix r = Some t \<and> time_ok t" if "r \<in> set sel" for r
    using that assms(1) by (auto simp: sel list_all_iff elim!: row_okE)
  note keys = bucket_keys [OF ok keys_def]
  have rows: "rows = map read_row (map select_bucket (group_by (bucket_of bs) sel))"
    using assms(3,4) by (simp add: db_query_range_def query_buckets_def sel_def iso_cutoff_def)
  have "map r_unix_time rows = map (\<lambda>k. case k of None \<Rightarrow> 0 | Some t \<Rightarrow> t) (map fst (group_by (bucket_of bs) sel))"
    unfolding rows map_map by (rule map_cong [OF refl]) (simp add: select_bucket_def)
  then have times: "map r_unix_time rows = map (\<lambda>k. case k of None \<Rightarrow> 0 | Some t \<Rightarrow> t) keys"
    by (simp only: map_fst_group_by keys_def)
  have "(r \<in> set sel \<and> unix r = Some t) = (r \<in> set (metrics_tbl db) \<and> unix r = Some t \<and> now - range_seconds \<le> t)" for r t
    by (auto simp: sel)
  then have "set (map r_unix_time rows) =
      {bucket_start bs t | t r. r \<in> set (metrics_tbl db) \<and> unix r = Some t \<and> now - range_seconds \<le> t}"
    using keys(3) by (simp only: times)
  moreover have "bs dvd r_unix_time row \<and> row = read_row (Some (iso_of (r_unix_time row)), Some (r_unix_time row),
      avg (filter (\<lambda>r. now - range_seconds \<le> the (unix r) \<and> bucket_of bs r = Some (r_unix_time row)) (metrics_tbl db)))"
    if row: "row \<in> set rows" for row
  proof -
    obtain k g where kg: "(k, g) \<in> set (group_by (bucket_of bs) sel)" "row = read_row (select_bucket (k, g))"
      using row by (auto simp: rows)
    then have g: "g = filter (\<lambda>r. bucket_of bs r = k) sel" and "k \<in> set keys" by (simp_all add: keys_def group_by_set)
    then obtain t where t: "k = Some (bucket_start bs t)" "time_ok t" using keys(1) by blast
    have "g = filter (\<lambda>r. now - range_seconds \<le> the (unix r) \<and> bucket_of bs r = k) (metrics_tbl db)"
      unfolding g sel by (simp add: conj_commute)
    then show ?thesis
      using kg(2) assms(3) t
      by (simp add: select_bucket_def bucket_start_dvd sql_iso_ok time_ok_bucket)
  qed
  ultimately show ?thesis using keys(2) by (simp add: list_all_iff times Let_def)
qed

theorem query_range_buckets_witness:
  "sorted_wrt (<) (map r_unix_time (the (db_query_range True 200000 100000 60
     \<lparr>metrics_tbl = [sample_row 150030 30 5, sample_row 120000 30 4], alert_log = []\<rparr>)))"
  using query_range_buckets [of "\<lparr>metrics_tbl = [sample_row 150030 30 5, sample_row 120000 30 4], alert_log = []\<rparr>"
      200000 100000 60 "the (db_query_range True 200000 100000 60
        \<lparr>metrics_tbl = [sample_row 150030 30 5, sample_row 120000 30 4], alert_log = []\<rparr>)"]
  by (simp add: sample_row_ok time_ok_def db_query_range_def)

end
