(* ===== verification/Json.thy ===== *)
theory Json
  imports JsonText Units Config Query
begin

text \<open>
  \<open>src/json.c\<close>: the bounded writer of JSON objects and the three serializers. A buffer holds the
  text written so far (\<open>pos\<close> is its length); what does not fit is dropped and sets \<open>overflow\<close>.
  A serializer is a function on buffers, made of one function per group of fields.
\<close>

subsection \<open>The writer\<close>

record jbuf_t =
  out :: string
  cap :: nat
  comma :: bool
  overflow :: bool

definition JSON_CURRENT_CAP :: nat where "JSON_CURRENT_CAP = 4096"
definition JSON_POINT_CAP :: nat where "JSON_POINT_CAP = 512"
definition JSON_UNITS_CAP :: nat where "JSON_UNITS_CAP = 256"

definition jbuf_init :: "nat \<Rightarrow> jbuf_t" where
  "jbuf_init n = \<lparr>out = [], cap = n, comma = False, overflow = False\<rparr>"

definition jbuf_raw :: "string \<Rightarrow> jbuf_t \<Rightarrow> jbuf_t" where
  "jbuf_raw s j =
     (if length (out j) + length s \<ge> cap j then j\<lparr>overflow := True\<rparr>
      else j\<lparr>out := out j @ s\<rparr>)"

definition jbuf_sep :: "jbuf_t \<Rightarrow> jbuf_t" where
  "jbuf_sep j = (if comma j then jbuf_raw '','' j else j)\<lparr>comma := True\<rparr>"

definition jbuf_begin :: "jbuf_t \<Rightarrow> jbuf_t" where
  "jbuf_begin j = (jbuf_raw ''{'' j)\<lparr>comma := False\<rparr>"

definition jbuf_end :: "jbuf_t \<Rightarrow> jbuf_t" where
  "jbuf_end j = jbuf_raw ''}'' j"

definition hex_digit :: "nat \<Rightarrow> char" where
  "hex_digit d = ''0123456789abcdef'' ! d"

text \<open>\<open>%04x\<close> of a number below 256.\<close>

definition hex4 :: "nat \<Rightarrow> string" where
  "hex4 n = ''00'' @ [hex_digit (n div 16), hex_digit (n mod 16)]"

definition escape_char :: "char \<Rightarrow> string" where
  "escape_char c =
     (if c = DQUOTE then [BACKSLASH, DQUOTE]
      else if c = BACKSLASH then [BACKSLASH, BACKSLASH]
      else if c = CHR 0x0A then BACKSLASH # ''n''
      else if c = CHR 0x0D then BACKSLASH # ''r''
      else if c = CHR 0x09 then BACKSLASH # ''t''
      else if c = CHR 0x08 then BACKSLASH # ''b''
      else if c = CHR 0x0C then BACKSLASH # ''f''
      else if code c < 32 then BACKSLASH # ''u'' @ hex4 (code c)
      else [c])"

fun escape_loop :: "nat \<Rightarrow> string \<Rightarrow> string \<Rightarrow> string option" where
  "escape_loop n dst [] = Some dst"
| "escape_loop n dst (c # cs) =
     (if length dst + length (escape_char c) \<ge> n then None
      else escape_loop n (dst @ escape_char c) cs)"

definition json_escape :: "nat \<Rightarrow> string \<Rightarrow> string option" where
  "json_escape n src = (if n = 0 then None else escape_loop n [] src)"

text \<open>The new buffer, and whether the field was dropped.\<close>

definition jbuf_field :: "string \<Rightarrow> jbuf_t \<Rightarrow> jbuf_t \<times> bool" where
  "jbuf_field field j =
     (if length (out j) + (if comma j then 1 else 0) + length field \<ge> cap j
      then (j\<lparr>overflow := True\<rparr>, True)
      else (jbuf_raw field (jbuf_sep j), False))"

definition jbuf_str :: "string \<Rightarrow> string \<Rightarrow> jbuf_t \<Rightarrow> jbuf_t" where
  "jbuf_str key v j =
     (case (json_escape 64 key, json_escape 1024 v) of
        (Some ekey, Some ev) \<Rightarrow>
          (case snprintf 1152 (quote ekey @ '':'' @ quote ev) of
             (tmp, n) \<Rightarrow>
               if n \<ge> 1152 then j\<lparr>overflow := True\<rparr>
               else (case jbuf_field tmp j of (j', dropped) \<Rightarrow>
                       if dropped then j'\<lparr>overflow := True\<rparr> else j'))
      | _ \<Rightarrow> j\<lparr>overflow := True\<rparr>)"

definition jbuf_null :: "string \<Rightarrow> jbuf_t \<Rightarrow> jbuf_t" where
  "jbuf_null key j = fst (jbuf_field (fst (snprintf 64 (quote key @ '':null''))) j)"

definition jbuf_real :: "string \<Rightarrow> double \<Rightarrow> jbuf_t \<Rightarrow> jbuf_t" where
  "jbuf_real key v j =
     (if \<not> isfinite v then jbuf_null key j
      else fst (jbuf_field (fst (snprintf 128 (quote key @ '':'' @ fmt_g 4 v))) j))"

definition jbuf_long :: "string \<Rightarrow> int \<Rightarrow> jbuf_t \<Rightarrow> jbuf_t" where
  "jbuf_long key v j = fst (jbuf_field (fst (snprintf 64 (quote key @ '':'' @ show_int v))) j)"

definition jbuf_pair :: "string \<Rightarrow> double \<Rightarrow> double \<Rightarrow> jbuf_t \<Rightarrow> jbuf_t" where
  "jbuf_pair key warn crit j =
     fst (jbuf_field
       (fst (snprintf 128 (quote key @ '':['' @ fmt_g 6 warn @ '','' @ fmt_g 6 crit @ '']''))) j)"

text \<open>An element of an open array; one that does not fit is left out.\<close>

definition jbuf_array_str :: "string \<Rightarrow> jbuf_t \<times> bool \<Rightarrow> jbuf_t \<times> bool" where
  "jbuf_array_str s st =
     (case st of (j, emitted) \<Rightarrow>
      case json_escape 96 s of
        None \<Rightarrow> (j, emitted)
      | Some esc \<Rightarrow>
          (case snprintf 112 ((if emitted then '','' else '''') @ quote esc) of
             (tmp, n) \<Rightarrow>
               if n \<ge> 112 \<or> length (out j) + n \<ge> cap j then (j, emitted)
               else (jbuf_raw tmp j, True)))"

subsection \<open>The latest snapshot\<close>

text \<open>The hardware the serializers are told about.\<close>

record hw_t =
  num_cores :: int
  temp_critical_valid :: bool
  temp_critical :: double
  detected_speed_mbit :: int

definition nref_of :: "config_t \<Rightarrow> hw_t \<Rightarrow> double" where
  "nref_of cfg hw = net_ref_bps (net_max_speed cfg) (detected_speed_mbit hw)"

definition tref_of :: "config_t \<Rightarrow> hw_t \<Rightarrow> double" where
  "tref_of cfg hw =
     temp_ref (temp_critical_valid hw) (temp_critical hw) (temp_critical_fallback cfg)"

definition has_card :: "config_t \<Rightarrow> string \<Rightarrow> bool" where
  "has_card cfg x = config_has (cards cfg) (card_count cfg) x"

text \<open>A list of writers, run in order.\<close>

definition run :: "(jbuf_t \<Rightarrow> jbuf_t) list \<Rightarrow> jbuf_t \<Rightarrow> jbuf_t" where
  "run fs j = fold (\<lambda>f. f) fs j"

text \<open>A value, or \<open>null\<close> where there is no data; and a group that is only written when it is shown.\<close>

definition real_or_null :: "bool \<Rightarrow> string \<Rightarrow> double \<Rightarrow> jbuf_t \<Rightarrow> jbuf_t" where
  "real_or_null valid key v = (if valid then jbuf_real key v else jbuf_null key)"

definition run_if :: "bool \<Rightarrow> (jbuf_t \<Rightarrow> jbuf_t) list \<Rightarrow> jbuf_t \<Rightarrow> jbuf_t" where
  "run_if b fs = (if b then run fs else id)"

definition cur_load :: "db_row_t \<Rightarrow> config_t \<Rightarrow> hw_t \<Rightarrow> jbuf_t \<Rightarrow> jbuf_t" where
  "cur_load r cfg hw =
     (let conv = (\<lambda>x. load_convert x (num_cores hw) (Some (cpu_load_card_unit cfg)))
      in run_if (has_card cfg ''cpu_load'')
           [jbuf_real ''load_1m'' (conv (r_load_1m r)), jbuf_real ''load_5m'' (conv (r_load_5m r)),
            jbuf_real ''load_15m'' (conv (r_load_15m r))])"

definition cur_cpu :: "db_row_t \<Rightarrow> config_t \<Rightarrow> jbuf_t \<Rightarrow> jbuf_t" where
  "cur_cpu r cfg =
     run_if (has_card cfg ''cpu_usage'')
       [real_or_null (r_cpu_valid r) ''cpu_user_percent'' (r_cpu_user_percent r),
        real_or_null (r_cpu_valid r) ''cpu_system_percent'' (r_cpu_system_percent r),
        real_or_null (r_cpu_valid r) ''cpu_idle_percent'' (r_cpu_idle_percent r)]"

definition cur_memory :: "db_row_t \<Rightarrow> config_t \<Rightarrow> jbuf_t \<Rightarrow> jbuf_t" where
  "cur_memory r cfg =
     (let pct = (ch0 (memory_card_unit cfg) = CHR ''%'')
      in run_if (has_card cfg ''memory'')
           [jbuf_real ''mem_available'' (if pct then r_mem_available_percent r else r_mem_available_mb r),
            run_if (\<not> pct) [jbuf_real ''mem_total'' (r_mem_total_mb r)]])"

definition cur_swap :: "db_row_t \<Rightarrow> config_t \<Rightarrow> jbuf_t \<Rightarrow> jbuf_t" where
  "cur_swap r cfg =
     (let pct = (ch0 (swap_card_unit cfg) = CHR ''%'')
      in run_if (has_card cfg ''swap'')
           [real_or_null (r_swap_valid r) ''swap_free'' (if pct then r_swap_free_percent r else r_swap_free_mb r),
            run_if (\<not> pct) [real_or_null (r_swap_valid r) ''swap_total'' (r_swap_total_mb r)]])"

definition io_ram :: "config_t \<Rightarrow> bool" where
  "io_ram cfg = (ch0 (swap_io_card_unit cfg) = CHR ''r'')"

definition cur_swap_io :: "db_row_t \<Rightarrow> config_t \<Rightarrow> jbuf_t \<Rightarrow> jbuf_t" where
  "cur_swap_io r cfg =
     run_if (has_card cfg ''swap_io'')
       [real_or_null (r_swap_io_valid r) ''swap_in'' (if io_ram cfg then r_swap_in_ram r else r_swap_in_bps r),
        real_or_null (r_swap_io_valid r) ''swap_out'' (if io_ram cfg then r_swap_out_ram r else r_swap_out_bps r)]"

definition cur_disk :: "db_row_t \<Rightarrow> config_t \<Rightarrow> jbuf_t \<Rightarrow> jbuf_t" where
  "cur_disk r cfg =
     (let pct = (ch0 (disk_card_unit cfg) = CHR ''%'')
      in run_if (has_card cfg ''disk'')
           [jbuf_real ''disk_available'' (if pct then r_disk_available_percent r else r_disk_available_gb r),
            run_if (\<not> pct) [jbuf_real ''disk_total'' (r_disk_total_gb r)]])"

definition cur_temp :: "db_row_t \<Rightarrow> config_t \<Rightarrow> hw_t \<Rightarrow> jbuf_t \<Rightarrow> jbuf_t" where
  "cur_temp r cfg hw =
     run_if (has_card cfg ''temp'')
       [real_or_null (r_temp_valid r) ''temp''
          (temp_convert (r_temp_celsius r) (Some (temp_card_unit cfg)) (tref_of cfg hw))]"

definition cur_net :: "db_row_t \<Rightarrow> config_t \<Rightarrow> hw_t \<Rightarrow> jbuf_t \<Rightarrow> jbuf_t" where
  "cur_net r cfg hw =
     (let conv = (\<lambda>x. net_convert x (Some (net_card_unit cfg)) (nref_of cfg hw))
      in run_if (has_card cfg ''net'')
           [real_or_null (r_net_valid r) ''net_rx'' (conv (r_net_rx_bps r)),
            real_or_null (r_net_valid r) ''net_tx'' (conv (r_net_tx_bps r))])"

definition cur_uptime :: "db_row_t \<Rightarrow> config_t \<Rightarrow> jbuf_t \<Rightarrow> jbuf_t" where
  "cur_uptime r cfg =
     run_if (has_card cfg ''uptime'') [jbuf_real ''uptime_seconds'' (r_uptime_seconds r)]"

definition cur_units :: "config_t \<Rightarrow> jbuf_t \<Rightarrow> jbuf_t" where
  "cur_units cfg = run
     [jbuf_str ''mem_card_unit'' (memory_card_unit cfg),
      jbuf_str ''mem_chart_unit'' (memory_chart_unit cfg),
      jbuf_str ''swap_card_unit'' (swap_card_unit cfg),
      jbuf_str ''swap_chart_unit'' (swap_chart_unit cfg),
      jbuf_str ''swap_io_card_unit'' (swap_io_card_unit cfg),
      jbuf_str ''swap_io_chart_unit'' (swap_io_chart_unit cfg),
      jbuf_str ''disk_card_unit'' (disk_card_unit cfg),
      jbuf_str ''disk_chart_unit'' (disk_chart_unit cfg),
      jbuf_str ''temp_card_unit'' (temp_card_unit cfg),
      jbuf_str ''temp_chart_unit'' (temp_chart_unit cfg),
      jbuf_str ''net_card_unit'' (net_card_unit cfg),
      jbuf_str ''net_chart_unit'' (net_chart_unit cfg),
      jbuf_str ''cpu_load_card_unit'' (cpu_load_card_unit cfg),
      jbuf_str ''cpu_load_chart_unit'' (cpu_load_chart_unit cfg)]"

text \<open>A member written in one piece after the separator.\<close>

definition sep_raw :: "string \<Rightarrow> jbuf_t \<Rightarrow> jbuf_t" where
  "sep_raw s j = jbuf_raw s (jbuf_sep j)"

definition cur_look :: "config_t \<Rightarrow> jbuf_t \<Rightarrow> jbuf_t" where
  "cur_look cfg = run
     [jbuf_str ''title'' (title cfg),
      jbuf_str ''theme'' (theme cfg),
      sep_raw (quote ''show_footer'' @ (if show_footer cfg then '':true'' else '':false'')),
      jbuf_str ''uptime_unit'' (uptime_unit cfg)]"

text \<open>An array of strings: the opening piece, the elements, the closing bracket.\<close>

definition array_of :: "string \<Rightarrow> string list \<Rightarrow> jbuf_t \<Rightarrow> jbuf_t" where
  "array_of key xs j =
     jbuf_raw '']'' (fst (fold jbuf_array_str xs (sep_raw (quote key @ '':['') j, False)))"

definition names_of :: "string \<Rightarrow> string list \<Rightarrow> int \<Rightarrow> jbuf_t \<Rightarrow> jbuf_t" where
  "names_of key xs count j =
     (if count = 0 then sep_raw (quote key @ '':null'') j
      else if count < 0 then sep_raw (quote key @ '':[]'') j
      else array_of key (take (nat count) xs) j)"

definition cur_lists :: "config_t \<Rightarrow> jbuf_t \<Rightarrow> jbuf_t" where
  "cur_lists cfg = run
     [array_of ''ranges'' (ranges cfg),
      names_of ''charts'' (charts cfg) (chart_count cfg),
      names_of ''cards'' (cards cfg) (card_count cfg)]"

definition load_thresholds :: "config_t \<Rightarrow> hw_t \<Rightarrow> double \<times> double" where
  "load_thresholds cfg hw =
     (if ch0 (cpu_load_card_unit cfg) = CHR ''%'' then (Fin 70, Fin 90)
      else if num_cores hw > 0
      then (Fin (3 / 4) * dbl_of_int (num_cores hw), Fin 1 * dbl_of_int (num_cores hw))
      else (Fin 2, Fin (7 / 2)))"

definition swap_io_scale :: "db_row_t \<Rightarrow> config_t \<Rightarrow> double" where
  "swap_io_scale r cfg =
     (if io_ram cfg then Fin 1
      else r_mem_total_mb r * Fin 1024 * Fin 1024 div Fin 100 div Fin 60)"

definition temp_thresholds :: "config_t \<Rightarrow> hw_t \<Rightarrow> double \<times> double" where
  "temp_thresholds cfg hw =
     (let conv = (\<lambda>x. temp_convert x (Some (temp_card_unit cfg)) (tref_of cfg hw))
      in if temp_critical_valid hw
         then (conv (temp_critical hw - Fin 20), conv (temp_critical hw - Fin 10))
         else (conv (Fin 70), conv (Fin 80)))"

definition net_threshold :: "config_t \<Rightarrow> hw_t \<Rightarrow> rat \<Rightarrow> double" where
  "net_threshold cfg hw share =
     net_convert (Fin share * nref_of cfg hw) (Some (net_card_unit cfg)) (nref_of cfg hw)"

definition pair_if :: "bool \<Rightarrow> string \<Rightarrow> double \<times> double \<Rightarrow> jbuf_t \<Rightarrow> jbuf_t" where
  "pair_if b key p j = (if b then jbuf_pair key (fst p) (snd p) j else j)"

definition cur_thresholds :: "db_row_t \<Rightarrow> config_t \<Rightarrow> hw_t \<Rightarrow> jbuf_t \<Rightarrow> jbuf_t" where
  "cur_thresholds r cfg hw = run
     [pair_if (has_card cfg ''cpu_load'') ''thresh_load'' (load_thresholds cfg hw),
      pair_if (has_card cfg ''cpu_usage'') ''thresh_cpu'' (Fin 70, Fin 90),
      pair_if (has_card cfg ''memory'') ''thresh_mem'' (Fin 70, Fin 90),
      pair_if (has_card cfg ''swap'') ''thresh_swap'' (Fin 80, Fin 95),
      pair_if (has_card cfg ''swap_io'') ''thresh_swap_io''
        (Fin 1 * swap_io_scale r cfg, Fin 5 * swap_io_scale r cfg),
      pair_if (has_card cfg ''disk'') ''thresh_disk'' (Fin 80, Fin 90),
      pair_if (has_card cfg ''temp'') ''thresh_temp'' (temp_thresholds cfg hw),
      pair_if (has_card cfg ''net'') ''thresh_net''
        (net_threshold cfg hw (85 / 100), net_threshold cfg hw (98 / 100))]"

definition json_serialize_current :: "db_row_t \<Rightarrow> config_t \<Rightarrow> hw_t \<Rightarrow> jbuf_t \<Rightarrow> jbuf_t" where
  "json_serialize_current r cfg hw = run
     [jbuf_str ''timestamp'' (r_timestamp r),
      cur_load r cfg hw, cur_cpu r cfg, cur_memory r cfg, cur_swap r cfg, cur_swap_io r cfg,
      cur_disk r cfg, cur_temp r cfg hw, cur_net r cfg hw, cur_uptime r cfg,
      cur_units cfg, cur_look cfg, cur_lists cfg, cur_thresholds r cfg hw]"

subsection \<open>The units of a window\<close>

definition MB_LADDER :: "string list" where "MB_LADDER = [''MB'', ''GB'', ''TB'']"
definition GB_LADDER :: "string list" where "GB_LADDER = [''GB'', ''TB'', ''PB'']"
definition BYTES_LADDER :: "string list" where "BYTES_LADDER = [''KB/s'', ''MB/s'', ''GB/s'']"
definition BITS_LADDER :: "string list" where "BITS_LADDER = [''Kbps'', ''Mbps'', ''Gbps'']"

definition max2 :: "double \<Rightarrow> double \<Rightarrow> double" where
  "max2 a b = (if a > b then a else b)"

definition unit_entry ::
    "string \<Rightarrow> double \<Rightarrow> string list \<Rightarrow> int \<Rightarrow> double \<Rightarrow> double \<Rightarrow> nat \<Rightarrow> jbuf_t \<Rightarrow> jbuf_t" where
  "unit_entry key mx ladder steps mul factor base j =
     (let step = unit_step (mx * mul div dbl_pow factor base) steps factor
      in if step < 0 then j
         else sep_raw (fst (snprintf 96
           (quote key @ '':{'' @ quote ''sym'' @ '':'' @ quote (ladder ! nat step) @ '','' @
            quote ''mul'' @ '':'' @ fmt_g 6 mul @ '','' @ quote ''div'' @ '':'' @
            fmt_g 6 (dbl_pow factor (nat step + base)) @ ''}''))) j)"

record maxima =
  mx_mem :: double
  mx_swap :: double
  mx_swap_io :: double
  mx_disk :: double
  mx_net :: double

definition row_maxima :: "db_row_t \<Rightarrow> maxima \<Rightarrow> maxima" where
  "row_maxima r m =
     \<lparr>mx_mem = max2 (mx_mem m) (max2 (r_mem_used_mb r) (r_mem_available_mb r)),
      mx_swap = (if r_swap_valid r then max2 (mx_swap m) (max2 (r_swap_used_mb r) (r_swap_free_mb r))
                 else mx_swap m),
      mx_swap_io = (if r_swap_io_valid r then max2 (mx_swap_io m) (max2 (r_swap_in_bps r) (r_swap_out_bps r))
                    else mx_swap_io m),
      mx_disk = max2 (mx_disk m) (max2 (r_disk_used_gb r) (r_disk_available_gb r)),
      mx_net = (if r_net_valid r then max2 (mx_net m) (max2 (r_net_rx_bps r) (r_net_tx_bps r))
                else mx_net m)\<rparr>"

definition rows_maxima :: "db_row_t list \<Rightarrow> maxima" where
  "rows_maxima rows = fold row_maxima rows
     \<lparr>mx_mem = Fin 0, mx_swap = Fin 0, mx_swap_io = Fin 0, mx_disk = Fin 0, mx_net = Fin 0\<rparr>"

definition net_entry :: "config_t \<Rightarrow> double \<Rightarrow> jbuf_t \<Rightarrow> jbuf_t" where
  "net_entry cfg net =
     (let bits = (ch0 (net_chart_unit cfg) = CHR ''b'' \<and> ch1 (net_chart_unit cfg) = CHR ''i'')
      in unit_entry ''net'' net (if bits then BITS_LADDER else BYTES_LADDER) 3
           (if bits then Fin 8 else Fin 1) (if bits then Fin 1000 else Fin 1024) 1)"

definition unit_entries :: "maxima \<Rightarrow> config_t \<Rightarrow> jbuf_t \<Rightarrow> jbuf_t" where
  "unit_entries m cfg = run
     [if ch0 (memory_chart_unit cfg) \<noteq> CHR ''%''
        then unit_entry ''mem'' (mx_mem m) MB_LADDER 3 (Fin 1) (Fin 1024) 0 else id,
      if ch0 (swap_chart_unit cfg) \<noteq> CHR ''%''
        then unit_entry ''swap'' (mx_swap m) MB_LADDER 3 (Fin 1) (Fin 1024) 0 else id,
      if ch0 (swap_io_chart_unit cfg) = CHR ''b''
        then unit_entry ''swap_io'' (mx_swap_io m) BYTES_LADDER 3 (Fin 1) (Fin 1024) 1 else id,
      if ch0 (disk_chart_unit cfg) \<noteq> CHR ''%''
        then unit_entry ''disk'' (mx_disk m) GB_LADDER 3 (Fin 1) (Fin 1024) 0 else id,
      if ch0 (net_chart_unit cfg) \<noteq> CHR ''%'' then net_entry cfg (mx_net m) else id]"

definition json_serialize_units :: "db_row_t list \<Rightarrow> config_t \<Rightarrow> jbuf_t \<Rightarrow> jbuf_t" where
  "json_serialize_units rows cfg j =
     (let j1 = (sep_raw (quote ''units'' @ '':{'') j)\<lparr>comma := False\<rparr>
      in (jbuf_raw ''}'' (unit_entries (rows_maxima rows) cfg j1))\<lparr>comma := True\<rparr>)"

subsection \<open>One history point\<close>

definition has_chart :: "config_t \<Rightarrow> string \<Rightarrow> bool" where
  "has_chart cfg x = config_has (charts cfg) (chart_count cfg) x"

definition point_load :: "db_row_t \<Rightarrow> config_t \<Rightarrow> hw_t \<Rightarrow> jbuf_t \<Rightarrow> jbuf_t" where
  "point_load r cfg hw =
     (let conv = (\<lambda>x. load_convert x (num_cores hw) (Some (cpu_load_chart_unit cfg)))
      in run_if (has_chart cfg ''cpu_load'')
           [jbuf_real ''l1'' (conv (r_load_1m r)), jbuf_real ''l5'' (conv (r_load_5m r)),
            jbuf_real ''l15'' (conv (r_load_15m r))])"

definition point_cpu :: "db_row_t \<Rightarrow> config_t \<Rightarrow> jbuf_t \<Rightarrow> jbuf_t" where
  "point_cpu r cfg =
     run_if (has_chart cfg ''cpu_usage'')
       [real_or_null (r_cpu_valid r) ''cu'' (r_cpu_user_percent r),
        real_or_null (r_cpu_valid r) ''cs'' (r_cpu_system_percent r),
        real_or_null (r_cpu_valid r) ''ci'' (r_cpu_idle_percent r)]"

definition point_memory :: "db_row_t \<Rightarrow> config_t \<Rightarrow> jbuf_t \<Rightarrow> jbuf_t" where
  "point_memory r cfg =
     (let pct = (ch0 (memory_chart_unit cfg) = CHR ''%'')
      in run_if (has_chart cfg ''memory'')
           [jbuf_real ''ma'' (if pct then r_mem_available_percent r else r_mem_available_mb r),
            run_if (\<not> pct) [jbuf_real ''mt'' (r_mem_total_mb r)]])"

definition point_swap :: "db_row_t \<Rightarrow> config_t \<Rightarrow> jbuf_t \<Rightarrow> jbuf_t" where
  "point_swap r cfg =
     (let pct = (ch0 (swap_chart_unit cfg) = CHR ''%'')
      in run_if (has_chart cfg ''swap'')
           [real_or_null (r_swap_valid r) ''sf'' (if pct then r_swap_free_percent r else r_swap_free_mb r),
            run_if (\<not> pct) [real_or_null (r_swap_valid r) ''st'' (r_swap_total_mb r)]])"

definition point_swap_io :: "db_row_t \<Rightarrow> config_t \<Rightarrow> jbuf_t \<Rightarrow> jbuf_t" where
  "point_swap_io r cfg =
     (let ram = (ch0 (swap_io_chart_unit cfg) = CHR ''r'')
      in run_if (has_chart cfg ''swap_io'')
           [real_or_null (r_swap_io_valid r) ''si'' (if ram then r_swap_in_ram r else r_swap_in_bps r),
            real_or_null (r_swap_io_valid r) ''so'' (if ram then r_swap_out_ram r else r_swap_out_bps r)])"

definition point_disk :: "db_row_t \<Rightarrow> config_t \<Rightarrow> jbuf_t \<Rightarrow> jbuf_t" where
  "point_disk r cfg =
     (let pct = (ch0 (disk_chart_unit cfg) = CHR ''%'')
      in run_if (has_chart cfg ''disk'')
           [jbuf_real ''da'' (if pct then r_disk_available_percent r else r_disk_available_gb r),
            run_if (\<not> pct) [jbuf_real ''dt'' (r_disk_total_gb r)]])"

definition point_temp :: "db_row_t \<Rightarrow> config_t \<Rightarrow> hw_t \<Rightarrow> jbuf_t \<Rightarrow> jbuf_t" where
  "point_temp r cfg hw =
     run_if (has_chart cfg ''temp'')
       [real_or_null (r_temp_valid r) ''tp''
          (temp_convert (r_temp_celsius r) (Some (temp_chart_unit cfg)) (tref_of cfg hw))]"

definition point_net :: "db_row_t \<Rightarrow> config_t \<Rightarrow> hw_t \<Rightarrow> jbuf_t \<Rightarrow> jbuf_t" where
  "point_net r cfg hw =
     (let conv = (\<lambda>x. net_convert x (Some (net_chart_unit cfg)) (nref_of cfg hw))
      in run_if (has_chart cfg ''net'')
           [real_or_null (r_net_valid r) ''nr'' (conv (r_net_rx_bps r)),
            real_or_null (r_net_valid r) ''nt'' (conv (r_net_tx_bps r))])"

definition json_serialize_point :: "db_row_t \<Rightarrow> config_t \<Rightarrow> hw_t \<Rightarrow> jbuf_t \<Rightarrow> jbuf_t" where
  "json_serialize_point r cfg hw = run
     [jbuf_long ''t'' (r_unix_time r),
      point_load r cfg hw, point_cpu r cfg, point_memory r cfg, point_swap r cfg,
      point_swap_io r cfg, point_disk r cfg, point_temp r cfg hw, point_net r cfg hw,
      jbuf_real ''up'' (r_uptime_seconds r)]"

end
