(* ===== verification/Http.thy ===== *)
theory Http
  imports Json Downsample
begin

text \<open>
  \<open>src/http.c\<close>: what the server reads of the host at startup, the request handlers, and the slots of
  the live streams. A handler is a function from what it asks (the database, the query string as
  \<open>mg_get_var\<close> decodes it, whether a write reached the client) to the status it returns and the
  calls it makes on the connection, in order. \<open>lmax\<close> and \<open>umax\<close> are \<open>LONG_MAX\<close> and \<open>ULONG_MAX\<close>.
\<close>

subsection \<open>The host\<close>

text \<open>\<open>strtoul\<close> where the text starts with a digit: the value, saturated, and the rest.\<close>

definition cpu_number :: "int \<Rightarrow> string \<Rightarrow> int \<times> string" where
  "cpu_number umax s =
     (min umax (int (digits_val 0 (takeWhile c_isdigit s))), dropWhile c_isdigit s)"

text \<open>One entry: how many CPUs it stands for, and the rest; \<open>None\<close> when it does not parse.\<close>

definition cpu_entry :: "int \<Rightarrow> string \<Rightarrow> (int \<times> string) option" where
  "cpu_entry umax s =
     (if \<not> c_isdigit (ch0 s) then None
      else case cpu_number umax s of (lo, rest) \<Rightarrow>
        if ch0 rest \<noteq> CHR ''-'' then Some (1, rest)
        else if \<not> c_isdigit (ch1 rest) then None
        else case cpu_number umax (tl rest) of (hi, rest') \<Rightarrow>
          if hi < lo then None
          else Some (to_signed 32 ((hi - lo + 1) mod (umax + 1)), rest'))"

lemma cpu_entry_shorter: "cpu_entry umax s = Some (k, r) \<Longrightarrow> length r < length s"
proof -
  have d: "length (dropWhile c_isdigit t) \<le> length t" for t by (rule length_dropWhile_le)
  have "c_isdigit (ch0 s) \<Longrightarrow> length (dropWhile c_isdigit s) < length s"
    by (cases s) (simp_all add: d le_imp_less_Suc c_isdigit_def [of "CHR 0x00"])
  then show "cpu_entry umax s = Some (k, r) \<Longrightarrow> length r < length s"
    using d [of "tl (dropWhile c_isdigit s)"]
    by (auto simp: cpu_entry_def cpu_number_def split: if_splits)
qed

function count_cpulist_from :: "int \<Rightarrow> int \<Rightarrow> string \<Rightarrow> int" where
  "count_cpulist_from umax n s =
     (case cpu_entry umax s of
        None \<Rightarrow> - 1
      | Some (k, rest) \<Rightarrow>
          if ch0 rest \<noteq> CHR '','' then (if ch0 rest = NEWLINE \<or> rest = [] then n + k else - 1)
          else count_cpulist_from umax (n + k) (tl rest))"
  by pat_completeness auto
termination
proof (relation "measure (\<lambda>(umax, n, s). length s)", goal_cases)
  case (2 umax n s x k rest)
  then have "length rest < length s" by (auto dest: cpu_entry_shorter)
  then show ?case by (cases rest) auto
qed simp

declare count_cpulist_from.simps [simp del]

definition count_cpulist :: "int \<Rightarrow> string \<Rightarrow> int" where
  "count_cpulist umax s = count_cpulist_from umax 0 s"

definition read_num_cores :: "int \<Rightarrow> procfile \<Rightarrow> int" where
  "read_num_cores umax f =
     (case f of
        None \<Rightarrow> 1
      | Some s \<Rightarrow>
          let n = (case fgets 64 s of
                     None \<Rightarrow> - 1
                   | Some (buf, _) \<Rightarrow> if NEWLINE \<in> set buf then count_cpulist umax buf else - 1)
          in if n > 0 then n else 1)"

text \<open>The trip points \<open>i\<close>, \<open>i + 1\<close>, and so on, \<open>k\<close> of them: the type and the temperature file of each.\<close>

fun scan_trips :: "int \<Rightarrow> (nat \<Rightarrow> procfile) \<Rightarrow> (nat \<Rightarrow> procfile) \<Rightarrow> nat \<Rightarrow> nat \<Rightarrow> double option" where
  "scan_trips lmax types temps i 0 = None"
| "scan_trips lmax types temps i (Suc k) =
     (case types i of
        None \<Rightarrow> None
      | Some s \<Rightarrow>
          (case fgets 32 s of
             None \<Rightarrow> scan_trips lmax types temps (i + 1) k
           | Some (type, _) \<Rightarrow>
               if chop_line type \<noteq> ''critical'' then scan_trips lmax types temps (i + 1) k
               else (case temps i of
                       None \<Rightarrow> None
                     | Some t \<Rightarrow>
                         (case fgets 32 t of
                            None \<Rightarrow> None
                          | Some (buf, _) \<Rightarrow>
                              (case strtol lmax buf of (md, rest) \<Rightarrow>
                                 if rest \<noteq> buf \<and> md > 0 then Some (dbl_of_int md div Fin 1000) else None)))))"

definition read_temp_critical :: "int \<Rightarrow> (nat \<Rightarrow> procfile) \<Rightarrow> (nat \<Rightarrow> procfile) \<Rightarrow> hw_t \<Rightarrow> hw_t" where
  "read_temp_critical lmax types temps hw =
     (case scan_trips lmax types temps 0 16 of
        None \<Rightarrow> hw\<lparr>temp_critical_valid := False\<rparr>
      | Some t \<Rightarrow> hw\<lparr>temp_critical_valid := True, temp_critical := t\<rparr>)"

subsection \<open>Answers\<close>

text \<open>\<open>mg_printf\<close>, \<open>mg_send_http_ok\<close> with the type and the length announced, and \<open>mg_write\<close>.\<close>

datatype call = Printf string | Http_ok string nat | Write string

type_synonym answer = "int \<times> call list"

definition crlf :: string where "crlf = [CHR 0x0D, CHR 0x0A]"

text \<open>A short JSON error: the status line and the body.\<close>

definition error_answer :: "int \<Rightarrow> string \<Rightarrow> string \<Rightarrow> answer" where
  "error_answer status line e =
     (status, [Printf (''HTTP/1.1 '' @ line @ crlf @ ''Content-Type: application/json'' @ crlf @
        ''Content-Length: '' @ show_nat (length e) @ crlf @ crlf @ e)])"

definition error_body :: "string \<Rightarrow> string" where
  "error_body what = ''{'' @ quote ''error'' @ '':'' @ quote what @ ''}''"

definition internal_error :: "string \<Rightarrow> answer" where
  "internal_error what = error_answer 500 ''500 Internal Server Error'' (error_body what)"

definition handler_root :: "string \<Rightarrow> answer" where
  "handler_root index_html =
     (200, [Http_ok ''text/html; charset=utf-8'' (length index_html), Write index_html])"

definition health_body :: "string \<Rightarrow> string" where
  "health_body version =
     ''{'' @ quote ''status'' @ '':'' @ quote ''ok'' @ '','' @ quote ''version'' @ '':'' @ quote version @ ''}''"

definition handler_health :: "string \<Rightarrow> answer" where
  "handler_health version =
     (200, [Http_ok ''application/json'' (length (health_body version)), Write (health_body version)])"

definition send_json :: "jbuf_t \<Rightarrow> answer" where
  "send_json j =
     (if overflow j then internal_error ''response too large''
      else (200, [Http_ok ''application/json'' (length (out j)), Write (out j)]))"

text \<open>The calls so far with the count of elements that have gone out.\<close>

definition emit_part :: "jbuf_t \<Rightarrow> call list \<times> nat \<Rightarrow> call list \<times> nat" where
  "emit_part j st =
     (case st of (calls, emitted) \<Rightarrow>
        if overflow j then (calls, emitted)
        else (calls @ (if emitted > 0 then [Write '','', Write (out j)] else [Write (out j)]), emitted + 1))"

definition current_json :: "db_row_t \<Rightarrow> config_t \<Rightarrow> hw_t \<Rightarrow> jbuf_t" where
  "current_json row cfg hw =
     jbuf_end (json_serialize_current row cfg hw (jbuf_begin (jbuf_init JSON_CURRENT_CAP)))"

definition handler_current :: "config_t \<Rightarrow> hw_t \<Rightarrow> int \<times> db_row_t option \<Rightarrow> answer" where
  "handler_current cfg hw cur =
     (case cur of (ret, row) \<Rightarrow>
        if ret = 1 then error_answer 503 ''503 Service Unavailable'' (error_body ''no data collected yet'')
        else if ret < 0 then internal_error ''database error''
        else (case row of Some r \<Rightarrow> send_json (current_json r cfg hw) | None \<Rightarrow> internal_error ''database error''))"

subsection \<open>The time series\<close>

text \<open>The query string as \<open>mg_get_var\<close> leaves it in the two buffers: empty when the variable is
  missing or too long.\<close>

record query_vars =
  range_var :: string
  points_var :: string

definition pick_range :: "string list \<Rightarrow> string \<Rightarrow> string" where
  "pick_range rs v =
     (if in_list v rs then v
      else case rs of r # _ \<Rightarrow> fst (snprintf 16 r) | [] \<Rightarrow> ''1d'')"

definition range_seconds_of :: "int \<Rightarrow> string \<Rightarrow> int" where
  "range_seconds_of lmax s =
     (case strtol lmax s of (n, rest) \<Rightarrow>
        let rsec = (if n > 0 then
                      (if ch0 rest = CHR ''h'' then n * 3600
                       else if ch0 rest = CHR ''d'' then n * 86400
                       else if ch0 rest = CHR ''m'' then n * 60 else 0)
                    else 0)
        in if rsec \<le> 0 then 86400 else rsec)"

definition points_of :: "int \<Rightarrow> string \<Rightarrow> int" where
  "points_of lmax v =
     (if v = [] then 0
      else let p = (if fst (strtol lmax v) > 1440 then 1440 else fst (strtol lmax v))
           in if p > 0 then p else 0)"

text \<open>The answers of the database: of \<open>db_count_range\<close>, and of \<open>db_query_range\<close> for a bucket size.\<close>

record series_db =
  count_range :: "int \<Rightarrow> int"
  query_range :: "int \<Rightarrow> int \<Rightarrow> db_row_t list option"

definition point_json :: "db_row_t \<Rightarrow> config_t \<Rightarrow> hw_t \<Rightarrow> jbuf_t" where
  "point_json row cfg hw =
     jbuf_end (json_serialize_point row cfg hw (jbuf_begin (jbuf_init JSON_POINT_CAP)))"

definition series_head :: "string \<Rightarrow> string" where
  "series_head range_str =
     ''HTTP/1.1 200 OK'' @ crlf @ ''Content-Type: application/json'' @ crlf @
     ''Connection: close'' @ crlf @ crlf @
     ''{'' @ quote ''range'' @ '':'' @ quote range_str @ '','' @ quote ''points'' @ '':[''"

definition series_calls :: "string \<Rightarrow> db_row_t list \<Rightarrow> config_t \<Rightarrow> hw_t \<Rightarrow> call list" where
  "series_calls range_str rows cfg hw =
     (let parts = fst (fold (\<lambda>row. emit_part (point_json row cfg hw)) rows ([], 0));
          units = fst (emit_part (json_serialize_units rows cfg (jbuf_init JSON_UNITS_CAP)) ([], 1))
      in [Printf (series_head range_str)] @ parts @ [Write '']''] @ units @ [Write ''}''])"

definition handler_metrics :: "int \<Rightarrow> query_vars \<Rightarrow> series_db \<Rightarrow> config_t \<Rightarrow> hw_t \<Rightarrow> answer" where
  "handler_metrics lmax q db cfg hw =
     (let range_str = pick_range (ranges cfg) (range_var q);
          rsec = range_seconds_of lmax range_str;
          points = points_of lmax (points_var q);
          bucket = pick_bucket lmax rsec (interval_seconds cfg) points (count_range db rsec)
      in case query_range db rsec bucket of
           None \<Rightarrow> internal_error ''database error''
         | Some rows \<Rightarrow> (200, series_calls range_str rows cfg hw))"

subsection \<open>The slots of the live streams\<close>

definition SSE_RESERVE_MIN :: int where "SSE_RESERVE_MIN = 2"
definition SSE_RESERVE_RATIO :: int where "SSE_RESERVE_RATIO = 16"

definition sse_reserve :: "int \<Rightarrow> int" where
  "sse_reserve max_dash =
     (let reserve = c_div max_dash SSE_RESERVE_RATIO
      in if reserve > SSE_RESERVE_MIN then reserve else SSE_RESERVE_MIN)"

text \<open>
  A worker of the pool between two of its accesses to the shared counter: not in \<open>handler_stream\<close>,
  in the loop of \<open>sse_acquire\<close> with the value it has seen, refused, or in \<open>stream_loop\<close>.
\<close>

datatype worker = Idle | Trying int | Refused | Streaming

text \<open>One turn of a worker: the counter and the worker afterwards. A weak compare-and-swap may fail
  although the values agree (\<open>spurious\<close>); when it fails it reads the counter again.\<close>

fun sse_turn :: "int \<Rightarrow> bool \<Rightarrow> int \<Rightarrow> worker \<Rightarrow> int \<times> worker" where
  "sse_turn max_dash spurious active Idle = (active, Trying active)"
| "sse_turn max_dash spurious active (Trying seen) =
     (if seen \<ge> max_dash then (active, Refused)
      else if active = seen \<and> \<not> spurious then (active + 1, Streaming)
      else (active, Trying active))"
| "sse_turn max_dash spurious active Refused = (active, Idle)"
| "sse_turn max_dash spurious active Streaming = (active - 1, Idle)"

text \<open>The pool of \<open>n\<close> workers, whose turns interleave in any order.\<close>

inductive sse_run :: "int \<Rightarrow> nat \<Rightarrow> int \<Rightarrow> worker list \<Rightarrow> bool" for max_dash n where
  sse_start: "sse_run max_dash n 0 (replicate n Idle)"
| sse_step: "sse_run max_dash n active ws \<Longrightarrow> i < n \<Longrightarrow>
    sse_turn max_dash spurious active (ws ! i) = (active', w) \<Longrightarrow>
    sse_run max_dash n active' (ws[i := w])"

subsection \<open>A live stream\<close>

definition frame_text :: "jbuf_t \<Rightarrow> string" where
  "frame_text j = ''data: '' @ out j @ [NEWLINE, NEWLINE]"

text \<open>0 or -1, and the text offered to the connection; \<open>sent\<close>: the write reached the client.\<close>

definition stream_frame :: "jbuf_t \<Rightarrow> bool \<Rightarrow> int \<times> string list" where
  "stream_frame j sent =
     (if overflow j then (0, []) else (if sent then 0 else - 1, [frame_text j]))"

definition keepalive_text :: string where
  "keepalive_text = '': keepalive'' @ [NEWLINE, NEWLINE]"

text \<open>What one turn of the loop meets: the database, the connection, and when the server stops.\<close>

record frame_env =
  frame_cur :: "int \<times> db_row_t option"
  frame_sent :: bool
  stop_at :: "nat \<Rightarrow> bool"
  ka_sent :: "nat \<Rightarrow> bool"

text \<open>The ticks from \<open>i\<close> on: the keepalives written, and whether the stream ends, because the client
  has gone or the server stops. \<open>stop_at i\<close> is the flag as it is read before tick \<open>i\<close>, or after the
  last one.\<close>

function wait_ticks :: "nat \<Rightarrow> int \<Rightarrow> bool \<Rightarrow> frame_env \<Rightarrow> nat \<Rightarrow> string list \<times> bool" where
  "wait_ticks refresh ka ka_active env i =
     (if refresh < i \<or> stop_at env i then ([], stop_at env i)
      else if ka_active \<and> c_mod (int i) ka = 0
      then (if ka_sent env i
            then (case wait_ticks refresh ka ka_active env (i + 1) of (ws, g) \<Rightarrow> (keepalive_text # ws, g))
            else ([keepalive_text], True))
      else wait_ticks refresh ka ka_active env (i + 1))"
  by pat_completeness auto
termination
  by (relation "measure (\<lambda>(refresh, ka, ka_active, env, i). Suc refresh - i)") auto

declare wait_ticks.simps [simp del]

text \<open>One turn: the texts written, and whether the loop goes on.\<close>

definition stream_turn :: "config_t \<Rightarrow> hw_t \<Rightarrow> frame_env \<Rightarrow> string list \<times> bool" where
  "stream_turn cfg hw env =
     (case (if fst (frame_cur env) \<noteq> 0 then (0, [])
            else case snd (frame_cur env) of
                   None \<Rightarrow> (0, [])
                 | Some row \<Rightarrow> stream_frame (current_json row cfg hw) (frame_sent env)) of
        (rc, texts) \<Rightarrow>
          if rc < 0 then (texts, False)
          else let ka = sse_keepalive_seconds cfg;
                   ka_active = (ka > 0 \<and> ka < refresh_seconds cfg)
               in case wait_ticks (nat (refresh_seconds cfg)) ka ka_active env 1 of
                    (ws, leave) \<Rightarrow> (texts @ ws, \<not> leave))"

fun stream_loop :: "config_t \<Rightarrow> hw_t \<Rightarrow> frame_env list \<Rightarrow> string list" where
  "stream_loop cfg hw [] = []"
| "stream_loop cfg hw (e # es) =
     (case stream_turn cfg hw e of
        (texts, goes_on) \<Rightarrow> texts @ (if goes_on then stream_loop cfg hw es else []))"

definition refused_text :: string where
  "refused_text = ''HTTP/1.1 503 Service Unavailable'' @ crlf @ ''Retry-After: 30'' @ crlf @
     ''Content-Length: 0'' @ crlf @ ''Connection: close'' @ crlf @ crlf"

definition stream_head :: string where
  "stream_head = ''HTTP/1.1 200 OK'' @ crlf @ ''Content-Type: text/event-stream'' @ crlf @
     ''Cache-Control: no-cache'' @ crlf @ ''Connection: keep-alive'' @ crlf @ crlf"

text \<open>\<open>acquired\<close> is what \<open>sse_acquire\<close> returned.\<close>

definition handler_stream :: "bool \<Rightarrow> config_t \<Rightarrow> hw_t \<Rightarrow> frame_env list \<Rightarrow> answer" where
  "handler_stream acquired cfg hw envs =
     (if \<not> acquired then (503, [Printf refused_text])
      else (200, Printf stream_head # map Printf (stream_loop cfg hw envs)))"

subsection \<open>Starting and stopping\<close>

text \<open>What is read of the host at startup, and whether the server could bind.\<close>

record start_env =
  cpu_online :: procfile
  trip_type :: "nat \<Rightarrow> procfile"
  trip_temp :: "nat \<Rightarrow> procfile"
  link_dir :: "(string \<times> procfile) list option"
  mg_started :: bool

record http_ctx_t =
  ctx_hw :: hw_t
  sse_active :: int
  stopping :: bool
  mg :: bool

definition read_host :: "int \<Rightarrow> int \<Rightarrow> start_env \<Rightarrow> hw_t" where
  "read_host lmax umax env =
     (read_temp_critical lmax (trip_type env) (trip_temp env)
        \<lparr>num_cores = read_num_cores umax (cpu_online env), temp_critical_valid = False,
         temp_critical = Fin 0, detected_speed_mbit = 0\<rparr>)
     \<lparr>detected_speed_mbit := metrics_link_speed_mbit lmax (link_dir env)\<rparr>"

definition num_threads :: "config_t \<Rightarrow> int" where
  "num_threads cfg = max_dashboards cfg + sse_reserve (max_dashboards cfg)"

definition http_options :: "config_t \<Rightarrow> (string \<times> string) list" where
  "http_options cfg =
     [(''listening_ports'', listen cfg), (''num_threads'', fst (snprintf 16 (show_int (num_threads cfg)))),
      (''request_timeout_ms'', ''30000'')]"

definition http_start :: "int \<Rightarrow> int \<Rightarrow> start_env \<Rightarrow> int \<times> http_ctx_t" where
  "http_start lmax umax env =
     (if mg_started env then 0 else - 1,
      \<lparr>ctx_hw = read_host lmax umax env, sse_active = 0, stopping = False, mg = mg_started env\<rparr>)"

definition http_stop :: "http_ctx_t \<Rightarrow> http_ctx_t" where
  "http_stop ctx = ctx\<lparr>stopping := True, mg := False\<rparr>"

end
