(* ===== verification/ConfigLoad.thy ===== *)
theory ConfigLoad
  imports Config
begin

text \<open>
  \<open>config_load\<close> and \<open>config_open\<close> (\<open>src/config.c\<close>), section by section. The state is the
  configuration filled so far with the flag \<open>too_long\<close>; a section is \<open>None\<close> where the code
  returns -1 at once. \<open>toml_get\<close> and \<open>toml_seek\<close> are the look-ups of the vendored reader.
\<close>

type_synonym load_state = "config_t \<times> bool"

text \<open>\<open>SEEK doc ''table'' ''key''\<close> is \<open>toml_seek (root, "table.key")\<close>.\<close>

definition toml_get :: "toml \<Rightarrow> string \<Rightarrow> toml" where
  "toml_get v key =
     (case v of
        TOML_TABLE tab \<Rightarrow> (case map_of tab key of None \<Rightarrow> TOML_UNKNOWN | Some x \<Rightarrow> x)
      | _ \<Rightarrow> TOML_UNKNOWN)"

fun toml_seek :: "toml \<Rightarrow> string list \<Rightarrow> toml" where
  "toml_seek v [] = v"
| "toml_seek v (k # ks) = toml_seek (toml_get v k) ks"

definition seek2 :: "toml \<Rightarrow> string \<Rightarrow> string \<Rightarrow> toml" where
  "seek2 doc table key = toml_seek doc [table, key]"

subsection \<open>Server and collect\<close>

definition copy_field ::
    "string \<Rightarrow> nat \<Rightarrow> toml \<Rightarrow> (string \<Rightarrow> config_t) \<Rightarrow> bool \<Rightarrow> load_state" where
  "copy_field dst dsize v set_field too_long =
     (case str_copy dst dsize v of (s, failed) \<Rightarrow> (set_field s, too_long \<or> failed))"

definition load_max_dashboards :: "toml \<Rightarrow> config_t \<Rightarrow> config_t option" where
  "load_max_dashboards v cfg =
     (case v of
        TOML_INT64 n \<Rightarrow>
          if 1 \<le> n \<and> n \<le> 256 then Some (cfg\<lparr>max_dashboards := n\<rparr>)
          else if n < 1 then None else Some cfg
      | _ \<Rightarrow> Some cfg)"

definition load_keepalive :: "toml \<Rightarrow> config_t \<Rightarrow> config_t" where
  "load_keepalive v cfg =
     (case v of
        TOML_INT64 n \<Rightarrow> if n > 0 then cfg\<lparr>sse_keepalive_seconds := to_int n\<rparr> else cfg
      | _ \<Rightarrow> cfg)"

definition load_server :: "toml \<Rightarrow> load_state \<Rightarrow> load_state option" where
  "load_server doc st =
     (case st of (cfg, too_long) \<Rightarrow>
      case copy_field (listen cfg) 64 (seek2 doc ''server'' ''listen'')
             (\<lambda>s. cfg\<lparr>listen := s\<rparr>) too_long of (cfg, too_long) \<Rightarrow>
      case load_max_dashboards (seek2 doc ''server'' ''max_dashboards'') cfg of
        None \<Rightarrow> None
      | Some cfg \<Rightarrow> Some (load_keepalive (seek2 doc ''server'' ''sse_keepalive'') cfg, too_long))"

definition load_interval :: "toml \<Rightarrow> config_t \<Rightarrow> config_t option" where
  "load_interval v cfg =
     (case v of
        TOML_STRING s \<Rightarrow> None
      | TOML_INT64 n \<Rightarrow>
          if n < 1 then None
          else if n > 3600 then Some (cfg\<lparr>interval_seconds := 3600\<rparr>)
          else Some (cfg\<lparr>interval_seconds := n\<rparr>)
      | _ \<Rightarrow> Some cfg)"

definition is_string :: "toml \<Rightarrow> bool" where
  "is_string v = (case v of TOML_STRING _ \<Rightarrow> True | _ \<Rightarrow> False)"

definition load_collect :: "fs_env \<Rightarrow> toml \<Rightarrow> load_state \<Rightarrow> load_state option" where
  "load_collect env doc st =
     (case st of (cfg, too_long) \<Rightarrow>
      case load_interval (seek2 doc ''collect'' ''interval'') cfg of
        None \<Rightarrow> None
      | Some cfg \<Rightarrow>
      case copy_field (db_path cfg) 256 (seek2 doc ''collect'' ''db'')
             (\<lambda>s. cfg\<lparr>db_path := s\<rparr>) too_long of (cfg, too_long) \<Rightarrow>
      case copy_field (disk_path cfg) 256 (seek2 doc ''collect'' ''disk_path'')
             (\<lambda>s. cfg\<lparr>disk_path := s\<rparr>) too_long of (cfg, too_long) \<Rightarrow>
      if is_string (seek2 doc ''collect'' ''disk_path'') \<and> \<not> statvfs_ok env (disk_path cfg)
      then None else Some (cfg, too_long))"

subsection \<open>Webhook\<close>

definition load_skip_verify :: "toml \<Rightarrow> config_t \<Rightarrow> config_t" where
  "load_skip_verify v cfg =
     (case v of TOML_BOOLEAN b \<Rightarrow> cfg\<lparr>insecure_skip_verify := b\<rparr> | _ \<Rightarrow> cfg)"

definition load_ca_file :: "fs_env \<Rightarrow> toml \<Rightarrow> load_state \<Rightarrow> load_state option" where
  "load_ca_file env v st =
     (case st of (cfg, too_long) \<Rightarrow>
      case str_copy (ca_file cfg) 256 v of (s, failed) \<Rightarrow>
      let cfg = cfg\<lparr>ca_file := s\<rparr>; too_long = (too_long \<or> failed)
      in if is_string v \<and> \<not> failed \<and> insecure_skip_verify cfg then Some (cfg, too_long)
         else if is_string v \<and> \<not> failed then
           (if has_certificate env (ca_file cfg) \<le> 0 then None else Some (cfg, too_long))
         else Some (cfg, too_long))"

definition load_webhook :: "fs_env \<Rightarrow> toml \<Rightarrow> load_state \<Rightarrow> load_state option" where
  "load_webhook env doc st =
     (case st of (cfg, too_long) \<Rightarrow>
      load_ca_file env (seek2 doc ''webhook'' ''ca_file'')
        (load_skip_verify (seek2 doc ''webhook'' ''insecure_skip_verify'') cfg, too_long))"

subsection \<open>Dashboard\<close>

definition load_theme :: "toml \<Rightarrow> load_state \<Rightarrow> load_state" where
  "load_theme v st =
     (case st of (cfg, too_long) \<Rightarrow>
      case v of
        TOML_STRING s \<Rightarrow>
          if s \<in> {''light'', ''dark'', ''auto''}
          then copy_field (theme cfg) 8 v (\<lambda>s. cfg\<lparr>theme := s\<rparr>) too_long
          else st
      | _ \<Rightarrow> st)"

definition load_refresh :: "toml \<Rightarrow> config_t \<Rightarrow> config_t" where
  "load_refresh v cfg =
     (case v of
        TOML_INT64 n \<Rightarrow> if n > 0 then cfg\<lparr>refresh_seconds := to_int n\<rparr> else cfg
      | _ \<Rightarrow> cfg)"

definition load_look :: "toml \<Rightarrow> load_state \<Rightarrow> load_state" where
  "load_look doc st =
     (case st of (cfg, too_long) \<Rightarrow>
      case copy_field (title cfg) 128 (seek2 doc ''dashboard'' ''title'')
             (\<lambda>s. cfg\<lparr>title := s\<rparr>) too_long of (cfg, too_long) \<Rightarrow>
      let cfg = (case seek2 doc ''dashboard'' ''show_footer'' of
                   TOML_BOOLEAN b \<Rightarrow> cfg\<lparr>show_footer := b\<rparr> | _ \<Rightarrow> cfg)
      in case load_theme (seek2 doc ''dashboard'' ''theme'') (cfg, too_long) of (cfg, too_long) \<Rightarrow>
         (load_refresh (seek2 doc ''dashboard'' ''refresh'') cfg, too_long))"

definition load_unit ::
    "toml \<Rightarrow> string \<Rightarrow> nat \<Rightarrow> string list \<Rightarrow> (config_t \<Rightarrow> string) \<Rightarrow>
     ((string \<Rightarrow> string) \<Rightarrow> config_t \<Rightarrow> config_t) \<Rightarrow> config_t \<Rightarrow> config_t" where
  "load_unit doc key dsize allowed get_field upd cfg =
     upd (\<lambda>_. unit_copy (get_field cfg) dsize (seek2 doc ''dashboard'' key) allowed) cfg"

definition load_units :: "toml \<Rightarrow> config_t \<Rightarrow> config_t" where
  "load_units doc = fold (\<lambda>f. f)
     [load_unit doc ''memory_card_unit'' 16 SIZE_UNITS memory_card_unit memory_card_unit_update,
      load_unit doc ''memory_chart_unit'' 16 SIZE_UNITS memory_chart_unit memory_chart_unit_update,
      load_unit doc ''swap_card_unit'' 16 SIZE_UNITS swap_card_unit swap_card_unit_update,
      load_unit doc ''swap_chart_unit'' 16 SIZE_UNITS swap_chart_unit swap_chart_unit_update,
      load_unit doc ''swap_io_card_unit'' 16 SWAP_IO_UNITS swap_io_card_unit swap_io_card_unit_update,
      load_unit doc ''swap_io_chart_unit'' 16 SWAP_IO_UNITS swap_io_chart_unit swap_io_chart_unit_update,
      load_unit doc ''disk_card_unit'' 16 SIZE_UNITS disk_card_unit disk_card_unit_update,
      load_unit doc ''disk_chart_unit'' 16 SIZE_UNITS disk_chart_unit disk_chart_unit_update,
      load_unit doc ''cpu_load_card_unit'' 4 LOAD_UNITS cpu_load_card_unit cpu_load_card_unit_update,
      load_unit doc ''cpu_load_chart_unit'' 4 LOAD_UNITS cpu_load_chart_unit cpu_load_chart_unit_update,
      load_unit doc ''net_card_unit'' 8 NET_UNITS net_card_unit net_card_unit_update,
      load_unit doc ''net_chart_unit'' 8 NET_UNITS net_chart_unit net_chart_unit_update,
      load_unit doc ''uptime_unit'' 8 UPTIME_UNITS uptime_unit uptime_unit_update]"

definition load_net_max_speed :: "toml \<Rightarrow> config_t \<Rightarrow> config_t" where
  "load_net_max_speed v cfg =
     (case v of
        TOML_INT64 n \<Rightarrow> if 0 < n \<and> n \<le> 1000000 then cfg\<lparr>net_max_speed := n\<rparr> else cfg
      | _ \<Rightarrow> cfg)"

definition known_name :: "string \<Rightarrow> string list \<Rightarrow> bool" where
  "known_name x known = in_list x known"

text \<open>The names of charts or cards: the list so far, its count and \<open>too_long\<close>.\<close>

fun load_names ::
    "int \<Rightarrow> string list \<Rightarrow> toml list \<Rightarrow> string list \<times> int \<times> bool \<Rightarrow> string list \<times> int \<times> bool" where
  "load_names limit known [] st = st"
| "load_names limit known (e # es) (names, count, too_long) =
     (if count \<ge> limit then (names, count, too_long)
      else case e of
        TOML_STRING s \<Rightarrow>
          if length s \<ge> 16 then load_names limit known es (names, count, True)
          else if known_name s known then load_names limit known es (names @ [s], count + 1, too_long)
          else load_names limit known es (names, count, too_long)
      | _ \<Rightarrow> load_names limit known es (names, count, too_long))"

definition load_charts :: "toml \<Rightarrow> load_state \<Rightarrow> load_state" where
  "load_charts v st =
     (case st of (cfg, too_long) \<Rightarrow>
      case v of
        TOML_ARRAY [] \<Rightarrow> (cfg\<lparr>chart_count := - 1\<rparr>, too_long)
      | TOML_ARRAY es \<Rightarrow>
          (case load_names MAX_CHARTS CHART_NAMES es (charts cfg, chart_count cfg, too_long) of
             (names, count, too_long) \<Rightarrow> (cfg\<lparr>charts := names, chart_count := count\<rparr>, too_long))
      | _ \<Rightarrow> st)"

definition load_cards :: "toml \<Rightarrow> load_state \<Rightarrow> load_state" where
  "load_cards v st =
     (case st of (cfg, too_long) \<Rightarrow>
      case v of
        TOML_ARRAY [] \<Rightarrow> (cfg\<lparr>card_count := - 1\<rparr>, too_long)
      | TOML_ARRAY es \<Rightarrow>
          (case load_names MAX_CARDS CARD_NAMES es (cards cfg, card_count cfg, too_long) of
             (names, count, too_long) \<Rightarrow> (cfg\<lparr>cards := names, card_count := count\<rparr>, too_long))
      | _ \<Rightarrow> st)"

definition load_temp :: "toml \<Rightarrow> config_t \<Rightarrow> config_t" where
  "load_temp doc cfg =
     (let cfg = load_unit doc ''temp_card_unit'' 4 TEMP_UNITS temp_card_unit temp_card_unit_update cfg;
          cfg = load_unit doc ''temp_chart_unit'' 4 TEMP_UNITS temp_chart_unit temp_chart_unit_update cfg
      in case seek2 doc ''dashboard'' ''temp_critical_fallback'' of
           TOML_FP64 x \<Rightarrow> if x > Fin 0 then cfg\<lparr>temp_critical_fallback := x\<rparr> else cfg
         | TOML_INT64 n \<Rightarrow> if n > 0 then cfg\<lparr>temp_critical_fallback := dbl_of_int n\<rparr> else cfg
         | _ \<Rightarrow> cfg)"

text \<open>One entry of \<open>ranges\<close>: whether it is kept.\<close>

definition range_kept :: "int \<Rightarrow> int \<Rightarrow> toml \<Rightarrow> bool" where
  "range_kept lmax interval e =
     (case e of
        TOML_STRING s \<Rightarrow>
          if \<not> valid_range lmax s then False
          else if \<not> range_in_bounds lmax s then False
          else \<not> parse_duration lmax s < interval
      | _ \<Rightarrow> False)"

text \<open>An entry that does not fit its 8 bytes takes a slot, which keeps what it held.\<close>

fun copy_ranges :: "string list \<Rightarrow> nat \<Rightarrow> toml list \<Rightarrow> bool \<Rightarrow> string list \<times> bool" where
  "copy_ranges old i [] too_long = ([], too_long)"
| "copy_ranges old i (e # es) too_long =
     (case str_copy (if i < length old then old ! i else '''') 8 e of
        (s, failed) \<Rightarrow>
          (case copy_ranges old (i + 1) es (too_long \<or> failed) of (rs, t) \<Rightarrow> (s # rs, t)))"

definition load_ranges :: "int \<Rightarrow> toml \<Rightarrow> load_state \<Rightarrow> load_state option" where
  "load_ranges lmax v st =
     (case st of (cfg, too_long) \<Rightarrow>
      case v of
        TOML_ARRAY es \<Rightarrow>
          if length es > MAX_RANGES then None
          else if es = [] then Some st
          else (case filter (range_kept lmax (interval_seconds cfg)) es of
                  [] \<Rightarrow> None
                | kept \<Rightarrow>
                    (case copy_ranges (ranges cfg) 0 kept too_long of
                       (rs, t) \<Rightarrow> Some (cfg\<lparr>ranges := rs\<rparr>, t)))
      | _ \<Rightarrow> Some st)"

subsection \<open>Alerts\<close>

definition cooldown_of :: "int \<Rightarrow> toml \<Rightarrow> int" where
  "cooldown_of lmax v =
     (case v of
        TOML_STRING s \<Rightarrow> if parse_duration lmax s > 0 then parse_duration lmax s else 0
      | _ \<Rightarrow> 0)"

definition threshold_of :: "toml \<Rightarrow> double option" where
  "threshold_of v =
     (case v of TOML_FP64 x \<Rightarrow> Some x | TOML_INT64 n \<Rightarrow> Some (dbl_of_int n) | _ \<Rightarrow> None)"

definition check_alert :: "toml \<Rightarrow> (string \<times> string \<times> string \<times> double) option" where
  "check_alert e =
     (case (toml_get e ''name'', toml_get e ''metric'', toml_get e ''operator'') of
        (TOML_STRING n, TOML_STRING m, TOML_STRING op) \<Rightarrow>
          if op = ''=='' then None
          else if \<not> valid_op op then None
          else if \<not> in_list m METRIC_NAMES then None
          else (case threshold_of (toml_get e ''threshold'') of
                  None \<Rightarrow> None | Some t \<Rightarrow> Some (n, m, op, t))
      | _ \<Rightarrow> None)"

definition load_alert :: "int \<Rightarrow> toml \<Rightarrow> load_state \<Rightarrow> load_state option" where
  "load_alert lmax e st =
     (case st of (cfg, too_long) \<Rightarrow>
      case e of
        TOML_TABLE _ \<Rightarrow>
          (case check_alert e of
             None \<Rightarrow> None
           | Some (n, m, op, thr) \<Rightarrow>
               (case (str_copy '''' 64 (TOML_STRING n), str_copy '''' 32 (TOML_STRING m),
                      str_copy '''' 4 (TOML_STRING op), str_copy '''' 512 (toml_get e ''webhook''),
                      str_copy '''' 256 (toml_get e ''command'')) of
                  ((n', f1), (m', f2), (op', f3), (w, f4), (c, f5)) \<Rightarrow>
                    if w = '''' \<and> c = '''' then None
                    else Some (cfg\<lparr>alerts := alerts cfg @
                      [\<lparr>name = n', metric = m', operator = op', threshold = thr, webhook = w,
                        command = c, cooldown_seconds = cooldown_of lmax (toml_get e ''cooldown'')\<rparr>]\<rparr>,
                      too_long \<or> f1 \<or> f2 \<or> f3 \<or> f4 \<or> f5)))
      | _ \<Rightarrow> None)"

fun load_alert_list :: "int \<Rightarrow> toml list \<Rightarrow> load_state \<Rightarrow> load_state option" where
  "load_alert_list lmax [] st = Some st"
| "load_alert_list lmax (e # es) st =
     (if length (alerts (fst st)) \<ge> MAX_ALERTS then Some st
      else case load_alert lmax e st of None \<Rightarrow> None | Some st' \<Rightarrow> load_alert_list lmax es st')"

definition load_alerts :: "int \<Rightarrow> toml \<Rightarrow> load_state \<Rightarrow> load_state option" where
  "load_alerts lmax v st =
     (case v of
        TOML_ARRAY es \<Rightarrow> if length es > MAX_ALERTS then None else load_alert_list lmax es st
      | TOML_UNKNOWN \<Rightarrow> Some st
      | _ \<Rightarrow> None)"

subsection \<open>The whole file\<close>

definition load_dashboard :: "int \<Rightarrow> toml \<Rightarrow> load_state \<Rightarrow> load_state option" where
  "load_dashboard lmax doc st =
     (case load_look doc st of (cfg, too_long) \<Rightarrow>
      case load_charts (seek2 doc ''dashboard'' ''charts'')
             (load_net_max_speed (seek2 doc ''dashboard'' ''net_max_speed'') (load_units doc cfg), too_long)
        of (cfg, too_long) \<Rightarrow>
      case load_cards (seek2 doc ''dashboard'' ''cards'') (cfg, too_long) of (cfg, too_long) \<Rightarrow>
      load_ranges lmax (seek2 doc ''dashboard'' ''ranges'') (load_temp doc cfg, too_long))"

definition clamp_refresh :: "config_t \<Rightarrow> config_t" where
  "clamp_refresh cfg =
     (if refresh_seconds cfg > interval_seconds cfg
      then cfg\<lparr>refresh_seconds := interval_seconds cfg\<rparr> else cfg)"

text \<open>The parsed document, or \<open>None\<close> when the file does not open or parse; the result is the
  configuration, or \<open>None\<close> for -1.\<close>

definition config_load :: "int \<Rightarrow> fs_env \<Rightarrow> toml option \<Rightarrow> config_t \<Rightarrow> config_t option" where
  "config_load lmax env parsed cfg =
     (case parsed of None \<Rightarrow> None
      | Some doc \<Rightarrow>
          (case load_server doc (cfg, False) of None \<Rightarrow> None | Some st \<Rightarrow>
           case load_collect env doc st of None \<Rightarrow> None | Some st \<Rightarrow>
           case load_webhook env doc st of None \<Rightarrow> None | Some st \<Rightarrow>
           case load_dashboard lmax doc st of None \<Rightarrow> None | Some st \<Rightarrow>
           case load_alerts lmax (toml_seek doc [''alert'']) st of None \<Rightarrow> None
           | Some (cfg, too_long) \<Rightarrow> if too_long then None else Some (clamp_refresh cfg)))"

text \<open>\<open>readable\<close> is \<open>access (_, R_OK)\<close>, \<open>parse\<close> the reader on a path.\<close>

definition config_open ::
    "int \<Rightarrow> fs_env \<Rightarrow> (string \<Rightarrow> bool) \<Rightarrow> (string \<Rightarrow> toml option) \<Rightarrow> string option \<Rightarrow> config_t option" where
  "config_open lmax env readable parse explicit_path =
     (case explicit_path of
        Some p \<Rightarrow> config_load lmax env (parse p) config_defaults
      | None \<Rightarrow>
          if readable ''./config.toml''
          then config_load lmax env (parse ''./config.toml'') config_defaults
          else if readable ''/etc/minimoni/config.toml''
          then config_load lmax env (parse ''/etc/minimoni/config.toml'') config_defaults
          else Some config_defaults)"

end
