(* ===== verification/ConfigProps.thy ===== *)
theory ConfigProps
  imports ConfigLoad
begin

text \<open>
  What a loaded configuration promises to the rest of the program (\<open>config_ok\<close>), that durations
  stay small enough for 32-bit arithmetic, and that the did-you-mean distance is the Levenshtein
  distance.
\<close>

subsection \<open>Durations\<close>

lemma parse_duration_bounds:
  "parse_duration lmax s = - 1 \<or> (0 < parse_duration lmax s \<and> parse_duration lmax s \<le> 3653 * 86400)"
  by (auto simp: parse_duration_def split: prod.splits)

subsection \<open>What a loaded configuration promises\<close>

definition units_ok :: "config_t \<Rightarrow> bool" where
  "units_ok c =
     (memory_card_unit c \<in> set SIZE_UNITS \<and> memory_chart_unit c \<in> set SIZE_UNITS \<and>
      swap_card_unit c \<in> set SIZE_UNITS \<and> swap_chart_unit c \<in> set SIZE_UNITS \<and>
      swap_io_card_unit c \<in> set SWAP_IO_UNITS \<and> swap_io_chart_unit c \<in> set SWAP_IO_UNITS \<and>
      disk_card_unit c \<in> set SIZE_UNITS \<and> disk_chart_unit c \<in> set SIZE_UNITS \<and>
      temp_card_unit c \<in> set TEMP_UNITS \<and> temp_chart_unit c \<in> set TEMP_UNITS \<and>
      cpu_load_card_unit c \<in> set LOAD_UNITS \<and> cpu_load_chart_unit c \<in> set LOAD_UNITS \<and>
      net_card_unit c \<in> set NET_UNITS \<and> net_chart_unit c \<in> set NET_UNITS \<and>
      uptime_unit c \<in> set UPTIME_UNITS)"

definition numbers_ok :: "config_t \<Rightarrow> bool" where
  "numbers_ok c =
     (1 \<le> max_dashboards c \<and> max_dashboards c \<le> 256 \<and>
      1 \<le> sse_keepalive_seconds c \<and> sse_keepalive_seconds c \<le> INT_MAX \<and>
      1 \<le> interval_seconds c \<and> interval_seconds c \<le> 3600 \<and> 1 \<le> refresh_seconds c \<and>
      0 \<le> net_max_speed c \<and> net_max_speed c \<le> 1000000)"

definition texts_ok :: "config_t \<Rightarrow> bool" where
  "texts_ok c =
     (length (listen c) < 64 \<and> length (db_path c) < 256 \<and> length (disk_path c) < 256 \<and>
      length (ca_file c) < 256 \<and> length (title c) < 128 \<and>
      theme c \<in> {''light'', ''dark'', ''auto''})"

definition names_ok :: "string list \<Rightarrow> string list \<Rightarrow> int \<Rightarrow> bool" where
  "names_ok known names count =
     (set names \<subseteq> set known \<and> length names \<le> 16 \<and> (count = int (length names) \<or> count = - 1))"

definition ranges_ok :: "int \<Rightarrow> config_t \<Rightarrow> bool" where
  "ranges_ok lmax c =
     (ranges c \<noteq> [] \<and> length (ranges c) \<le> MAX_RANGES \<and>
      list_all (\<lambda>s. length s < 8 \<and> range_kept lmax (interval_seconds c) (TOML_STRING s)) (ranges c))"

definition alert_ok :: "alert_cfg_t \<Rightarrow> bool" where
  "alert_ok a =
     (length (name a) < 64 \<and> in_list (metric a) METRIC_NAMES \<and> valid_op (operator a) \<and>
      length (webhook a) < 512 \<and> length (command a) < 256 \<and> (webhook a \<noteq> '''' \<or> command a \<noteq> '''') \<and>
      0 \<le> cooldown_seconds a \<and> cooldown_seconds a \<le> 3653 * 86400)"

definition alerts_ok :: "config_t \<Rightarrow> bool" where
  "alerts_ok c = (length (alerts c) \<le> MAX_ALERTS \<and> list_all alert_ok (alerts c))"

definition lists_ok :: "config_t \<Rightarrow> bool" where
  "lists_ok c =
     (names_ok CHART_NAMES (charts c) (chart_count c) \<and> names_ok CARD_NAMES (cards c) (card_count c))"

definition config_ok :: "int \<Rightarrow> config_t \<Rightarrow> bool" where
  "config_ok lmax c =
     (numbers_ok c \<and> refresh_seconds c \<le> interval_seconds c \<and> texts_ok c \<and> units_ok c \<and>
      lists_ok c \<and> ranges_ok lmax c \<and> alerts_ok c)"

text \<open>The parts that every section keeps.\<close>

definition part_ok :: "config_t \<Rightarrow> bool" where
  "part_ok c = (numbers_ok c \<and> texts_ok c \<and> units_ok c \<and> lists_ok c)"

lemmas part_simps = part_ok_def numbers_ok_def texts_ok_def lists_ok_def

lemma str_copy_fits: "str_copy dst n v = (s, f) \<Longrightarrow> length dst < n \<Longrightarrow> length s < n"
  by (auto simp: str_copy_def split: toml.splits if_splits)

lemma to_int_pos: "0 < n \<Longrightarrow> 1 \<le> to_int n \<and> to_int n \<le> INT_MAX"
  using to_signed_id [of 32 n] by (auto simp: to_int_def INT_MAX_def)

lemma copy_field_elim:
  assumes "copy_field dst n v upd t = (c, t')" and "length dst < n"
  obtains s where "c = upd s" "length s < n"
proof -
  obtain s f where "str_copy dst n v = (s, f)" by fastforce
  then show thesis using that [of s] assms str_copy_fits by (auto simp: copy_field_def)
qed

text \<open>Setting one field to an admissible value keeps the rest.\<close>

lemma part_ok_set:
  "part_ok c \<Longrightarrow> length s < 64 \<Longrightarrow> part_ok (c\<lparr>listen := s\<rparr>)"
  "part_ok c \<Longrightarrow> length s < 256 \<Longrightarrow> part_ok (c\<lparr>db_path := s\<rparr>)"
  "part_ok c \<Longrightarrow> length s < 256 \<Longrightarrow> part_ok (c\<lparr>disk_path := s\<rparr>)"
  "part_ok c \<Longrightarrow> length s < 256 \<Longrightarrow> part_ok (c\<lparr>ca_file := s\<rparr>)"
  "part_ok c \<Longrightarrow> length s < 128 \<Longrightarrow> part_ok (c\<lparr>title := s\<rparr>)"
  "part_ok c \<Longrightarrow> s \<in> {''light'', ''dark'', ''auto''} \<Longrightarrow> part_ok (c\<lparr>theme := s\<rparr>)"
  "part_ok c \<Longrightarrow> 1 \<le> n \<Longrightarrow> n \<le> 256 \<Longrightarrow> part_ok (c\<lparr>max_dashboards := n\<rparr>)"
  "part_ok c \<Longrightarrow> 1 \<le> n \<Longrightarrow> n \<le> INT_MAX \<Longrightarrow> part_ok (c\<lparr>sse_keepalive_seconds := n\<rparr>)"
  "part_ok c \<Longrightarrow> 1 \<le> n \<Longrightarrow> n \<le> 3600 \<Longrightarrow> part_ok (c\<lparr>interval_seconds := n\<rparr>)"
  "part_ok c \<Longrightarrow> 1 \<le> n \<Longrightarrow> part_ok (c\<lparr>refresh_seconds := n\<rparr>)"
  "part_ok c \<Longrightarrow> 0 \<le> n \<Longrightarrow> n \<le> 1000000 \<Longrightarrow> part_ok (c\<lparr>net_max_speed := n\<rparr>)"
  "part_ok c \<Longrightarrow> part_ok (c\<lparr>insecure_skip_verify := b\<rparr>)"
  "part_ok c \<Longrightarrow> part_ok (c\<lparr>show_footer := b\<rparr>)"
  "part_ok c \<Longrightarrow> part_ok (c\<lparr>temp_critical_fallback := x\<rparr>)"
  "part_ok c \<Longrightarrow> part_ok (c\<lparr>ranges := rs\<rparr>)"
  "part_ok c \<Longrightarrow> part_ok (c\<lparr>alerts := al\<rparr>)"
  "part_ok c \<Longrightarrow> names_ok CHART_NAMES ns k \<Longrightarrow> part_ok (c\<lparr>charts := ns, chart_count := k\<rparr>)"
  "part_ok c \<Longrightarrow> names_ok CARD_NAMES ns k \<Longrightarrow> part_ok (c\<lparr>cards := ns, card_count := k\<rparr>)"
  "part_ok c \<Longrightarrow> part_ok (c\<lparr>chart_count := - 1\<rparr>)"
  "part_ok c \<Longrightarrow> part_ok (c\<lparr>card_count := - 1\<rparr>)"
  by (simp_all add: part_simps units_ok_def names_ok_def)

text \<open>What the later sections rely on: the fields a section does not touch.\<close>

definition same_rest :: "config_t \<Rightarrow> config_t \<Rightarrow> bool" where
  "same_rest c' c =
     (alerts c' = alerts c \<and> ranges c' = ranges c \<and> interval_seconds c' = interval_seconds c \<and>
      charts c' = charts c \<and> chart_count c' = chart_count c \<and>
      cards c' = cards c \<and> card_count c' = card_count c)"

lemma load_max_dashboards_ok:
  "load_max_dashboards v c = Some c' \<Longrightarrow> part_ok c \<Longrightarrow> part_ok c' \<and> same_rest c' c"
  by (cases v) (auto simp: load_max_dashboards_def same_rest_def part_ok_set split: if_splits)

lemma load_keepalive_ok: "part_ok c \<Longrightarrow> part_ok (load_keepalive v c) \<and> same_rest (load_keepalive v c) c"
  using to_int_pos by (cases v) (auto simp: load_keepalive_def same_rest_def part_ok_set)

lemma copy_listen_ok:
  assumes "part_ok c"
  shows "copy_field (listen c) 64 v (\<lambda>s. c\<lparr>listen := s\<rparr>) t = (c', t') \<Longrightarrow> part_ok c' \<and> same_rest c' c"
    and "copy_field (db_path c) 256 v (\<lambda>s. c\<lparr>db_path := s\<rparr>) t = (c', t') \<Longrightarrow> part_ok c' \<and> same_rest c' c"
    and "copy_field (disk_path c) 256 v (\<lambda>s. c\<lparr>disk_path := s\<rparr>) t = (c', t') \<Longrightarrow> part_ok c' \<and> same_rest c' c"
    and "copy_field (title c) 128 v (\<lambda>s. c\<lparr>title := s\<rparr>) t = (c', t') \<Longrightarrow> part_ok c' \<and> same_rest c' c"
proof -
  have l: "length (listen c) < 64" "length (db_path c) < 256" "length (disk_path c) < 256" "length (title c) < 128"
    using assms by (simp_all add: part_simps)
  note set_field = part_ok_set(1-5) [OF assms]
  show "copy_field (listen c) 64 v (\<lambda>s. c\<lparr>listen := s\<rparr>) t = (c', t') \<Longrightarrow> part_ok c' \<and> same_rest c' c"
    by (erule copy_field_elim [OF _ l(1)]) (simp add: set_field same_rest_def)
  show "copy_field (db_path c) 256 v (\<lambda>s. c\<lparr>db_path := s\<rparr>) t = (c', t') \<Longrightarrow> part_ok c' \<and> same_rest c' c"
    by (erule copy_field_elim [OF _ l(2)]) (simp add: set_field same_rest_def)
  show "copy_field (disk_path c) 256 v (\<lambda>s. c\<lparr>disk_path := s\<rparr>) t = (c', t') \<Longrightarrow> part_ok c' \<and> same_rest c' c"
    by (erule copy_field_elim [OF _ l(3)]) (simp add: set_field same_rest_def)
  show "copy_field (title c) 128 v (\<lambda>s. c\<lparr>title := s\<rparr>) t = (c', t') \<Longrightarrow> part_ok c' \<and> same_rest c' c"
    by (erule copy_field_elim [OF _ l(4)]) (simp add: set_field same_rest_def)
qed

lemma same_rest_trans: "same_rest a b \<Longrightarrow> same_rest b c \<Longrightarrow> same_rest a c"
  by (simp add: same_rest_def)

lemma load_server_ok:
  assumes "load_server doc (c, t) = Some (c', t')" and "part_ok c"
  shows "part_ok c' \<and> same_rest c' c"
proof -
  obtain c1 t1 where c1: "copy_field (listen c) 64 (seek2 doc ''server'' ''listen'') (\<lambda>s. c\<lparr>listen := s\<rparr>) t = (c1, t1)"
    by fastforce
  note c1_ok = copy_listen_ok(1) [OF assms(2) c1]
  obtain c2 where c2: "load_max_dashboards (seek2 doc ''server'' ''max_dashboards'') c1 = Some c2"
    and c': "c' = load_keepalive (seek2 doc ''server'' ''sse_keepalive'') c2"
    using assms(1) by (auto simp: load_server_def c1 split: option.splits)
  note c2_ok = load_max_dashboards_ok [OF c2]
  show ?thesis using c1_ok c2_ok load_keepalive_ok [of c2] same_rest_trans unfolding c' by blast
qed

lemma part_ok_unit:
  "part_ok c \<Longrightarrow> u \<in> set SIZE_UNITS \<Longrightarrow> part_ok (c\<lparr>memory_card_unit := u\<rparr>)"
  "part_ok c \<Longrightarrow> u \<in> set SIZE_UNITS \<Longrightarrow> part_ok (c\<lparr>memory_chart_unit := u\<rparr>)"
  "part_ok c \<Longrightarrow> u \<in> set SIZE_UNITS \<Longrightarrow> part_ok (c\<lparr>swap_card_unit := u\<rparr>)"
  "part_ok c \<Longrightarrow> u \<in> set SIZE_UNITS \<Longrightarrow> part_ok (c\<lparr>swap_chart_unit := u\<rparr>)"
  "part_ok c \<Longrightarrow> u \<in> set SWAP_IO_UNITS \<Longrightarrow> part_ok (c\<lparr>swap_io_card_unit := u\<rparr>)"
  "part_ok c \<Longrightarrow> u \<in> set SWAP_IO_UNITS \<Longrightarrow> part_ok (c\<lparr>swap_io_chart_unit := u\<rparr>)"
  "part_ok c \<Longrightarrow> u \<in> set SIZE_UNITS \<Longrightarrow> part_ok (c\<lparr>disk_card_unit := u\<rparr>)"
  "part_ok c \<Longrightarrow> u \<in> set SIZE_UNITS \<Longrightarrow> part_ok (c\<lparr>disk_chart_unit := u\<rparr>)"
  "part_ok c \<Longrightarrow> u \<in> set LOAD_UNITS \<Longrightarrow> part_ok (c\<lparr>cpu_load_card_unit := u\<rparr>)"
  "part_ok c \<Longrightarrow> u \<in> set LOAD_UNITS \<Longrightarrow> part_ok (c\<lparr>cpu_load_chart_unit := u\<rparr>)"
  "part_ok c \<Longrightarrow> u \<in> set NET_UNITS \<Longrightarrow> part_ok (c\<lparr>net_card_unit := u\<rparr>)"
  "part_ok c \<Longrightarrow> u \<in> set NET_UNITS \<Longrightarrow> part_ok (c\<lparr>net_chart_unit := u\<rparr>)"
  "part_ok c \<Longrightarrow> u \<in> set UPTIME_UNITS \<Longrightarrow> part_ok (c\<lparr>uptime_unit := u\<rparr>)"
  "part_ok c \<Longrightarrow> u \<in> set TEMP_UNITS \<Longrightarrow> part_ok (c\<lparr>temp_card_unit := u\<rparr>)"
  "part_ok c \<Longrightarrow> u \<in> set TEMP_UNITS \<Longrightarrow> part_ok (c\<lparr>temp_chart_unit := u\<rparr>)"
  by (simp_all add: part_simps units_ok_def)

lemma unit_copy_in:
  "dst \<in> set allowed \<Longrightarrow> list_all (\<lambda>s. length s < n) allowed \<Longrightarrow> unit_copy dst n v allowed \<in> set allowed"
  by (cases v) (auto simp: unit_copy_def snprintf_def list_all_iff)

lemmas unit_lists = SIZE_UNITS_def TEMP_UNITS_def LOAD_UNITS_def NET_UNITS_def SWAP_IO_UNITS_def
  UPTIME_UNITS_def

lemma unit_sizes:
  "list_all (\<lambda>s. length s < 16) SIZE_UNITS"
  "list_all (\<lambda>s. length s < 16) SWAP_IO_UNITS"
  "list_all (\<lambda>s. length s < 4) LOAD_UNITS"
  "list_all (\<lambda>s. length s < 8) NET_UNITS"
  "list_all (\<lambda>s. length s < 8) UPTIME_UNITS"
  "list_all (\<lambda>s. length s < 4) TEMP_UNITS"
  by (simp_all add: unit_lists)

lemma load_unit_ok:
  assumes "part_ok c"
  shows "part_ok (load_unit doc key 16 SIZE_UNITS memory_card_unit memory_card_unit_update c)"
    and "part_ok (load_unit doc key 16 SIZE_UNITS memory_chart_unit memory_chart_unit_update c)"
    and "part_ok (load_unit doc key 16 SIZE_UNITS swap_card_unit swap_card_unit_update c)"
    and "part_ok (load_unit doc key 16 SIZE_UNITS swap_chart_unit swap_chart_unit_update c)"
    and "part_ok (load_unit doc key 16 SWAP_IO_UNITS swap_io_card_unit swap_io_card_unit_update c)"
    and "part_ok (load_unit doc key 16 SWAP_IO_UNITS swap_io_chart_unit swap_io_chart_unit_update c)"
    and "part_ok (load_unit doc key 16 SIZE_UNITS disk_card_unit disk_card_unit_update c)"
    and "part_ok (load_unit doc key 16 SIZE_UNITS disk_chart_unit disk_chart_unit_update c)"
    and "part_ok (load_unit doc key 4 LOAD_UNITS cpu_load_card_unit cpu_load_card_unit_update c)"
    and "part_ok (load_unit doc key 4 LOAD_UNITS cpu_load_chart_unit cpu_load_chart_unit_update c)"
    and "part_ok (load_unit doc key 8 NET_UNITS net_card_unit net_card_unit_update c)"
    and "part_ok (load_unit doc key 8 NET_UNITS net_chart_unit net_chart_unit_update c)"
    and "part_ok (load_unit doc key 8 UPTIME_UNITS uptime_unit uptime_unit_update c)"
    and "part_ok (load_unit doc key 4 TEMP_UNITS temp_card_unit temp_card_unit_update c)"
    and "part_ok (load_unit doc key 4 TEMP_UNITS temp_chart_unit temp_chart_unit_update c)"
proof -
  have u: "units_ok c" using assms by (simp add: part_ok_def)
  show "part_ok (load_unit doc key 16 SIZE_UNITS memory_card_unit memory_card_unit_update c)"
    and "part_ok (load_unit doc key 16 SIZE_UNITS memory_chart_unit memory_chart_unit_update c)"
    and "part_ok (load_unit doc key 16 SIZE_UNITS swap_card_unit swap_card_unit_update c)"
    and "part_ok (load_unit doc key 16 SIZE_UNITS swap_chart_unit swap_chart_unit_update c)"
    and "part_ok (load_unit doc key 16 SWAP_IO_UNITS swap_io_card_unit swap_io_card_unit_update c)"
    and "part_ok (load_unit doc key 16 SWAP_IO_UNITS swap_io_chart_unit swap_io_chart_unit_update c)"
    and "part_ok (load_unit doc key 16 SIZE_UNITS disk_card_unit disk_card_unit_update c)"
    and "part_ok (load_unit doc key 16 SIZE_UNITS disk_chart_unit disk_chart_unit_update c)"
    and "part_ok (load_unit doc key 4 LOAD_UNITS cpu_load_card_unit cpu_load_card_unit_update c)"
    and "part_ok (load_unit doc key 4 LOAD_UNITS cpu_load_chart_unit cpu_load_chart_unit_update c)"
    and "part_ok (load_unit doc key 8 NET_UNITS net_card_unit net_card_unit_update c)"
    and "part_ok (load_unit doc key 8 NET_UNITS net_chart_unit net_chart_unit_update c)"
    and "part_ok (load_unit doc key 8 UPTIME_UNITS uptime_unit uptime_unit_update c)"
    and "part_ok (load_unit doc key 4 TEMP_UNITS temp_card_unit temp_card_unit_update c)"
    and "part_ok (load_unit doc key 4 TEMP_UNITS temp_chart_unit temp_chart_unit_update c)"
    unfolding load_unit_def
    by (intro part_ok_unit unit_copy_in unit_sizes assms; use u in \<open>simp add: units_ok_def\<close>)+
qed

lemma load_unit_rest [simp]:
  "same_rest (load_unit doc key n allowed memory_card_unit memory_card_unit_update c) d = same_rest c d"
  "same_rest (load_unit doc key n allowed memory_chart_unit memory_chart_unit_update c) d = same_rest c d"
  "same_rest (load_unit doc key n allowed swap_card_unit swap_card_unit_update c) d = same_rest c d"
  "same_rest (load_unit doc key n allowed swap_chart_unit swap_chart_unit_update c) d = same_rest c d"
  "same_rest (load_unit doc key n allowed swap_io_card_unit swap_io_card_unit_update c) d = same_rest c d"
  "same_rest (load_unit doc key n allowed swap_io_chart_unit swap_io_chart_unit_update c) d = same_rest c d"
  "same_rest (load_unit doc key n allowed disk_card_unit disk_card_unit_update c) d = same_rest c d"
  "same_rest (load_unit doc key n allowed disk_chart_unit disk_chart_unit_update c) d = same_rest c d"
  "same_rest (load_unit doc key n allowed cpu_load_card_unit cpu_load_card_unit_update c) d = same_rest c d"
  "same_rest (load_unit doc key n allowed cpu_load_chart_unit cpu_load_chart_unit_update c) d = same_rest c d"
  "same_rest (load_unit doc key n allowed net_card_unit net_card_unit_update c) d = same_rest c d"
  "same_rest (load_unit doc key n allowed net_chart_unit net_chart_unit_update c) d = same_rest c d"
  "same_rest (load_unit doc key n allowed uptime_unit uptime_unit_update c) d = same_rest c d"
  "same_rest (load_unit doc key n allowed temp_card_unit temp_card_unit_update c) d = same_rest c d"
  "same_rest (load_unit doc key n allowed temp_chart_unit temp_chart_unit_update c) d = same_rest c d"
  by (simp_all add: load_unit_def same_rest_def)

lemma same_rest_refl [simp]: "same_rest c c"
  by (simp add: same_rest_def)

lemma load_units_ok: "part_ok c \<Longrightarrow> part_ok (load_units doc c) \<and> same_rest (load_units doc c) c"
  by (simp add: load_units_def load_unit_ok)

lemma load_temp_ok: "part_ok c \<Longrightarrow> part_ok (load_temp doc c) \<and> same_rest (load_temp doc c) c"
proof -
  assume "part_ok c"
  define c1 where "c1 = load_unit doc ''temp_chart_unit'' 4 TEMP_UNITS temp_chart_unit temp_chart_unit_update
    (load_unit doc ''temp_card_unit'' 4 TEMP_UNITS temp_card_unit temp_card_unit_update c)"
  then have "part_ok c1" "same_rest c1 c" using \<open>part_ok c\<close> by (simp_all add: load_unit_ok)
  then show ?thesis
    by (cases "seek2 doc ''dashboard'' ''temp_critical_fallback''")
      (auto simp: load_temp_def same_rest_def part_ok_set simp flip: c1_def)
qed

lemma load_net_ok: "part_ok c \<Longrightarrow> part_ok (load_net_max_speed v c) \<and> same_rest (load_net_max_speed v c) c"
  by (cases v) (auto simp: load_net_max_speed_def same_rest_def part_ok_set)

text \<open>\<open>collect.interval\<close> changes the interval, which the ranges are checked against.\<close>

definition same_lists :: "config_t \<Rightarrow> config_t \<Rightarrow> bool" where
  "same_lists c' c =
     (alerts c' = alerts c \<and> ranges c' = ranges c \<and> charts c' = charts c \<and>
      chart_count c' = chart_count c \<and> cards c' = cards c \<and> card_count c' = card_count c)"

lemma same_rest_lists: "same_rest c' c \<Longrightarrow> same_lists c' c"
  by (simp add: same_rest_def same_lists_def)

lemma same_lists_trans: "same_lists a b \<Longrightarrow> same_lists b c \<Longrightarrow> same_lists a c"
  by (simp add: same_lists_def)

lemma load_interval_ok:
  "load_interval v c = Some c' \<Longrightarrow> part_ok c \<Longrightarrow> part_ok c' \<and> same_lists c' c"
  by (cases v) (auto simp: load_interval_def same_lists_def part_ok_set split: if_splits)

lemma load_collect_ok:
  assumes "load_collect env doc (c, t) = Some (c', t')" and "part_ok c"
  shows "part_ok c' \<and> same_lists c' c"
proof -
  obtain c1 where c1: "load_interval (seek2 doc ''collect'' ''interval'') c = Some c1"
    using assms(1) by (auto simp: load_collect_def split: option.splits)
  obtain c2 t2 where c2: "copy_field (db_path c1) 256 (seek2 doc ''collect'' ''db'') (\<lambda>s. c1\<lparr>db_path := s\<rparr>) t = (c2, t2)"
    by fastforce
  obtain c3 t3 where c3: "copy_field (disk_path c2) 256 (seek2 doc ''collect'' ''disk_path'')
      (\<lambda>s. c2\<lparr>disk_path := s\<rparr>) t2 = (c3, t3)"
    by fastforce
  have "c' = c3" using assms(1) by (auto simp: load_collect_def c1 c2 c3 split: if_splits)
  moreover have "part_ok c1 \<and> same_lists c1 c" by (rule load_interval_ok [OF c1 assms(2)])
  moreover from this have "part_ok c2 \<and> same_rest c2 c1" using copy_listen_ok(2) [OF _ c2] by blast
  moreover from this have "part_ok c3 \<and> same_rest c3 c2" using copy_listen_ok(3) [OF _ c3] by blast
  ultimately show ?thesis using same_rest_lists same_lists_trans by blast
qed

lemma load_webhook_ok:
  assumes "load_webhook env doc (c, t) = Some (c', t')" and "part_ok c"
  shows "part_ok c' \<and> same_rest c' c"
proof -
  define c1 where "c1 = load_skip_verify (seek2 doc ''webhook'' ''insecure_skip_verify'') c"
  have c1: "part_ok c1" "same_rest c1 c"
    using assms(2) by (auto simp: c1_def load_skip_verify_def same_rest_def part_ok_set split: toml.splits)
  obtain s f where s: "str_copy (ca_file c1) 256 (seek2 doc ''webhook'' ''ca_file'') = (s, f)" by fastforce
  have "length s < 256" using str_copy_fits [OF s] c1(1) by (simp add: part_simps)
  moreover have "c' = c1\<lparr>ca_file := s\<rparr>"
    using assms(1) s by (auto simp: load_webhook_def load_ca_file_def Let_def simp flip: c1_def split: if_splits)
  ultimately show ?thesis using c1 by (simp add: part_ok_set same_rest_def)
qed

lemma load_theme_ok:
  assumes "load_theme v (c, t) = (c', t')" and "part_ok c"
  shows "part_ok c' \<and> same_rest c' c"
proof (cases v)
  case (TOML_STRING s)
  then show ?thesis
    using assms by (auto simp: load_theme_def copy_field_def str_copy_def part_ok_set same_rest_def
        split: if_splits)
qed (use assms in \<open>auto simp: load_theme_def\<close>)

lemma load_refresh_ok: "part_ok c \<Longrightarrow> part_ok (load_refresh v c) \<and> same_rest (load_refresh v c) c"
  using to_int_pos by (cases v) (auto simp: load_refresh_def same_rest_def part_ok_set)

lemma load_look_ok:
  assumes "load_look doc (c, t) = (c', t')" and "part_ok c"
  shows "part_ok c' \<and> same_rest c' c"
proof -
  obtain c1 t1 where c1: "copy_field (title c) 128 (seek2 doc ''dashboard'' ''title'') (\<lambda>s. c\<lparr>title := s\<rparr>) t = (c1, t1)"
    by fastforce
  define c2 where "c2 = (case seek2 doc ''dashboard'' ''show_footer'' of
    TOML_BOOLEAN b \<Rightarrow> c1\<lparr>show_footer := b\<rparr> | _ \<Rightarrow> c1)"
  obtain c3 t3 where c3: "load_theme (seek2 doc ''dashboard'' ''theme'') (c2, t1) = (c3, t3)" by fastforce
  have "c' = load_refresh (seek2 doc ''dashboard'' ''refresh'') c3"
    using assms(1) by (simp add: load_look_def c1 c3 flip: c2_def)
  moreover have "part_ok c1 \<and> same_rest c1 c" by (rule copy_listen_ok(4) [OF assms(2) c1])
  moreover from this have "part_ok c2 \<and> same_rest c2 c1"
    by (auto simp: c2_def part_ok_set same_rest_def split: toml.splits)
  moreover from this have "part_ok c3 \<and> same_rest c3 c2" using load_theme_ok [OF c3] by blast
  ultimately show ?thesis using load_refresh_ok [of c3] same_rest_trans by blast
qed

lemma load_names_ok:
  "load_names limit known es (names, count, t) = (names', count', t') \<Longrightarrow> limit \<le> 16 \<Longrightarrow>
     count = int (length names) \<Longrightarrow> names_ok known names count \<Longrightarrow> names_ok known names' count'"
proof (induction limit known es "(names, count, t)" arbitrary: names count t rule: load_names.induct)
  case (2 limit known e es names count t)
  then show ?case
    by (cases e) (auto simp: names_ok_def known_name_def in_list_def list_ex_iff split: if_splits)
qed simp

definition fresh :: "config_t \<Rightarrow> bool" where
  "fresh c = (charts c = [] \<and> chart_count c = 0 \<and> cards c = [] \<and> card_count c = 0)"

lemma load_charts_ok:
  assumes "load_charts v (c, t) = (c', t')" and "part_ok c" and "fresh c"
  shows "part_ok c' \<and> alerts c' = alerts c \<and> ranges c' = ranges c \<and>
    interval_seconds c' = interval_seconds c \<and> cards c' = [] \<and> card_count c' = 0"
proof (cases v)
  case (TOML_ARRAY es)
  show ?thesis
  proof (cases es)
    case Nil
    then show ?thesis using assms TOML_ARRAY by (auto simp: load_charts_def part_ok_set fresh_def)
  next
    case (Cons e es')
    obtain ns k t1 where n: "load_names MAX_CHARTS CHART_NAMES es ([], 0, t) = (ns, k, t1)"
      using prod_cases3 by blast
    then have "names_ok CHART_NAMES ns k"
      using load_names_ok [OF n] by (simp add: names_ok_def MAX_CHARTS_def)
    then show ?thesis
      using assms TOML_ARRAY Cons n by (auto simp: load_charts_def part_ok_set fresh_def simp del: load_names.simps)
  qed
qed (use assms in \<open>auto simp: load_charts_def fresh_def\<close>)

lemma load_cards_ok:
  assumes "load_cards v (c, t) = (c', t')" and "part_ok c" and "cards c = []" and "card_count c = 0"
  shows "part_ok c' \<and> alerts c' = alerts c \<and> ranges c' = ranges c \<and>
    interval_seconds c' = interval_seconds c"
proof (cases v)
  case (TOML_ARRAY es)
  show ?thesis
  proof (cases es)
    case Nil
    then show ?thesis using assms TOML_ARRAY by (auto simp: load_cards_def part_ok_set)
  next
    case (Cons e es')
    obtain ns k t1 where n: "load_names MAX_CARDS CARD_NAMES es ([], 0, t) = (ns, k, t1)"
      using prod_cases3 by blast
    then have "names_ok CARD_NAMES ns k"
      using load_names_ok [OF n] by (simp add: names_ok_def MAX_CARDS_def)
    then show ?thesis using assms TOML_ARRAY Cons n by (auto simp: load_cards_def part_ok_set simp del: load_names.simps)
  qed
qed (use assms in \<open>auto simp: load_cards_def\<close>)

text \<open>The ranges that are kept are copied as they are, unless one is too long.\<close>

lemma copy_ranges_ok:
  assumes "copy_ranges old i es t = (rs, False)" and "list_all (range_kept lmax iv) es"
  shows "\<not> t \<and> length rs = length es \<and>
    list_all (\<lambda>s. length s < 8 \<and> range_kept lmax iv (TOML_STRING s)) rs"
  using assms
proof (induction es arbitrary: i t rs)
  case (Cons e es)
  obtain s where e: "e = TOML_STRING s" using Cons.prems(2) by (cases e) (simp_all add: range_kept_def)
  obtain s' f where f: "str_copy (if i < length old then old ! i else '''') 8 e = (s', f)" by fastforce
  obtain rs' where rs': "copy_ranges old (i + 1) es (t \<or> f) = (rs', False)" "rs = s' # rs'"
    using Cons.prems(1) f by (auto split: prod.splits)
  note IH = Cons.IH [OF rs'(1)]
  then have "\<not> f" "\<not> t" using Cons.prems(2) by auto
  then have "s' = s" "length s < 8" using f e by (auto simp: str_copy_def split: if_splits)
  then show ?case using IH Cons.prems(2) rs'(2) e \<open>\<not> t\<close> by simp
qed simp

lemma load_ranges_ok:
  assumes "load_ranges lmax v (c, t) = Some (c', False)" and "part_ok c" and "ranges_ok lmax c"
  shows "part_ok c' \<and> ranges_ok lmax c' \<and> alerts c' = alerts c"
proof (cases "\<exists>es. v = TOML_ARRAY es \<and> es \<noteq> []")
  case True
  then obtain es where v: "v = TOML_ARRAY es" "es \<noteq> []" by blast
  define kept where "kept = filter (range_kept lmax (interval_seconds c)) es"
  have len: "length es \<le> MAX_RANGES" using assms(1) v by (auto simp: load_ranges_def split: if_splits)
  obtain k ks where k: "kept = k # ks"
    using assms(1) v len by (cases kept) (auto simp: load_ranges_def kept_def split: list.splits)
  obtain rs t' where rs: "copy_ranges (ranges c) 0 kept t = (rs, t')" by fastforce
  have "c' = c\<lparr>ranges := rs\<rparr> \<and> \<not> t'"
    using assms(1) v len rs
    by (simp add: load_ranges_def not_less del: copy_ranges.simps flip: kept_def) (simp add: k del: copy_ranges.simps)
  moreover have "length kept \<le> MAX_RANGES" unfolding kept_def by (rule le_trans [OF length_filter_le len])
  moreover have "list_all (range_kept lmax (interval_seconds c)) kept" by (simp add: kept_def list_all_iff)
  moreover from this rs have "length rs = length kept \<and>
      list_all (\<lambda>s. length s < 8 \<and> range_kept lmax (interval_seconds c) (TOML_STRING s)) rs"
    using copy_ranges_ok [of "ranges c" 0 kept t rs lmax "interval_seconds c"] calculation(1) by simp
  moreover have "kept \<noteq> []" using k by simp
  ultimately show ?thesis using assms(2) by (auto simp: ranges_ok_def part_ok_set)
next
  case False
  then have "c' = c" using assms(1) by (cases v) (auto simp: load_ranges_def split: if_splits)
  then show ?thesis using assms by simp
qed

lemma check_alert_ok: "check_alert e = Some (n, m, op, thr) \<Longrightarrow> valid_op op \<and> in_list m METRIC_NAMES"
  by (auto simp: check_alert_def split: toml.splits if_splits option.splits)

lemma cooldown_of_bounds: "0 \<le> cooldown_of lmax v \<and> cooldown_of lmax v \<le> 3653 * 86400"
proof (cases v)
  case (TOML_STRING s)
  then show ?thesis using parse_duration_bounds [of lmax s] by (auto simp: cooldown_of_def)
qed (simp_all add: cooldown_of_def)

lemma str_copy_string: "str_copy dst n (TOML_STRING s) = (s', False) \<Longrightarrow> s' = s \<and> length s < n"
  by (auto simp: str_copy_def split: if_splits)

lemma load_alert_ok:
  assumes "load_alert lmax e (c, t) = Some (c', False)" and "alerts_ok c" and "length (alerts c) < MAX_ALERTS"
  shows "\<not> t \<and> (\<exists>a. c' = c\<lparr>alerts := alerts c @ [a]\<rparr>) \<and> alerts_ok c'"
proof -
  obtain tab where e: "e = TOML_TABLE tab" using assms(1) by (cases e) (auto simp: load_alert_def)
  obtain n m op thr where chk: "check_alert e = Some (n, m, op, thr)"
    using assms(1) e by (auto simp: load_alert_def split: option.splits)
  obtain n' f1 m' f2 op' f3 w f4 cm f5 where f: "str_copy '''' 64 (TOML_STRING n) = (n', f1)"
    "str_copy '''' 32 (TOML_STRING m) = (m', f2)" "str_copy '''' 4 (TOML_STRING op) = (op', f3)"
    "str_copy '''' 512 (toml_get e ''webhook'') = (w, f4)" "str_copy '''' 256 (toml_get e ''command'') = (cm, f5)"
    using surj_pair by metis
  define a where "a = \<lparr>name = n', metric = m', operator = op', threshold = thr, webhook = w,
    command = cm, cooldown_seconds = cooldown_of lmax (toml_get e ''cooldown'')\<rparr>"
  have r: "c' = c\<lparr>alerts := alerts c @ [a]\<rparr>" "\<not> t" "\<not> f1" "\<not> f2" "\<not> f3" "\<not> (w = '''' \<and> cm = '''')"
    using assms(1) e chk f by (auto simp: load_alert_def a_def split: if_splits)
  have "length w < 512" "length cm < 256" using str_copy_fits [OF f(4)] str_copy_fits [OF f(5)] by auto
  then have "alert_ok a"
    using r(3-6) f(1-3) check_alert_ok [OF chk] cooldown_of_bounds [of lmax "toml_get e ''cooldown''"]
      str_copy_string [of "''''" 64 n n'] str_copy_string [of "''''" 32 m m'] str_copy_string [of "''''" 4 op op']
    by (auto simp: alert_ok_def a_def)
  then show ?thesis using r(1,2) assms(2,3) by (auto simp: alerts_ok_def)
qed

lemma load_alert_flag: "load_alert lmax e (c, True) = Some (c', t') \<Longrightarrow> t'"
  by (auto simp: load_alert_def split: toml.splits option.splits prod.splits if_splits)

lemma load_alert_list_flag: "load_alert_list lmax es (c, True) = Some (c', t') \<Longrightarrow> t'"
proof (induction es arbitrary: c)
  case (Cons e es)
  show ?case
  proof (cases "length (alerts c) \<ge> MAX_ALERTS")
    case False
    then obtain c1 t1 where "load_alert lmax e (c, True) = Some (c1, t1)"
      using Cons.prems by (auto split: option.splits)
    then show ?thesis using Cons False load_alert_flag [of lmax e c c1 t1] by auto
  qed (use Cons.prems in auto)
qed simp

lemma load_alert_list_ok:
  assumes "load_alert_list lmax es (c, t) = Some (c', False)" and "alerts_ok c"
  shows "\<not> t \<and> (\<exists>al. c' = c\<lparr>alerts := al\<rparr>) \<and> alerts_ok c'"
  using assms
proof (induction es arbitrary: c t)
  case Nil
  then show ?case by (auto intro: exI [of _ "alerts c"])
next
  case (Cons e es)
  show ?case
  proof (cases "length (alerts c) \<ge> MAX_ALERTS")
    case True
    then show ?thesis using Cons.prems by (auto intro: exI [of _ "alerts c"])
  next
    case False
    then obtain c1 t1 where c1: "load_alert lmax e (c, t) = Some (c1, t1)"
      and rest: "load_alert_list lmax es (c1, t1) = Some (c', False)"
      using Cons.prems(1) by (auto split: option.splits)
    then have t1: "\<not> t1" using load_alert_list_flag by (cases t1) auto
    have a: "\<not> t \<and> (\<exists>a. c1 = c\<lparr>alerts := alerts c @ [a]\<rparr>) \<and> alerts_ok c1"
      using load_alert_ok [of lmax e c t c1] c1 t1 Cons.prems(2) False by simp
    then show ?thesis using Cons.IH [OF rest] by auto
  qed
qed

lemma load_dashboard_ok:
  assumes "load_dashboard lmax doc (c, t) = Some (c', False)" and "part_ok c" and "fresh c"
    and "\<And>iv. 1 \<le> iv \<Longrightarrow> iv \<le> 3600 \<Longrightarrow> ranges_ok lmax (c\<lparr>interval_seconds := iv\<rparr>)"
  shows "part_ok c' \<and> ranges_ok lmax c' \<and> alerts c' = alerts c"
proof -
  obtain c1 t1 where c1: "load_look doc (c, t) = (c1, t1)" by fastforce
  define c2 where "c2 = load_net_max_speed (seek2 doc ''dashboard'' ''net_max_speed'') (load_units doc c1)"
  obtain c3 t3 where c3: "load_charts (seek2 doc ''dashboard'' ''charts'') (c2, t1) = (c3, t3)" by fastforce
  obtain c4 t4 where c4: "load_cards (seek2 doc ''dashboard'' ''cards'') (c3, t3) = (c4, t4)" by fastforce
  have r: "load_ranges lmax (seek2 doc ''dashboard'' ''ranges'') (load_temp doc c4, t4) = Some (c', False)"
    using assms(1) by (simp add: load_dashboard_def c1 c3 c4 flip: c2_def)
  have c1_ok: "part_ok c1 \<and> same_rest c1 c" by (rule load_look_ok [OF c1 assms(2)])
  then have c2_ok: "part_ok c2 \<and> same_rest c2 c"
    using load_units_ok [of c1 doc] load_net_ok same_rest_trans unfolding c2_def by blast
  then have "fresh c2" using assms(3) by (simp add: fresh_def same_rest_def)
  note c3_ok = load_charts_ok [OF c3 conjunct1 [OF c2_ok] this]
  have c4_ok: "part_ok c4 \<and> alerts c4 = alerts c3 \<and> ranges c4 = ranges c3 \<and>
      interval_seconds c4 = interval_seconds c3"
    using load_cards_ok [OF c4] c3_ok by simp
  define c5 where "c5 = load_temp doc c4"
  have c5_ok: "part_ok c5 \<and> same_rest c5 c4" unfolding c5_def using load_temp_ok c4_ok by blast
  then have "ranges c5 = ranges c" "alerts c5 = alerts c" using c4_ok c3_ok c2_ok by (simp_all add: same_rest_def)
  moreover from this have "ranges_ok lmax c5"
    using assms(4) [of "interval_seconds c5"] c5_ok by (simp add: ranges_ok_def part_simps)
  ultimately show ?thesis using load_ranges_ok [of lmax _ c5 t4 c'] r c5_ok by (simp add: c5_def)
qed

lemma default_ranges:
  assumes "31536000 \<le> lmax" and "1 \<le> iv" and "iv \<le> 3600"
  shows "ranges_ok lmax (config_defaults\<lparr>interval_seconds := iv\<rparr>)"
  using assms by (simp add: config_defaults_def ranges_ok_def MAX_RANGES_def range_kept_def
      valid_range_def range_in_bounds_def parse_duration_def strtol_def sign_split_def c_isspace_def
      c_isdigit_def digit_val_def Let_def)

lemma config_defaults_part: "part_ok config_defaults"
  by (simp add: part_simps units_ok_def unit_lists names_ok_def config_defaults_def INT_MAX_def)

lemma clamp_refresh_ok:
  assumes "part_ok c" and "ranges_ok lmax c" and "alerts_ok c"
  shows "config_ok lmax (clamp_refresh c)"
  using assms by (simp add: clamp_refresh_def config_ok_def part_simps units_ok_def ranges_ok_def alerts_ok_def)

lemma config_defaults_ok: "config_ok (2 ^ 63 - 1) config_defaults"
proof -
  have "clamp_refresh config_defaults = config_defaults" by (simp add: clamp_refresh_def config_defaults_def)
  moreover have "ranges_ok (2 ^ 63 - 1) config_defaults" using default_ranges [of "2 ^ 63 - 1" 60] by (simp add: config_defaults_def) 
  moreover have "alerts_ok config_defaults" by (simp add: alerts_ok_def config_defaults_def)
  ultimately show ?thesis using clamp_refresh_ok [OF config_defaults_part] by fastforce
qed

lemma config_load_defaults_ok:
  assumes "config_load lmax env parsed config_defaults = Some c" and "31536000 \<le> lmax"
  shows "config_ok lmax c"
proof -
  obtain doc where doc: "parsed = Some doc" using assms(1) by (cases parsed) (auto simp: config_load_def)
  obtain c1 t1 c2 t2 c3 t3 c4 t4 c5 where
    s1: "load_server doc (config_defaults, False) = Some (c1, t1)" and
    s2: "load_collect env doc (c1, t1) = Some (c2, t2)" and
    s3: "load_webhook env doc (c2, t2) = Some (c3, t3)" and
    s4: "load_dashboard lmax doc (c3, t3) = Some (c4, t4)" and
    s5: "load_alerts lmax (toml_seek doc [''alert'']) (c4, t4) = Some (c5, False)" and c: "c = clamp_refresh c5"
    using assms(1) by (auto simp: config_load_def doc split: option.splits if_splits)
  have c1: "part_ok c1 \<and> same_rest c1 config_defaults"
    by (rule load_server_ok [OF s1 config_defaults_part])
  then have c2: "part_ok c2 \<and> same_lists c2 c1" using load_collect_ok [OF s2] by blast
  then have c3: "part_ok c3 \<and> same_rest c3 c2" using load_webhook_ok [OF s3] by blast
  then have lists: "same_lists c3 config_defaults"
    using c1 c2 same_rest_lists same_lists_trans by blast
  have t4: "\<not> t4 \<and> alerts_ok c5 \<and> (\<exists>al. c5 = c4\<lparr>alerts := al\<rparr>)" if "alerts_ok c4"
  proof (cases "toml_seek doc [''alert'']")
    case (TOML_ARRAY es)
    then show ?thesis
      using s5 load_alert_list_ok [of lmax es c4 t4 c5] that by (simp add: load_alerts_def split: if_splits)
  next
    case TOML_UNKNOWN
    then have "c5 = c4" "\<not> t4" using s5 by (simp_all add: load_alerts_def)
    moreover have "c4 = c4\<lparr>alerts := alerts c4\<rparr>" by simp
    ultimately show ?thesis using that by metis
  qed (use s5 in \<open>simp_all add: load_alerts_def\<close>)
  have "\<not> t4"
  proof (cases "toml_seek doc [''alert'']")
    case (TOML_ARRAY es)
    then show ?thesis
      using s5 load_alert_list_flag [of lmax es c4 c5 False]
      by (cases t4) (auto simp: load_alerts_def split: if_splits)
  qed (use s5 in \<open>auto simp: load_alerts_def\<close>)
  then have c4: "part_ok c4 \<and> ranges_ok lmax c4 \<and> alerts c4 = alerts c3"
    using load_dashboard_ok [of lmax doc c3 t3 c4] s4 c3 lists default_ranges [OF assms(2)]
    by (auto simp: same_lists_def fresh_def config_defaults_def ranges_ok_def)
  moreover from this have "alerts_ok c4" using lists by (simp add: alerts_ok_def same_lists_def config_defaults_def)
  ultimately show ?thesis
    unfolding c using t4 by (auto intro!: clamp_refresh_ok simp: part_ok_set ranges_ok_def)
qed

subsection \<open>The did-you-mean distance\<close>

text \<open>A way to turn one string into another, from the front, in \<open>n\<close> insertions, deletions and
  replacements of a character.\<close>

inductive edits :: "string \<Rightarrow> string \<Rightarrow> nat \<Rightarrow> bool" where
  edits_nil: "edits [] [] 0"
| edits_keep: "edits s t n \<Longrightarrow> edits (s @ [x]) (t @ [x]) n"
| edits_replace: "edits s t n \<Longrightarrow> x \<noteq> y \<Longrightarrow> edits (s @ [x]) (t @ [y]) (Suc n)"
| edits_delete: "edits s t n \<Longrightarrow> edits (s @ [x]) t (Suc n)"
| edits_insert: "edits s t n \<Longrightarrow> edits s (t @ [y]) (Suc n)"

text \<open>The recurrence on the lengths of two prefixes.\<close>

fun lev :: "string \<Rightarrow> string \<Rightarrow> nat \<Rightarrow> nat \<Rightarrow> nat" where
  "lev a b 0 j = j"
| "lev a b (Suc i) 0 = Suc i"
| "lev a b (Suc i) (Suc j) =
     min (lev a b i j + (if a ! i = b ! j then 0 else 1))
       (min (lev a b i (Suc j) + 1) (lev a b (Suc i) j + 1))"

lemma lev_0 [simp]: "lev a b i 0 = i"
  by (cases i) simp_all

lemma snoc_eq_take: "s @ [x] = take i a \<Longrightarrow> i \<le> length a \<Longrightarrow> \<exists>i'. i = Suc i' \<and> s = take i' a \<and> x = a ! i'"
  by (cases i) (auto simp: take_Suc_conv_app_nth)

lemma lev_le_edits:
  "edits s t n \<Longrightarrow> i \<le> length a \<Longrightarrow> j \<le> length b \<Longrightarrow> s = take i a \<Longrightarrow> t = take j b \<Longrightarrow> lev a b i j \<le> n"
proof (induction arbitrary: i j rule: edits.induct)
  case edits_nil
  then show ?case by (cases i; cases j) auto
next
  case (edits_keep s t n x)
  then obtain i' j' where "i = Suc i'" "s = take i' a" "x = a ! i'" "j = Suc j'" "t = take j' b" "x = b ! j'"
    by (metis snoc_eq_take)
  then show ?case using edits_keep.IH [of i' j'] edits_keep.prems by simp
next
  case (edits_replace s t n x y)
  then obtain i' j' where "i = Suc i'" "s = take i' a" "j = Suc j'" "t = take j' b"
    by (metis snoc_eq_take)
  then show ?case using edits_replace.IH [of i' j'] edits_replace.prems by auto
next
  case (edits_delete s t n x)
  then obtain i' where "i = Suc i'" "s = take i' a" by (metis snoc_eq_take)
  then show ?case using edits_delete.IH [of i' j] edits_delete.prems by (cases j) auto
next
  case (edits_insert s t n y)
  then obtain j' where "j = Suc j'" "t = take j' b" by (metis snoc_eq_take)
  then show ?case using edits_insert.IH [of i j'] edits_insert.prems by (cases i) auto
qed

lemma edits_lev: "i \<le> length a \<Longrightarrow> j \<le> length b \<Longrightarrow> edits (take i a) (take j b) (lev a b i j)"
proof (induction a b i j rule: lev.induct)
  case (1 a b j)
  then show ?case
  proof (induction j)
    case (Suc j)
    then show ?case using edits_insert [of "[]" "take j b" j "b ! j"] by (simp add: take_Suc_conv_app_nth)
  qed (simp add: edits_nil)
next
  case (2 a b i)
  then show ?case
  proof (induction i)
    case (Suc i)
    then show ?case
      using edits_delete [of "take (Suc i) a" "[]" "Suc i" "a ! Suc i"]
      by (simp add: take_Suc_conv_app_nth [of "Suc i"])
  next
    case 0
    then have "take (Suc 0) a = [] @ [a ! 0]" by (cases a) auto
    then show ?case using edits_delete [OF edits_nil, of "a ! 0"] by simp
  qed
next
  case (3 a b i j)
  have t: "take (Suc i) a = take i a @ [a ! i]" "take (Suc j) b = take j b @ [b ! j]"
    using "3.prems" by (simp_all add: take_Suc_conv_app_nth)
  have "edits (take i a) (take j b) (lev a b i j)" and "edits (take i a) (take (Suc j) b) (lev a b i (Suc j))"
    and "edits (take (Suc i) a) (take j b) (lev a b (Suc i) j)"
    using 3 by simp_all
  then show ?case
    using edits_keep [of "take i a" "take j b" "lev a b i j" "a ! i"]
      edits_replace [of "take i a" "take j b" "lev a b i j" "a ! i" "b ! j"]
      edits_delete [of "take i a" "take (Suc j) b" "lev a b i (Suc j)" "a ! i"]
      edits_insert [of "take (Suc i) a" "take j b" "lev a b (Suc i) j" "b ! j"]
    by (auto simp: t min_def)
qed

lemma dist_cell_eq:
  "dist_cell a b i j (row, diag) =
     (row[j := min (diag + (if a ! (i - 1) = b ! (j - 1) then 0 else 1)) (min (row ! j + 1) (row ! (j - 1) + 1))],
      row ! j)"
  by (auto simp: dist_cell_def Let_def min_def)

text \<open>The inner loop up to column \<open>k\<close> has the new row there and the old one beyond.\<close>

lemma dist_row_prefix:
  assumes "i < length a" and "length row = Suc (length b)" and "\<And>j. j \<le> length b \<Longrightarrow> row ! j = int (lev a b i j)"
    and "k \<le> length b"
    and "fold (dist_cell a b (Suc i)) [1..<Suc k] (row[0 := int (Suc i)], row ! 0) = (row', diag)"
  shows "length row' = Suc (length b) \<and> diag = int (lev a b i k) \<and>
    (\<forall>j \<le> length b. row' ! j = (if j \<le> k then int (lev a b (Suc i) j) else int (lev a b i j)))"
  using assms(4,5)
proof (induction k arbitrary: row' diag)
  case 0
  then show ?case using assms(2) assms(3) [of 0] assms(3) by (auto simp: nth_list_update)
next
  case (Suc k)
  obtain r d where rd: "fold (dist_cell a b (Suc i)) [1..<Suc k] (row[0 := int (Suc i)], row ! 0) = (r, d)"
    by fastforce
  note IH = Suc.IH [OF _ rd]
  then have r: "length r = Suc (length b)" "d = int (lev a b i k)" "r ! k = int (lev a b (Suc i) k)"
    "r ! Suc k = int (lev a b i (Suc k))"
    and rest: "\<And>j. j \<le> length b \<Longrightarrow> r ! j = (if j \<le> k then int (lev a b (Suc i) j) else int (lev a b i j))"
    using Suc.prems(1) by auto
  have "dist_cell a b (Suc i) (Suc k) (r, d) = (row', diag)"
    using Suc.prems(2) rd by simp
  then have "row' = r[Suc k := int (lev a b (Suc i) (Suc k))]" and "diag = int (lev a b i (Suc k))"
    using r by (auto simp: dist_cell_eq of_nat_min min_add_distrib_right add.commute)
  then show ?case using r(1) rest Suc.prems(1) by (auto simp: nth_list_update le_Suc_eq)
qed

lemma dist_row_next:
  assumes "i < length a" and "length row = Suc (length b)" and "\<And>j. j \<le> length b \<Longrightarrow> row ! j = int (lev a b i j)"
  shows "length (dist_row a b (Suc i) row) = Suc (length b) \<and>
    (\<forall>j \<le> length b. dist_row a b (Suc i) row ! j = int (lev a b (Suc i) j))"
proof -
  obtain r d where "fold (dist_cell a b (Suc i)) [1..<Suc (length b)] (row[0 := int (Suc i)], row ! 0) = (r, d)"
    by fastforce
  then show ?thesis
    using dist_row_prefix [OF assms, of "length b" r d] by (auto simp: dist_row_def)
qed

lemma key_distance_rows:
  "n \<le> length a \<Longrightarrow>
     length (fold (dist_row a b) [1..<Suc n] (map int [0..<Suc (length b)])) = Suc (length b) \<and>
     (\<forall>j \<le> length b. fold (dist_row a b) [1..<Suc n] (map int [0..<Suc (length b)]) ! j = int (lev a b n j))"
proof (induction n)
  case 0
  then show ?case by (auto simp: nth_append simp del: upt_Suc)
next
  case (Suc n)
  then show ?case
    using dist_row_next [of n a "fold (dist_row a b) [1..<Suc n] (map int [0..<Suc (length b)])" b] by simp
qed

lemma key_distance_lev: "length b < 64 \<Longrightarrow> key_distance a b = int (lev a b (length a) (length b))"
  using key_distance_rows [of "length a" a b] by (simp add: key_distance_def)

subsection \<open>Properties\<close>

text \<open>C10: Whatever the TOML document and the file system, a configuration that \<open>config_load\<close> accepts
  over the defaults is well formed: numbers within their limits and the refresh not above the
  interval, every string within its field, units, themes, charts and cards from the known lists, at
  least one range and each of them valid, in bounds and not shorter than the interval, at most 16
  alerts, each with a known metric, a known operator, an action and a cooldown of at most ten years.\<close>

theorem config_load_ok:
  assumes "config_load lmax env parsed config_defaults = Some c" and "2 ^ 31 - 1 \<le> lmax"
  shows "config_ok lmax c"
  using config_load_defaults_ok [OF assms(1)] assms(2) by simp

definition sample_doc :: toml where
  "sample_doc = TOML_TABLE
     [(''collect'', TOML_TABLE [(''interval'', TOML_INT64 10)]),
      (''dashboard'', TOML_TABLE [(''ranges'', TOML_ARRAY [TOML_STRING ''1h'', TOML_STRING ''5x''])]),
      (''alert'', TOML_ARRAY [TOML_TABLE [(''name'', TOML_STRING ''hot''),
         (''metric'', TOML_STRING ''temp_celsius''), (''operator'', TOML_STRING ''>''),
         (''threshold'', TOML_INT64 80), (''command'', TOML_STRING ''true''),
         (''cooldown'', TOML_STRING ''2d'')]])]"

definition sample_env :: fs_env where
  "sample_env = \<lparr>statvfs_ok = (\<lambda>_. True), file_text = (\<lambda>_. None)\<rparr>"

lemma sample_load:
  "\<exists>c. config_load (2 ^ 31 - 1) sample_env (Some sample_doc) config_defaults = Some c"
  by (simp add: config_load_def sample_doc_def load_server_def load_collect_def load_webhook_def
      load_dashboard_def load_look_def load_theme_def load_refresh_def load_net_max_speed_def
      load_charts_def load_cards_def load_temp_def load_ranges_def load_alerts_def seek2_def toml_get_def
      copy_field_def str_copy_def load_max_dashboards_def load_keepalive_def load_interval_def is_string_def
      load_skip_verify_def load_ca_file_def load_units_def load_unit_def unit_copy_def MAX_RANGES_def
      MAX_ALERTS_def range_kept_def valid_range_def range_in_bounds_def parse_duration_def strtol_def
      sign_split_def c_isspace_def c_isdigit_def digit_val_def Let_def load_alert_def check_alert_def
      threshold_of_def valid_op_def in_list_def METRIC_NAMES_def cooldown_of_def config_defaults_def)

theorem config_load_ok_witness:
  "\<exists>c. config_load (2 ^ 31 - 1) sample_env (Some sample_doc) config_defaults = Some c \<and>
     config_ok (2 ^ 31 - 1) c"
  using sample_load config_load_ok [of "2 ^ 31 - 1" sample_env "Some sample_doc"] by auto

text \<open>A duration as the documentation writes it: blanks, a plus sign if one likes, digits, and the letter
  of a unit; positive, and at most ten years.\<close>

definition is_duration :: "string \<Rightarrow> int \<Rightarrow> bool" where
  "is_duration s secs =
     (\<exists>blanks sign ds u k.
        s = blanks @ sign @ ds @ [u] \<and> list_all c_isspace blanks \<and> sign \<in> {'''', ''+''} \<and>
        ds \<noteq> [] \<and> list_all c_isdigit ds \<and>
        (u, k) \<in> {(CHR ''s'', 1), (CHR ''m'', 60), (CHR ''h'', 3600), (CHR ''d'', 86400)} \<and>
        secs = int (digits_val 0 ds) * k \<and> 0 < secs \<and> secs \<le> 3653 * 86400)"

lemma digits_then:
  assumes "list_all c_isdigit ds" and "\<not> c_isdigit u"
  shows "takeWhile c_isdigit (ds @ [u]) = ds" and "dropWhile c_isdigit (ds @ [u]) = [u]"
  using assms by (induction ds) auto

lemma strtol_duration:
  assumes "list_all c_isspace blanks" and "sign \<in> {'''', ''+''}" and "ds \<noteq> []" and "list_all c_isdigit ds" and "\<not> c_isdigit u"
  shows "strtol lmax (blanks @ sign @ ds @ [u]) = (min lmax (int (digits_val 0 ds)), [u])"
proof -
  obtain c cs where ds: "ds = c # cs" using assms(3) by (cases ds) auto
  then have c: "c_isdigit c" "\<not> c_isspace c" "c \<noteq> CHR ''-''" "c \<noteq> CHR ''+''"
    using assms(4) by (auto simp: c_isdigit_def c_isspace_def)
  have "dropWhile c_isspace (blanks @ sign @ ds @ [u]) = sign @ ds @ [u]"
    using assms(1,2) c(2) by (induction blanks) (auto simp: ds c_isspace_def)
  moreover have "sign_split (sign @ ds @ [u]) = (False, ds @ [u])"
    using assms(2) c(3,4) by (auto simp: sign_split_def ds)
  ultimately show ?thesis
    using digits_then [OF assms(4,5)] assms(3) by (simp add: strtol_def)
qed

lemma strtol_positive:
  assumes "strtol lmax s = (n, rest)" and "0 < n" and "n < lmax"
  shows "\<exists>blanks sign ds. s = blanks @ sign @ ds @ rest \<and> list_all c_isspace blanks \<and> sign \<in> {'''', ''+''} \<and>
    ds \<noteq> [] \<and> list_all c_isdigit ds \<and> n = int (digits_val 0 ds)"
proof -
  define t where "t = dropWhile c_isspace s"
  obtain neg u where u: "sign_split t = (neg, u)" by (cases "sign_split t")
  define ds where "ds = takeWhile c_isdigit u"
  have st: "strtol lmax s = (if ds = [] then (0, s)
      else (if neg then max (- lmax - 1) (- int (digits_val 0 ds)) else min lmax (int (digits_val 0 ds)), dropWhile c_isdigit u))"
    using u by (simp add: strtol_def t_def ds_def Let_def)
  then have ne: "ds \<noteq> []" and pos: "\<not> neg" and n: "n = int (digits_val 0 ds)" and rest: "rest = dropWhile c_isdigit u"
    using assms by (auto split: if_splits)
  obtain sign where "t = sign @ u" "sign \<in> {'''', ''+''}"
    using u pos by (cases t) (auto simp: sign_split_def split: if_splits)
  moreover have "s = takeWhile c_isspace s @ t" by (simp add: t_def)
  moreover have "u = ds @ rest" by (simp add: ds_def rest)
  moreover have "list_all c_isspace (takeWhile c_isspace s)" "list_all c_isdigit ds"
    by (auto simp: list_all_iff ds_def dest: set_takeWhileD)
  ultimately show ?thesis using ne n by metis
qed

text \<open>C24: A duration is accepted exactly when it is blanks, an optional plus sign, digits and one unit
  letter, positive and at most ten years, and is then read as that many seconds, which fit a 32-bit
  \<open>long\<close>; everything else (another letter, no letter, anything after it, a minus sign, zero) is
  refused with -1.\<close>

theorem parse_duration_spec:
  assumes "2 ^ 31 - 1 \<le> lmax"
  shows "parse_duration lmax s = secs \<and> secs \<noteq> - 1 \<longleftrightarrow> is_duration s secs"
proof
  assume "is_duration s secs"
  then obtain blanks sign ds u k where s: "s = blanks @ sign @ ds @ [u]"
    and parts: "list_all c_isspace blanks" "sign \<in> {'''', ''+''}" "ds \<noteq> []" "list_all c_isdigit ds"
    and u: "(u, k) \<in> {(CHR ''s'', 1), (CHR ''m'', 60), (CHR ''h'', 3600), (CHR ''d'', 86400)}"
    and secs: "secs = int (digits_val 0 ds) * k" "0 < secs" "secs \<le> 3653 * 86400"
    unfolding is_duration_def by blast
  have "\<not> c_isdigit u" using u by (auto simp: c_isdigit_def)
  moreover have "int (digits_val 0 ds) \<le> lmax" using u secs assms by auto
  ultimately have "strtol lmax s = (int (digits_val 0 ds), [u])"
    using strtol_duration [OF parts] by (simp add: s)
  then show "parse_duration lmax s = secs \<and> secs \<noteq> - 1"
    using u secs by (auto simp: parse_duration_def)
next
  assume p: "parse_duration lmax s = secs \<and> secs \<noteq> - 1"
  obtain n rest where st: "strtol lmax s = (n, rest)" by (cases "strtol lmax s")
  obtain u k where u: "rest = [u]" "(u, k) \<in> {(CHR ''s'', 1), (CHR ''m'', 60), (CHR ''h'', 3600), (CHR ''d'', 86400)}"
    and n: "0 < n" "secs = n * k" "secs \<le> 3653 * 86400" "n \<le> 3653 * 86400"
    using p st by (cases rest) (auto simp: parse_duration_def split: if_splits)
  have "n < lmax" using n(4) assms by simp
  then obtain blanks sign ds where "s = blanks @ sign @ ds @ [u]" "list_all c_isspace blanks" "sign \<in> {'''', ''+''}"
    "ds \<noteq> []" "list_all c_isdigit ds" "n = int (digits_val 0 ds)"
    using strtol_positive [OF st n(1)] u(1) by blast
  moreover have "0 < secs" using n(1,2) u(2) by auto
  ultimately show "is_duration s secs" unfolding is_duration_def using u(2) n(2,3) by blast
qed

theorem parse_duration_spec_witness: "is_duration '' +90m'' 5400 \<and> \<not> is_duration ''90x'' 90"
  using parse_duration_spec [of "2 ^ 31 - 1" "'' +90m''" 5400] parse_duration_spec [of "2 ^ 31 - 1" "''90x''" 90]
  by (simp add: parse_duration_def strtol_def sign_split_def c_isspace_def c_isdigit_def digit_val_def Let_def)

text \<open>C18: \<open>key_distance\<close>, computed in one array of 64 cells, is the edit distance: for a known key of
  fewer than 64 characters it is the least number of insertions, deletions and replacements of a
  character that turn the key read into the known one.\<close>

theorem key_distance_least:
  assumes "length b < 64"
  shows "(\<exists>n. key_distance a b = int n \<and> edits a b n) \<and> (\<forall>n. edits a b n \<longrightarrow> key_distance a b \<le> int n)"
  using key_distance_lev [OF assms, of a] edits_lev [of "length a" a "length b" b]
    lev_le_edits [of a b _ "length a" a "length b" b]
  by auto

theorem key_distance_least_witness: "\<exists>n. key_distance ''titel'' ''title'' = int n \<and> edits ''titel'' ''title'' n"
  using key_distance_least [of "''title''" "''titel''"] by simp

end
