(* ===== verification/JsonProps.thy ===== *)
theory JsonProps
  imports Json ConfigProps
begin

text \<open>
  The JSON the daemon writes is JSON, says what it should, and fits. \<open>emits n f ms\<close> is the contract
  of a writer: on a buffer with room for \<open>n\<close> more bytes it appends exactly the members \<open>ms\<close>, at
  most \<open>n\<close> bytes of them, and does not overflow. Contracts compose along the serializers: the lists
  of members give what a client reads, and the sum of the sizes is what has to fit the buffers.
\<close>

subsection \<open>Escaping\<close>

definition escaped :: "string \<Rightarrow> string" where
  "escaped s = concat (map escape_char s)"

lemma escaped_simps [simp]:
  "escaped [] = []" "escaped (c # s) = escape_char c @ escaped s"
  by (simp_all add: escaped_def)

lemma length_escape_char: "1 \<le> length (escape_char c) \<and> length (escape_char c) \<le> 6"
  by (simp add: escape_char_def hex4_def)

lemma length_escaped: "length (escaped s) \<le> 6 * length s"
proof (induction s)
  case (Cons c s)
  then show ?case using length_escape_char [of c] by simp
qed simp

lemma escape_loop_eq:
  "escape_loop n dst s = (if length dst + length (escaped s) < n \<or> s = [] then Some (dst @ escaped s) else None)"
proof (induction s arbitrary: dst)
  case (Cons c s)
  show ?case
  proof (cases "length dst + length (escape_char c) \<ge> n")
    case False
    then show ?thesis using Cons by auto
  qed auto
qed simp

lemma json_escape_eq: "json_escape n s = (if length (escaped s) < n then Some (escaped s) else None)"
  by (cases s) (auto simp: json_escape_def escape_loop_eq)

definition hex_val :: "char \<Rightarrow> nat" where
  "hex_val c = (if code c \<le> 57 then code c - 48 else code c - 87)"

lemma hex_digit_16: "d < 16 \<Longrightarrow> c_isxdigit (hex_digit d) \<and> hex_val (hex_digit d) = d"
proof -
  have "list_all (\<lambda>d. c_isxdigit (hex_digit d) \<and> hex_val (hex_digit d) = d) [0..<16]"
    by (simp add: hex_digit_def hex_val_def c_isxdigit_def c_isdigit_def upt_conv_Cons)
  then show "d < 16 \<Longrightarrow> ?thesis" by (auto simp: list_all_iff)
qed

lemma json_body_append: "json_body (escape_char c @ t) = json_body t"
proof -
  note hex = conjunct1 [OF hex_digit_16]
  have zero: "c_isxdigit (CHR ''0'')" by (simp add: c_isxdigit_def c_isdigit_def)
  have "code c < 32 \<Longrightarrow> code c div 16 < 16" by simp
  then show ?thesis
    using hex [of "code c div 16"] hex [of "code c mod 16"] zero
    by (auto simp: escape_char_def json_escapes_def hex4_def)
qed

lemma json_body_escaped [simp]: "json_body (escaped s)"
  by (induction s) (simp_all add: json_body_append)

text \<open>A text without quotes, backslashes and control characters is its own escape.\<close>

definition plain :: "string \<Rightarrow> bool" where
  "plain s = list_all (\<lambda>c. c \<noteq> DQUOTE \<and> c \<noteq> BACKSLASH \<and> 32 \<le> code c) s"

lemma escape_char_plain: "c \<noteq> DQUOTE \<Longrightarrow> c \<noteq> BACKSLASH \<Longrightarrow> 32 \<le> code c \<Longrightarrow> escape_char c = [c]"
  by (auto simp: escape_char_def)

lemma escaped_plain: "plain s \<Longrightarrow> escaped s = s"
  by (induction s) (auto simp: plain_def escape_char_plain)

lemma plain_body: "plain s \<Longrightarrow> json_body s"
  using json_body_escaped [of s] by (simp add: escaped_plain)

text \<open>Reading a string body back, as a JSON reader does for the escapes the writer uses.\<close>

fun unescape :: "string \<Rightarrow> string" where
  "unescape [] = []"
| "unescape (c # cs) =
     (if c = BACKSLASH then
        (case cs of
           [] \<Rightarrow> []
         | d # ds \<Rightarrow>
             if d = CHR ''u'' then
               (case ds of
                  h1 # h2 # h3 # h4 # rest \<Rightarrow>
                    char_of (((hex_val h1 * 16 + hex_val h2) * 16 + hex_val h3) * 16 + hex_val h4) # unescape rest
                | _ \<Rightarrow> [])
             else (if d = CHR ''n'' then CHR 0x0A else if d = CHR ''r'' then CHR 0x0D
                   else if d = CHR ''t'' then CHR 0x09 else if d = CHR ''b'' then CHR 0x08
                   else if d = CHR ''f'' then CHR 0x0C else d) # unescape ds)
      else c # unescape cs)"

lemma unescape_escape_char: "unescape (escape_char c @ t) = c # unescape t"
proof (cases "code c < 32")
  case True
  have h: "hex_val (hex_digit (code c div 16)) = code c div 16"
    "hex_val (hex_digit (code c mod 16)) = code c mod 16" using True hex_digit_16 by simp_all
  have z: "hex_val (CHR ''0'') = 0" by (simp add: hex_val_def)
  have "char_of (code c div 16 * 16 + code c mod 16) = c" by simp
  then show ?thesis using h z by (auto simp: escape_char_def hex4_def)
next
  case False
  then show ?thesis by (auto simp: escape_char_def)
qed

lemma unescape_escaped: "unescape (escaped s) = s"
  by (induction s) (simp_all add: unescape_escape_char)

subsection \<open>The contract of a writer\<close>

text \<open>\<open>N\<close> is the size of the buffer, \<open>pre\<close> what was there before the members, \<open>n\<close> the room left.\<close>

definition fits :: "nat \<Rightarrow> string \<Rightarrow> string list \<Rightarrow> nat \<Rightarrow> jbuf_t \<Rightarrow> bool" where
  "fits N pre ms n j \<longleftrightarrow>
     cap j = N \<and> out j = pre @ join '','' ms \<and> comma j = (ms \<noteq> []) \<and> \<not> overflow j \<and>
     length (out j) + n < N \<and> list_all json_member ms"

definition emits :: "nat \<Rightarrow> (jbuf_t \<Rightarrow> jbuf_t) \<Rightarrow> string list \<Rightarrow> bool" where
  "emits c f ms \<longleftrightarrow> (\<forall>N pre ms0 n j. fits N pre ms0 (n + c) j \<longrightarrow> fits N pre (ms0 @ ms) n (f j))"

lemma emitsD: "emits c f ms \<Longrightarrow> fits N pre ms0 (n + c) j \<Longrightarrow> fits N pre (ms0 @ ms) n (f j)"
  by (simp add: emits_def)

lemma fits_mono: "fits N pre ms n j \<Longrightarrow> m \<le> n \<Longrightarrow> fits N pre ms m j"
  by (auto simp: fits_def)

lemma emits_mono: "emits c f ms \<Longrightarrow> c \<le> d \<Longrightarrow> emits d f ms"
  unfolding emits_def using fits_mono by (meson add_left_mono)

text \<open>A contract worked out by the rules, in the terms it is stated in.\<close>

lemma emits_as: "emits c f ms \<Longrightarrow> c \<le> d \<Longrightarrow> ms = ms' \<Longrightarrow> emits d f ms'"
  using emits_mono by simp

lemma emits_id: "emits c id []"
  by (rule emits_mono [of 0]) (simp_all add: emits_def)

lemma emits_seq:
  assumes "emits a f xs" and "emits b g ys"
  shows "emits (a + b) (\<lambda>j. g (f j)) (xs @ ys)"
  unfolding emits_def
proof (intro allI impI)
  fix N pre ms n j
  assume "fits N pre ms (n + (a + b)) j"
  then have "fits N pre ms (n + b + a) j" by (simp add: ac_simps)
  from emitsD [OF assms(2) emitsD [OF assms(1) this]]
  show "fits N pre (ms @ xs @ ys) n (g (f j))" by simp
qed

lemma run_simps [simp]: "run [] = id" "run (f # fs) = (\<lambda>j. run fs (f j))"
  by (auto simp: run_def)

lemma emits_run_Nil [buf_intros]: "emits 0 (run []) []"
  by (simp add: emits_id)

lemma emits_run_Cons [buf_intros]: "emits a f xs \<Longrightarrow> emits b (run fs) ys \<Longrightarrow> emits (a + b) (run (f # fs)) (xs @ ys)"
  using emits_seq [of a f xs b "run fs" ys] by simp

lemma emits_run_if [buf_intros]: "emits c (run fs) ms \<Longrightarrow> emits c (run_if b fs) (if b then ms else [])"
  by (simp add: run_if_def emits_id)

lemma join_append1: "join sep (ms @ [m]) = join sep ms @ (if ms = [] then [] else sep) @ m"
  by (simp add: join_snoc)

text \<open>A whole member, separator included.\<close>

lemma fits_add:
  assumes "fits N pre ms (n + Suc (length m)) j" and "json_member m"
  shows "fits N pre (ms @ [m]) n (j\<lparr>out := out j @ (if comma j then '','' else '''') @ m, comma := True\<rparr>)"
proof -
  have "length (out j) + (n + Suc (length m)) < N" using assms(1) unfolding fits_def by blast
  then show ?thesis using assms by (auto simp: fits_def join_append1)
qed

lemma sep_raw_eq:
  assumes "length (out j) + Suc (length m) < cap j"
  shows "sep_raw m j = j\<lparr>out := out j @ (if comma j then '','' else '''') @ m, comma := True\<rparr>"
  using assms by (auto simp: sep_raw_def jbuf_sep_def jbuf_raw_def)

lemma jbuf_field_eq:
  assumes "length (out j) + Suc (length m) < cap j"
  shows "jbuf_field m j = (j\<lparr>out := out j @ (if comma j then '','' else '''') @ m, comma := True\<rparr>, False)"
  using assms sep_raw_eq [OF assms] by (auto simp: jbuf_field_def sep_raw_def)

lemma fits_room: "fits N pre ms (n + Suc (length m)) j \<Longrightarrow> length (out j) + Suc (length m) < cap j"
  unfolding fits_def by linarith

lemma emits_one:
  assumes "json_member m" and "Suc (length m) \<le> c"
    and "\<And>j. length (out j) + Suc (length m) < cap j \<Longrightarrow>
      f j = j\<lparr>out := out j @ (if comma j then '','' else []) @ m, comma := True\<rparr>"
  shows "emits c f [m]"
  unfolding emits_def
proof (intro allI impI)
  fix N pre ms n j
  assume "fits N pre ms (n + c) j"
  then have j: "fits N pre ms (n + Suc (length m)) j" by (rule fits_mono) (use assms(2) in simp)
  show "fits N pre (ms @ [m]) n (f j)"
    using fits_add [OF j assms(1)] assms(3) [OF fits_room [OF j]] by simp
qed

lemma emits_sep_raw: "json_member m \<Longrightarrow> Suc (length m) \<le> c \<Longrightarrow> emits c (sep_raw m) [m]"
  by (rule emits_one [OF _ _ sep_raw_eq]) simp_all

lemma emits_field: "json_member m \<Longrightarrow> Suc (length m) \<le> c \<Longrightarrow> emits c (\<lambda>j. fst (jbuf_field m j)) [m]"
  by (rule emits_one, simp, simp, drule jbuf_field_eq, simp)

subsection \<open>The fields\<close>

lemma length_quote [simp]: "length (quote s) = length s + 2"
  by (simp add: quote_def)

lemma length_member [simp]: "length (member k v) = length k + length v + 3"
  by (simp add: member_def)

lemma snprintf_fits: "length s < n \<Longrightarrow> snprintf n s = (s, length s)"
  by (simp add: snprintf_def)

text \<open>The members a reading, a text and a pair of thresholds are shown as: a reading has four digits,
  or is \<open>null\<close>.\<close>

definition reading :: "string \<Rightarrow> bool \<Rightarrow> double \<Rightarrow> string" where
  "reading key valid v = member key (if valid \<and> isfinite v then fmt_g 4 v else ''null'')"

definition text_of :: "string \<Rightarrow> string \<Rightarrow> string" where
  "text_of key v = member key (quote (escaped v))"

definition pair_of :: "string \<Rightarrow> double \<times> double \<Rightarrow> string" where
  "pair_of key p = member key (''['' @ join '','' [fmt_g 6 (fst p), fmt_g 6 (snd p)] @ '']'')"

lemma emits_null:
  assumes "plain key" and "length key \<le> 50"
  shows "emits (length key + 15) (jbuf_null key) [member key ''null'']"
proof -
  have "json_member (member key ''null'')"
    using assms(1) by (intro json_memberI plain_body json_value.null)
  then have "emits (length key + 15) (\<lambda>j. fst (jbuf_field (member key ''null'') j)) [member key ''null'']"
    by (rule emits_field) simp
  then show ?thesis using assms(2) by (simp add: jbuf_null_def [abs_def] snprintf_fits member_def)
qed

lemma emits_real [buf_intros]:
  assumes "plain key" and "length key \<le> 50" and "dbl_range v"
  shows "emits (length key + 15) (jbuf_real key v) [reading key True v]"
proof (cases "isfinite v")
  case True
  have len: "length (fmt_g 4 v) \<le> 11" using length_fmt_g [of 4 v] assms(3) by simp
  have "json_member (member key (fmt_g 4 v))"
    using True assms(1) by (intro json_memberI plain_body json_fmt_g_finite) auto
  then have "emits (length key + 15) (\<lambda>j. fst (jbuf_field (member key (fmt_g 4 v)) j)) [member key (fmt_g 4 v)]"
    by (rule emits_field) (use len in simp)
  then show ?thesis
    using True len assms(2) by (simp add: jbuf_real_def [abs_def] snprintf_fits member_def reading_def)
next
  case False
  then show ?thesis using emits_null [OF assms(1,2)] by (simp add: jbuf_real_def [abs_def] reading_def)
qed

lemma emits_real_or_null [buf_intros]:
  assumes "plain key" and "length key \<le> 50" and "valid \<Longrightarrow> dbl_range v"
  shows "emits (length key + 15) (real_or_null valid key v) [reading key valid v]"
  using assms emits_real [of key v] emits_null [OF assms(1,2)]
  by (cases valid) (simp_all add: real_or_null_def reading_def)

lemma emits_str:
  assumes "plain key" and "length key \<le> 50" and "length (escaped v) \<le> e" and "e \<le> 1000"
  shows "emits (length key + e + 6) (jbuf_str key v) [text_of key v]"
proof -
  have m: "json_member (member key (quote (escaped v)))"
    using assms(1) by (intro json_memberI plain_body json_value.string json_body_escaped)
  show ?thesis
    unfolding text_of_def
    by (rule emits_one [OF m])
      (use assms in \<open>simp_all add: jbuf_str_def json_escape_eq escaped_plain snprintf_fits jbuf_field_eq
        member_def\<close>)
qed

lemma emits_long:
  assumes "plain key" and "length key \<le> 32" and "\<bar>n\<bar> < 10 ^ 19"
  shows "emits (length key + 24) (jbuf_long key n) [member key (show_int n)]"
proof -
  have len: "length (show_int n) \<le> 20" using length_show_int [of n 19] assms(3) by simp
  have "json_member (member key (show_int n))"
    using assms(1) by (intro json_memberI plain_body json_value.number json_number_show_int)
  then have "emits (length key + 24) (\<lambda>j. fst (jbuf_field (member key (show_int n)) j)) [member key (show_int n)]"
    by (rule emits_field) (use len in simp)
  then show ?thesis using len assms(2) by (simp add: jbuf_long_def [abs_def] snprintf_fits member_def)
qed

text \<open>A value a double can have, and that JSON can express.\<close>

definition shown_ok :: "double \<Rightarrow> bool" where
  "shown_ok x = (dbl_range x \<and> isfinite x)"

lemma emits_pair:
  assumes "plain key" and "length key \<le> 32" and "shown_ok (fst p)" and "shown_ok (snd p)"
  shows "emits (length key + 33) (jbuf_pair key (fst p) (snd p)) [pair_of key p]"
proof -
  have len: "length (pair_of key p) \<le> length key + 32"
    using length_fmt_g [of 6 "fst p"] length_fmt_g [of 6 "snd p"] assms by (simp add: pair_of_def shown_ok_def)
  have "json_value (''['' @ join '','' [fmt_g 6 (fst p), fmt_g 6 (snd p)] @ '']'')"
    by (rule json_value.array) (use assms in \<open>auto simp: shown_ok_def json_fmt_g_finite\<close>)
  then have "json_member (pair_of key p)" unfolding pair_of_def using assms(1) by (intro json_memberI plain_body)
  then have "emits (length key + 33) (\<lambda>j. fst (jbuf_field (pair_of key p) j)) [pair_of key p]"
    by (rule emits_field) (use len in simp)
  moreover have "quote key @ '':['' @ fmt_g 6 (fst p) @ '','' @ fmt_g 6 (snd p) @ '']'' = pair_of key p"
    by (simp add: member_def pair_of_def)
  moreover have "length (pair_of key p) < 128" using len assms(2) by simp
  ultimately show ?thesis by (simp add: jbuf_pair_def [abs_def] snprintf_fits)
qed

lemma emits_pair_if [buf_intros]:
  assumes "plain key" and "length key \<le> 32" and "b \<Longrightarrow> shown_ok (fst p)" and "b \<Longrightarrow> shown_ok (snd p)"
  shows "emits (length key + 33) (pair_if b key p) (if b then [pair_of key p] else [])"
  using assms emits_pair [of key p] emits_id
  by (cases b) (simp_all add: pair_if_def [abs_def] id_def)

subsection \<open>Arrays of strings\<close>

definition list_text :: "string list \<Rightarrow> string" where
  "list_text xs = ''['' @ join '','' (map (\<lambda>x. quote (escaped x)) xs) @ '']''"

lemma json_list_text: "json_value (list_text xs)"
  unfolding list_text_def by (rule json_value.array) (auto intro: json_value.string)

text \<open>Between the brackets: the elements written so far, with their commas.\<close>

definition elements :: "string \<Rightarrow> string list \<Rightarrow> jbuf_t \<times> bool \<Rightarrow> bool" where
  "elements base xs st \<longleftrightarrow>
     out (fst st) = base @ join '','' (map (\<lambda>x. quote (escaped x)) xs) \<and> snd st = (xs \<noteq> []) \<and>
     comma (fst st) \<and> \<not> overflow (fst st)"

lemma array_str_step:
  assumes "elements base xs st" and "length (escaped x) \<le> 90" and "length (out (fst st)) + length (escaped x) + 3 < cap (fst st)"
  shows "elements base (xs @ [x]) (jbuf_array_str x st) \<and> cap (fst (jbuf_array_str x st)) = cap (fst st) \<and>
    length (out (fst (jbuf_array_str x st))) \<le> length (out (fst st)) + length (escaped x) + 3"
proof -
  obtain j e where st: "st = (j, e)" by fastforce
  define tmp where "tmp = (if e then '','' else []) @ quote (escaped x)"
  have len: "length tmp \<le> length (escaped x) + 3" by (simp add: tmp_def)
  have "jbuf_array_str x st = (j\<lparr>out := out j @ tmp\<rparr>, True)"
    using assms(2,3) len
    by (simp add: st jbuf_array_str_def json_escape_eq snprintf_def jbuf_raw_def flip: tmp_def)
  then show ?thesis
    using assms(1) len by (auto simp: elements_def st join_append1 tmp_def)
qed

lemma array_str_fold:
  assumes "elements base ys st" and "list_all (\<lambda>x. length (escaped x) \<le> 90) xs"
    and "length (out (fst st)) + sum_list (map (\<lambda>x. length (escaped x) + 3) xs) < cap (fst st)"
  shows "elements base (ys @ xs) (fold jbuf_array_str xs st) \<and> cap (fst (fold jbuf_array_str xs st)) = cap (fst st) \<and>
    length (out (fst (fold jbuf_array_str xs st))) \<le>
      length (out (fst st)) + sum_list (map (\<lambda>x. length (escaped x) + 3) xs)"
  using assms
proof (induction xs arbitrary: ys st)
  case (Cons x xs)
  have 1: "elements base (ys @ [x]) (jbuf_array_str x st)" "cap (fst (jbuf_array_str x st)) = cap (fst st)"
    "length (out (fst (jbuf_array_str x st))) \<le> length (out (fst st)) + length (escaped x) + 3"
    using array_str_step [OF Cons.prems(1), of x] Cons.prems(2,3) by simp_all
  show ?case using Cons.IH [OF 1(1)] Cons.prems(2,3) 1(2,3) by simp
qed simp

lemma emits_array_of:
  assumes "plain key" and "list_all (\<lambda>x. length (escaped x) \<le> 90) xs"
    and "sum_list (map (\<lambda>x. length (escaped x) + 3) xs) \<le> e"
  shows "emits (length key + e + 6) (array_of key xs) [member key (list_text xs)]"
  unfolding emits_def
proof (intro allI impI)
  fix N pre ms n j
  assume j: "fits N pre ms (n + (length key + e + 6)) j"
  define open_part where "open_part = quote key @ '':[''"
  define j1 where "j1 = sep_raw open_part j"
  define base where "base = out j @ (if comma j then '','' else '''') @ open_part"
  have L: "length (out j) + (n + (length key + e + 6)) < N" "cap j = N"
    using j unfolding fits_def by blast+
  have room: "length (out j) + Suc (length open_part) < cap j"
    using L by (simp add: open_part_def)
  have j1: "j1 = j\<lparr>out := base, comma := True\<rparr>"
    unfolding j1_def sep_raw_eq [OF room] by (simp add: base_def)
  have lb: "length base \<le> length (out j) + length key + 5" by (simp add: base_def open_part_def)
  have start: "elements base [] (j1, False)" using j by (simp add: elements_def j1 fits_def)
  obtain j2 b where f: "fold jbuf_array_str xs (j1, False) = (j2, b)" by fastforce
  have "length (out (fst (j1, False))) + sum_list (map (\<lambda>x. length (escaped x) + 3) xs) < cap (fst (j1, False))"
    using L lb assms(3) by (simp add: j1)
  from array_str_fold [OF start assms(2) this]
  have vs: "elements base xs (j2, b)" "cap j2 = cap j" "length (out j2) \<le> length base + e"
    using f assms(3) by (simp_all add: j1)
  define m where "m = member key (list_text xs)"
  have out: "out j2 = base @ join '','' (map (\<lambda>x. quote (escaped x)) xs)" "comma j2" "\<not> overflow j2"
    using vs(1) by (simp_all add: elements_def)
  have len: "length (out j2) + 1 + n < N" "cap j2 = N"
    using L vs(2,3) lb by simp_all
  then have "array_of key xs j = j2\<lparr>out := out j2 @ '']''\<rparr>"
    using f by (simp add: array_of_def jbuf_raw_def flip: j1_def open_part_def)
  moreover have "json_member m"
    unfolding m_def using assms(1) by (intro json_memberI plain_body json_list_text)
  moreover have o: "out j2 @ '']'' = pre @ join '','' (ms @ [m])"
    using j out(1) by (auto simp: fits_def base_def open_part_def join_append1 m_def member_def list_text_def)
  moreover have "length (out j2) + 1 = length pre + length (join '','' (ms @ [m]))"
    using arg_cong [OF o, of length] by simp
  ultimately have "fits N pre (ms @ [m]) n (array_of key xs j)"
    using j len out by (simp add: fits_def)
  then show "fits N pre (ms @ [member key (list_text xs)]) n (array_of key xs j)" by (simp add: m_def)
qed

subsection \<open>The snapshot\<close>

lemma plain_simps [simp]:
  "plain []" "plain (c # s) = (c \<noteq> DQUOTE \<and> c \<noteq> BACKSLASH \<and> 32 \<le> code c \<and> plain s)"
  by (simp_all add: plain_def)

lemma pos_range_mid: "1 / 1000 \<le> m \<Longrightarrow> m \<le> 10 ^ 12 \<Longrightarrow> pos_range m"
proof -
  assume m: "1 / 1000 \<le> m" "m \<le> 10 ^ 12"
  have "(10::rat) powi (- 324) \<le> 10 powi (- 3)" by (rule power_int_increasing) simp_all
  also have "\<dots> = 1 / 1000" by (simp add: power_int_minus)
  also note m(1)
  finally have "10 powi (- 324) \<le> m" .
  have "m \<le> 10 powi 12" using m(2) by simp
  also have "(10::rat) powi 12 < 10 powi 309" by (subst powi_10_less) simp
  finally show ?thesis using \<open>10 powi (- 324) \<le> m\<close> by (simp only: pos_range_def conj_absorb)
qed

lemma dbl_range_mid: "r = 0 \<or> (1 / 1000 \<le> \<bar>r\<bar> \<and> \<bar>r\<bar> \<le> 10 ^ 12) \<Longrightarrow> dbl_range (Fin r)"
  using pos_range_mid [of "\<bar>r\<bar>"] by (auto simp: dbl_range_def)

lemma shown_ok_const: "1 / 1000 \<le> m \<Longrightarrow> m \<le> 10 ^ 12 \<Longrightarrow> shown_ok (Fin m)"
  using pos_range_mid [of m] by (simp add: shown_ok_def dbl_range_def)

text \<open>
  Every number on its way to \<open>printf\<close> is a double; the exact arithmetic of the model has to say so.
  These are the numbers of a snapshot, and the bounds of its thresholds.
\<close>

definition current_values :: "db_row_t \<Rightarrow> config_t \<Rightarrow> hw_t \<Rightarrow> double list" where
  "current_values r cfg hw =
     map (\<lambda>x. load_convert x (num_cores hw) (Some (cpu_load_card_unit cfg)))
       [r_load_1m r, r_load_5m r, r_load_15m r] @
     [r_cpu_user_percent r, r_cpu_system_percent r, r_cpu_idle_percent r,
      r_mem_available_percent r, r_mem_available_mb r, r_mem_total_mb r,
      r_swap_free_percent r, r_swap_free_mb r, r_swap_total_mb r,
      r_swap_in_ram r, r_swap_in_bps r, r_swap_out_ram r, r_swap_out_bps r,
      r_disk_available_percent r, r_disk_available_gb r, r_disk_total_gb r,
      temp_convert (r_temp_celsius r) (Some (temp_card_unit cfg)) (tref_of cfg hw),
      net_convert (r_net_rx_bps r) (Some (net_card_unit cfg)) (nref_of cfg hw),
      net_convert (r_net_tx_bps r) (Some (net_card_unit cfg)) (nref_of cfg hw),
      r_uptime_seconds r]"

definition threshold_values :: "db_row_t \<Rightarrow> config_t \<Rightarrow> hw_t \<Rightarrow> double list" where
  "threshold_values r cfg hw =
     [fst (load_thresholds cfg hw), snd (load_thresholds cfg hw),
      Fin 1 * swap_io_scale r cfg, Fin 5 * swap_io_scale r cfg,
      fst (temp_thresholds cfg hw), snd (temp_thresholds cfg hw),
      net_threshold cfg hw (85 / 100), net_threshold cfg hw (98 / 100)]"

text \<open>What a snapshot says: the readings of the cards that are on, in the units of the configuration.\<close>

definition readings :: "db_row_t \<Rightarrow> config_t \<Rightarrow> hw_t \<Rightarrow> string list" where
  "readings r cfg hw =
     (let load = (\<lambda>x. load_convert x (num_cores hw) (Some (cpu_load_card_unit cfg)));
          net = (\<lambda>x. net_convert x (Some (net_card_unit cfg)) (nref_of cfg hw));
          mem_pct = (ch0 (memory_card_unit cfg) = CHR ''%''); swap_pct = (ch0 (swap_card_unit cfg) = CHR ''%'');
          disk_pct = (ch0 (disk_card_unit cfg) = CHR ''%''); ram = io_ram cfg;
          card = (\<lambda>n ms. if has_card cfg n then ms else [])
      in text_of ''timestamp'' (r_timestamp r) #
         card ''cpu_load'' [reading ''load_1m'' True (load (r_load_1m r)), reading ''load_5m'' True (load (r_load_5m r)),
           reading ''load_15m'' True (load (r_load_15m r))] @
         card ''cpu_usage'' [reading ''cpu_user_percent'' (r_cpu_valid r) (r_cpu_user_percent r),
           reading ''cpu_system_percent'' (r_cpu_valid r) (r_cpu_system_percent r),
           reading ''cpu_idle_percent'' (r_cpu_valid r) (r_cpu_idle_percent r)] @
         card ''memory'' (reading ''mem_available'' True (if mem_pct then r_mem_available_percent r else r_mem_available_mb r) #
           (if mem_pct then [] else [reading ''mem_total'' True (r_mem_total_mb r)])) @
         card ''swap'' (reading ''swap_free'' (r_swap_valid r) (if swap_pct then r_swap_free_percent r else r_swap_free_mb r) #
           (if swap_pct then [] else [reading ''swap_total'' (r_swap_valid r) (r_swap_total_mb r)])) @
         card ''swap_io'' [reading ''swap_in'' (r_swap_io_valid r) (if ram then r_swap_in_ram r else r_swap_in_bps r),
           reading ''swap_out'' (r_swap_io_valid r) (if ram then r_swap_out_ram r else r_swap_out_bps r)] @
         card ''disk'' (reading ''disk_available'' True (if disk_pct then r_disk_available_percent r else r_disk_available_gb r) #
           (if disk_pct then [] else [reading ''disk_total'' True (r_disk_total_gb r)])) @
         card ''temp'' [reading ''temp'' (r_temp_valid r)
           (temp_convert (r_temp_celsius r) (Some (temp_card_unit cfg)) (tref_of cfg hw))] @
         card ''net'' [reading ''net_rx'' (r_net_valid r) (net (r_net_rx_bps r)),
           reading ''net_tx'' (r_net_valid r) (net (r_net_tx_bps r))] @
         card ''uptime'' [reading ''uptime_seconds'' True (r_uptime_seconds r)])"

lemma emits_readings:
  assumes "length (r_timestamp r) \<le> 23" and "list_all dbl_range (current_values r cfg hw)"
  shows "emits 605 (run [jbuf_str ''timestamp'' (r_timestamp r), cur_load r cfg hw, cur_cpu r cfg, cur_memory r cfg,
    cur_swap r cfg, cur_swap_io r cfg, cur_disk r cfg, cur_temp r cfg hw, cur_net r cfg hw, cur_uptime r cfg])
    (readings r cfg hw)"
proof -
  note v = assms(2) [unfolded current_values_def, simplified]
  have len: "length (escaped (r_timestamp r)) \<le> 138" using assms(1) length_escaped [of "r_timestamp r"] by simp
  show ?thesis
    unfolding cur_load_def cur_cpu_def cur_memory_def cur_swap_def cur_swap_io_def cur_disk_def cur_temp_def cur_net_def
      cur_uptime_def Let_def
    by (rule emits_as, ((rule buf_intros emits_str [where e = 138] | simp add: v len)+)[1], simp)
      (simp add: readings_def Let_def)
qed

text \<open>The units of the cards and charts, and what the page looks like.\<close>

definition unit_texts :: "config_t \<Rightarrow> string list" where
  "unit_texts cfg =
     [text_of ''mem_card_unit'' (memory_card_unit cfg), text_of ''mem_chart_unit'' (memory_chart_unit cfg),
      text_of ''swap_card_unit'' (swap_card_unit cfg), text_of ''swap_chart_unit'' (swap_chart_unit cfg),
      text_of ''swap_io_card_unit'' (swap_io_card_unit cfg), text_of ''swap_io_chart_unit'' (swap_io_chart_unit cfg),
      text_of ''disk_card_unit'' (disk_card_unit cfg), text_of ''disk_chart_unit'' (disk_chart_unit cfg),
      text_of ''temp_card_unit'' (temp_card_unit cfg), text_of ''temp_chart_unit'' (temp_chart_unit cfg),
      text_of ''net_card_unit'' (net_card_unit cfg), text_of ''net_chart_unit'' (net_chart_unit cfg),
      text_of ''cpu_load_card_unit'' (cpu_load_card_unit cfg), text_of ''cpu_load_chart_unit'' (cpu_load_chart_unit cfg)]"

definition look_texts :: "config_t \<Rightarrow> string list" where
  "look_texts cfg =
     [text_of ''title'' (title cfg), text_of ''theme'' (theme cfg),
      member ''show_footer'' (if show_footer cfg then ''true'' else ''false''),
      text_of ''uptime_unit'' (uptime_unit cfg)]"

lemma emits_unit_str:
  assumes "plain key" and "length key \<le> 19" and "v \<in> set us" and "list_all (\<lambda>u. plain u \<and> length u \<le> 5) us"
  shows "emits 30 (jbuf_str key v) [text_of key v]"
proof -
  have "length (escaped v) \<le> 5" using assms(3,4) by (auto simp: list_all_iff escaped_plain)
  then have "emits (length key + 5 + 6) (jbuf_str key v) [text_of key v]" using assms(1,2) by (intro emits_str) simp_all
  then show ?thesis by (rule emits_mono) (use assms(2) in simp)
qed

lemma units_plain:
  "list_all (\<lambda>u. plain u \<and> length u \<le> 5) SIZE_UNITS" "list_all (\<lambda>u. plain u \<and> length u \<le> 5) TEMP_UNITS"
  "list_all (\<lambda>u. plain u \<and> length u \<le> 5) LOAD_UNITS" "list_all (\<lambda>u. plain u \<and> length u \<le> 5) NET_UNITS"
  "list_all (\<lambda>u. plain u \<and> length u \<le> 5) SWAP_IO_UNITS" "list_all (\<lambda>u. plain u \<and> length u \<le> 5) UPTIME_UNITS"
  by (simp_all add: unit_lists)

lemma emits_unit:
  assumes "plain key" and "length key \<le> 19"
    and "v \<in> set SIZE_UNITS \<union> set TEMP_UNITS \<union> set LOAD_UNITS \<union> set NET_UNITS \<union> set SWAP_IO_UNITS \<union> set UPTIME_UNITS"
  shows "emits 30 (jbuf_str key v) [text_of key v]"
  using assms emits_unit_str [OF assms(1,2) _ units_plain(1)] emits_unit_str [OF assms(1,2) _ units_plain(2)]
    emits_unit_str [OF assms(1,2) _ units_plain(3)] emits_unit_str [OF assms(1,2) _ units_plain(4)]
    emits_unit_str [OF assms(1,2) _ units_plain(5)] emits_unit_str [OF assms(1,2) _ units_plain(6)] by blast

lemma emits_cur_units:
  assumes "units_ok cfg"
  shows "emits 420 (cur_units cfg) (unit_texts cfg)"
proof -
  note u = assms [unfolded units_ok_def]
  show ?thesis
    unfolding cur_units_def
    by (rule emits_as, ((rule emits_run_Nil emits_run_Cons emits_unit | simp add: u)+)[1], simp)
      (simp add: unit_texts_def)
qed

lemma theme_escaped: "texts_ok cfg \<Longrightarrow> length (escaped (theme cfg)) \<le> 5"
  by (auto simp: texts_ok_def escape_char_plain)

lemma emits_cur_look:
  assumes "units_ok cfg" and "texts_ok cfg"
  shows "emits 840 (cur_look cfg) (look_texts cfg)"
proof -
  have "length (escaped (title cfg)) \<le> 762"
    using assms(2) length_escaped [of "title cfg"] by (simp add: texts_ok_def)
  then have title: "emits 773 (jbuf_str ''title'' (title cfg)) [text_of ''title'' (title cfg)]"
    using emits_str [of "''title''" "title cfg" 762] by simp
  have theme: "emits 16 (jbuf_str ''theme'' (theme cfg)) [text_of ''theme'' (theme cfg)]"
    using emits_str [of "''theme''" "theme cfg" 5] theme_escaped [OF assms(2)] by simp
  have uptime: "emits 30 (jbuf_str ''uptime_unit'' (uptime_unit cfg)) [text_of ''uptime_unit'' (uptime_unit cfg)]"
    using assms(1) by (intro emits_unit) (simp_all add: units_ok_def)
  define m where "m = member ''show_footer'' (if show_footer cfg then ''true'' else ''false'')"
  have "json_member m"
    unfolding m_def by (intro json_memberI plain_body) (simp_all add: json_value.true json_value.false)
  then have "emits 20 (sep_raw m) [m]" by (rule emits_sep_raw) (simp add: m_def)
  then have footer: "emits 20 (sep_raw (quote ''show_footer'' @ (if show_footer cfg then '':true'' else '':false''))) [m]"
    by (simp add: m_def member_def split: if_splits)
  show ?thesis
    unfolding cur_look_def
    by (rule emits_as, (rule title theme uptime footer emits_run_Nil emits_run_Cons)+, simp) (simp add: look_texts_def m_def)
qed

text \<open>The lists: at most 8 ranges of 7 bytes, at most 16 names of 9.\<close>

lemma sum_list_le: "(\<And>x. x \<in> set xs \<Longrightarrow> f x \<le> (k::nat)) \<Longrightarrow> sum_list (map f xs) \<le> length xs * k"
  by (induction xs) (auto simp: add_mono)

definition names_text :: "string list \<Rightarrow> int \<Rightarrow> string" where
  "names_text xs count = (if count = 0 then ''null'' else list_text (take (nat count) xs))"

definition list_texts :: "config_t \<Rightarrow> string list" where
  "list_texts cfg =
     [member ''ranges'' (list_text (ranges cfg)), member ''charts'' (names_text (charts cfg) (chart_count cfg)),
      member ''cards'' (names_text (cards cfg) (card_count cfg))]"

lemma emits_names_of:
  assumes "names_ok known xs count" and "list_all (\<lambda>u. plain u \<and> length u \<le> 9) known" and "plain key"
  shows "emits (length key + 198) (names_of key xs count) [member key (names_text xs count)]"
proof -
  have short: "length (escaped x) \<le> 9" if "x \<in> set xs" for x
    using that assms(1,2) by (auto simp: names_ok_def list_all_iff escaped_plain)
  then have "sum_list (map (\<lambda>x. length (escaped x) + 3) (take (nat count) xs)) \<le> length (take (nat count) xs) * 12"
    by (intro sum_list_le) (auto dest: in_set_takeD)
  also have "\<dots> \<le> 192" using assms(1) by (simp add: names_ok_def min_def)
  finally have arr: "emits (length key + 192 + 6) (array_of key (take (nat count) xs)) [member key (list_text (take (nat count) xs))]"
    using short by (intro emits_array_of assms) (force simp: list_all_iff dest: in_set_takeD)
  have "json_member (member key ''null'')"
    using assms(3) by (intro json_memberI plain_body json_value.null)
  then have null: "emits (length key + 198) (sep_raw (member key ''null'')) [member key ''null'']"
    by (rule emits_sep_raw) simp
  have "json_member (member key (list_text []))"
    using assms(3) by (intro json_memberI plain_body json_list_text)
  then have none: "emits (length key + 198) (sep_raw (member key (list_text []))) [member key (list_text [])]"
    by (rule emits_sep_raw) (simp add: list_text_def)
  show ?thesis
    using arr null none by (cases "count = 0"; cases "count < 0")
      (simp_all add: names_of_def [abs_def] names_text_def member_def list_text_def add.assoc)
qed

lemma emits_cur_lists:
  assumes "lists_ok cfg" and "ranges_ok lmax cfg"
  shows "emits 800 (cur_lists cfg) (list_texts cfg)"
proof -
  have short: "length (escaped x) \<le> 42" if "x \<in> set (ranges cfg)" for x
    using that assms(2) length_escaped [of x] by (force simp: ranges_ok_def list_all_iff)
  then have "sum_list (map (\<lambda>x. length (escaped x) + 3) (ranges cfg)) \<le> length (ranges cfg) * 45"
    by (intro sum_list_le) auto
  also have "\<dots> \<le> 360" using assms(2) by (simp add: ranges_ok_def MAX_RANGES_def)
  finally have ranges: "emits (length ''ranges'' + 360 + 6) (array_of ''ranges'' (ranges cfg)) [member ''ranges'' (list_text (ranges cfg))]"
    using short by (intro emits_array_of) (force simp: list_all_iff)+
  have known: "list_all (\<lambda>u. plain u \<and> length u \<le> 9) CARD_NAMES" "list_all (\<lambda>u. plain u \<and> length u \<le> 9) CHART_NAMES"
    by (simp_all add: CARD_NAMES_def CHART_NAMES_def)
  have "emits (length ''charts'' + 198) (names_of ''charts'' (charts cfg) (chart_count cfg))
      [member ''charts'' (names_text (charts cfg) (chart_count cfg))]"
    and "emits (length ''cards'' + 198) (names_of ''cards'' (cards cfg) (card_count cfg))
      [member ''cards'' (names_text (cards cfg) (card_count cfg))]"
    using assms(1) emits_names_of [OF _ known(2), of "charts cfg" "chart_count cfg" "''charts''"]
      emits_names_of [OF _ known(1), of "cards cfg" "card_count cfg" "''cards''"]
    by (simp_all add: lists_ok_def)
  note parts = ranges this
  show ?thesis
    unfolding cur_lists_def
    by (rule emits_as, (rule parts emits_run_Nil emits_run_Cons)+, simp) (simp add: list_texts_def)
qed

text \<open>The warning and critical levels of the cards that are on.\<close>

definition threshold_pairs :: "db_row_t \<Rightarrow> config_t \<Rightarrow> hw_t \<Rightarrow> string list" where
  "threshold_pairs r cfg hw =
     (let card = (\<lambda>n key p. if has_card cfg n then [pair_of key p] else [])
      in card ''cpu_load'' ''thresh_load'' (load_thresholds cfg hw) @
         card ''cpu_usage'' ''thresh_cpu'' (Fin 70, Fin 90) @
         card ''memory'' ''thresh_mem'' (Fin 70, Fin 90) @
         card ''swap'' ''thresh_swap'' (Fin 80, Fin 95) @
         card ''swap_io'' ''thresh_swap_io'' (Fin 1 * swap_io_scale r cfg, Fin 5 * swap_io_scale r cfg) @
         card ''disk'' ''thresh_disk'' (Fin 80, Fin 90) @
         card ''temp'' ''thresh_temp'' (temp_thresholds cfg hw) @
         card ''net'' ''thresh_net'' (net_threshold cfg hw (85 / 100), net_threshold cfg hw (98 / 100)))"

lemma emits_thresholds:
  assumes "list_all shown_ok (threshold_values r cfg hw)"
  shows "emits 354 (cur_thresholds r cfg hw) (threshold_pairs r cfg hw)"
proof -
  note v = assms [unfolded threshold_values_def, simplified]
  show ?thesis
    unfolding cur_thresholds_def
    by (rule emits_as, ((rule buf_intros | simp add: v shown_ok_const)+)[1], simp) (simp add: threshold_pairs_def)
qed

definition snapshot_members :: "db_row_t \<Rightarrow> config_t \<Rightarrow> hw_t \<Rightarrow> string list" where
  "snapshot_members r cfg hw = readings r cfg hw @ unit_texts cfg @ look_texts cfg @ list_texts cfg @ threshold_pairs r cfg hw"

lemma emits_current:
  assumes "config_ok lmax cfg" and "length (r_timestamp r) \<le> 23"
    and "list_all dbl_range (current_values r cfg hw)" and "list_all shown_ok (threshold_values r cfg hw)"
  shows "emits 3050 (json_serialize_current r cfg hw) (snapshot_members r cfg hw)"
proof -
  have c: "units_ok cfg" "texts_ok cfg" "lists_ok cfg" "ranges_ok lmax cfg"
    using assms(1) by (simp_all add: config_ok_def)
  note parts = emits_cur_units [OF c(1)] emits_cur_look [OF c(1,2)] emits_cur_lists [OF c(3,4)] emits_thresholds [OF assms(4)]
  have "emits 2414 (run [cur_units cfg, cur_look cfg, cur_lists cfg, cur_thresholds r cfg hw])
      (unit_texts cfg @ look_texts cfg @ list_texts cfg @ threshold_pairs r cfg hw)"
    by (rule emits_as, (rule parts emits_run_Nil emits_run_Cons)+, simp, simp)
  from emits_seq [OF emits_readings [OF assms(2,3)] this]
  have "emits (605 + 2414) (json_serialize_current r cfg hw) (snapshot_members r cfg hw)"
    by (simp add: json_serialize_current_def [abs_def] snapshot_members_def)
  then show ?thesis by (rule emits_mono) simp
qed

text \<open>An object built by a writer within the braces of \<open>jbuf_begin\<close> and \<open>jbuf_end\<close>.\<close>

definition object_text :: "string list \<Rightarrow> string" where
  "object_text ms = ''{'' @ join '','' ms @ ''}''"

lemma emits_object:
  assumes "emits c f ms" and "c + 2 < N"
  shows "jbuf_end (f (jbuf_begin (jbuf_init N))) = \<lparr>out = object_text ms, cap = N, comma = (ms \<noteq> []), overflow = False\<rparr>"
    and "json_value (object_text ms)" and "length (object_text ms) < N"
proof -
  have "fits N ''{'' [] (1 + c) (jbuf_begin (jbuf_init N))"
    using assms(2) by (simp add: fits_def jbuf_begin_def jbuf_init_def jbuf_raw_def)
  from emitsD [OF assms(1) this] have ms: "fits N ''{'' ms 1 (f (jbuf_begin (jbuf_init N)))" by simp
  define j where "j = f (jbuf_begin (jbuf_init N))"
  have j: "cap j = N" "out j = ''{'' @ join '','' ms" "comma j = (ms \<noteq> [])" "\<not> overflow j"
    "length (out j) + 1 < N" "list_all json_member ms"
    using ms unfolding fits_def j_def by blast+
  then have "jbuf_end j = j\<lparr>out := out j @ ''}''\<rparr>" by (simp only: jbuf_end_def jbuf_raw_def) simp
  then show "jbuf_end (f (jbuf_begin (jbuf_init N))) = \<lparr>out = object_text ms, cap = N, comma = (ms \<noteq> []), overflow = False\<rparr>"
    and "length (object_text ms) < N"
    unfolding j_def [symmetric] using j by (cases j; simp add: object_text_def)+
  show "json_value (object_text ms)" unfolding object_text_def using j(6) by (rule json_object_members)
qed

subsection \<open>A history point\<close>

definition point_values :: "db_row_t \<Rightarrow> config_t \<Rightarrow> hw_t \<Rightarrow> double list" where
  "point_values r cfg hw =
     map (\<lambda>x. load_convert x (num_cores hw) (Some (cpu_load_chart_unit cfg)))
       [r_load_1m r, r_load_5m r, r_load_15m r] @
     [r_cpu_user_percent r, r_cpu_system_percent r, r_cpu_idle_percent r,
      r_mem_available_percent r, r_mem_available_mb r, r_mem_total_mb r,
      r_swap_free_percent r, r_swap_free_mb r, r_swap_total_mb r,
      r_swap_in_ram r, r_swap_in_bps r, r_swap_out_ram r, r_swap_out_bps r,
      r_disk_available_percent r, r_disk_available_gb r, r_disk_total_gb r,
      temp_convert (r_temp_celsius r) (Some (temp_chart_unit cfg)) (tref_of cfg hw),
      net_convert (r_net_rx_bps r) (Some (net_chart_unit cfg)) (nref_of cfg hw),
      net_convert (r_net_tx_bps r) (Some (net_chart_unit cfg)) (nref_of cfg hw),
      r_uptime_seconds r]"

definition point_members :: "db_row_t \<Rightarrow> config_t \<Rightarrow> hw_t \<Rightarrow> string list" where
  "point_members r cfg hw =
     (let load = (\<lambda>x. load_convert x (num_cores hw) (Some (cpu_load_chart_unit cfg)));
          net = (\<lambda>x. net_convert x (Some (net_chart_unit cfg)) (nref_of cfg hw));
          mem_pct = (ch0 (memory_chart_unit cfg) = CHR ''%''); swap_pct = (ch0 (swap_chart_unit cfg) = CHR ''%'');
          disk_pct = (ch0 (disk_chart_unit cfg) = CHR ''%''); ram = (ch0 (swap_io_chart_unit cfg) = CHR ''r'');
          chart = (\<lambda>n ms. if has_chart cfg n then ms else [])
      in member ''t'' (show_int (r_unix_time r)) #
         chart ''cpu_load'' [reading ''l1'' True (load (r_load_1m r)), reading ''l5'' True (load (r_load_5m r)),
           reading ''l15'' True (load (r_load_15m r))] @
         chart ''cpu_usage'' [reading ''cu'' (r_cpu_valid r) (r_cpu_user_percent r),
           reading ''cs'' (r_cpu_valid r) (r_cpu_system_percent r), reading ''ci'' (r_cpu_valid r) (r_cpu_idle_percent r)] @
         chart ''memory'' (reading ''ma'' True (if mem_pct then r_mem_available_percent r else r_mem_available_mb r) #
           (if mem_pct then [] else [reading ''mt'' True (r_mem_total_mb r)])) @
         chart ''swap'' (reading ''sf'' (r_swap_valid r) (if swap_pct then r_swap_free_percent r else r_swap_free_mb r) #
           (if swap_pct then [] else [reading ''st'' (r_swap_valid r) (r_swap_total_mb r)])) @
         chart ''swap_io'' [reading ''si'' (r_swap_io_valid r) (if ram then r_swap_in_ram r else r_swap_in_bps r),
           reading ''so'' (r_swap_io_valid r) (if ram then r_swap_out_ram r else r_swap_out_bps r)] @
         chart ''disk'' (reading ''da'' True (if disk_pct then r_disk_available_percent r else r_disk_available_gb r) #
           (if disk_pct then [] else [reading ''dt'' True (r_disk_total_gb r)])) @
         chart ''temp'' [reading ''tp'' (r_temp_valid r)
           (temp_convert (r_temp_celsius r) (Some (temp_chart_unit cfg)) (tref_of cfg hw))] @
         chart ''net'' [reading ''nr'' (r_net_valid r) (net (r_net_rx_bps r)),
           reading ''nt'' (r_net_valid r) (net (r_net_tx_bps r))] @
         [reading ''up'' True (r_uptime_seconds r)])"

lemma emits_point:
  assumes "\<bar>r_unix_time r\<bar> < 10 ^ 19" and "list_all dbl_range (point_values r cfg hw)"
  shows "emits 400 (json_serialize_point r cfg hw) (point_members r cfg hw)"
proof -
  note v = assms(2) [unfolded point_values_def, simplified]
  show ?thesis
    unfolding json_serialize_point_def point_load_def point_cpu_def point_memory_def point_swap_def point_swap_io_def
      point_disk_def point_temp_def point_net_def Let_def
    by (rule emits_as, ((rule buf_intros emits_long [OF _ _ assms(1)] | simp add: v)+)[1], simp)
      (simp add: point_members_def Let_def)
qed

subsection \<open>Properties\<close>

text \<open>C20: A string in the JSON output means what it meant: \<open>json_escape\<close> succeeds exactly when the
  escaped text and its terminating zero fit, what it writes is the body of a JSON string, and reading
  the escapes back gives the string that was passed in, whatever its bytes are.\<close>

theorem json_escape_roundtrip:
  "(json_escape n s = None \<longleftrightarrow> n \<le> length (escaped s)) \<and>
   (case json_escape n s of None \<Rightarrow> True
    | Some e \<Rightarrow> json_body e \<and> length e < n \<and> unescape e = s)"
  by (simp add: json_escape_eq unescape_escaped)

end
