(* ===== verification/JsonFits.thy ===== *)
theory JsonFits
  imports JsonProps
begin

text \<open>
  What the daemon sends fits its buffers, is JSON and says what it should: the snapshot in its 4096
  bytes, a history point in its 512, and the object with the units of a window in its 256. The
  contracts of the writers come from JsonProps; the units object is a nested one, written in place.
\<close>

subsection \<open>The units of a window\<close>

lemma unit_step_range: "0 < steps \<Longrightarrow> - 1 \<le> unit_step mx steps factor \<and> unit_step mx steps factor < steps"
  using unit_climb_spec [of 0 steps mx factor] by (auto simp: unit_step_def)

definition entry_value :: "string \<Rightarrow> double \<Rightarrow> double \<Rightarrow> string" where
  "entry_value sy mul dv =
     object_text [member ''sym'' (quote sy), member ''mul'' (fmt_g 6 mul), member ''div'' (fmt_g 6 dv)]"

text \<open>The entry of a quantity with its greatest value: the step of its ladder, if there is one.\<close>

definition entry_members :: "string \<Rightarrow> double \<Rightarrow> string list \<Rightarrow> int \<Rightarrow> double \<Rightarrow> double \<Rightarrow> nat \<Rightarrow> string list" where
  "entry_members key mx ladder steps mul factor base =
     (let step = unit_step (mx * mul div dbl_pow factor base) steps factor
      in if step < 0 then []
         else [member key (entry_value (ladder ! nat step) mul (dbl_pow factor (nat step + base)))])"

definition unit_members :: "maxima \<Rightarrow> config_t \<Rightarrow> string list" where
  "unit_members m cfg =
     (let bits = (ch0 (net_chart_unit cfg) = CHR ''b'' \<and> ch1 (net_chart_unit cfg) = CHR ''i'')
      in (if ch0 (memory_chart_unit cfg) \<noteq> CHR ''%''
          then entry_members ''mem'' (mx_mem m) MB_LADDER 3 (Fin 1) (Fin 1024) 0 else []) @
         (if ch0 (swap_chart_unit cfg) \<noteq> CHR ''%''
          then entry_members ''swap'' (mx_swap m) MB_LADDER 3 (Fin 1) (Fin 1024) 0 else []) @
         (if ch0 (swap_io_chart_unit cfg) = CHR ''b''
          then entry_members ''swap_io'' (mx_swap_io m) BYTES_LADDER 3 (Fin 1) (Fin 1024) 1 else []) @
         (if ch0 (disk_chart_unit cfg) \<noteq> CHR ''%''
          then entry_members ''disk'' (mx_disk m) GB_LADDER 3 (Fin 1) (Fin 1024) 0 else []) @
         (if ch0 (net_chart_unit cfg) \<noteq> CHR ''%''
          then entry_members ''net'' (mx_net m) (if bits then BITS_LADDER else BYTES_LADDER) 3
            (if bits then Fin 8 else Fin 1) (if bits then Fin 1000 else Fin 1024) 1 else []))"

lemma json_entry_value: "plain sy \<Longrightarrow> isfinite mul \<Longrightarrow> isfinite dv \<Longrightarrow> json_value (entry_value sy mul dv)"
  unfolding entry_value_def object_text_def
  by (intro json_object_members) (auto intro!: json_memberI plain_body json_value.string json_fmt_g_finite)

lemma unit_entry_text:
  "quote key @ '':{'' @ quote ''sym'' @ '':'' @ quote sy @ '','' @ quote ''mul'' @ '':'' @ fmt_g 6 mul @ '','' @
     quote ''div'' @ '':'' @ fmt_g 6 dv @ ''}'' = member key (entry_value sy mul dv)"
  by (simp add: member_def entry_value_def object_text_def)

lemma emits_unit_entry:
  assumes "plain key" and "length key \<le> 20" and "length ladder = 3" 
    and "list_all (\<lambda>s. plain s \<and> length s \<le> l) ladder" and "l \<le> 5"
    and "isfinite mul" and "length (fmt_g 6 mul) = 1"
    and "\<And>k. k < 3 \<Longrightarrow> isfinite (dbl_pow factor (k + base)) \<and> length (fmt_g 6 (dbl_pow factor (k + base))) \<le> 11"
  shows "emits (length key + l + 40) (unit_entry key mx ladder 3 mul factor base)
    (entry_members key mx ladder 3 mul factor base)"
proof -
  define step where "step = unit_step (mx * mul div dbl_pow factor base) 3 factor"
  have step: "- 1 \<le> step" "step < 3" unfolding step_def using unit_step_range [of 3] by simp_all
  show ?thesis
  proof (cases "step < 0")
    case True
    then have "unit_entry key mx ladder 3 mul factor base = id"
      by (auto simp: unit_entry_def step_def)
    then show ?thesis using True emits_id by (simp add: entry_members_def step_def)
  next
    case False
    define m where "m = member key (entry_value (ladder ! nat step) mul (dbl_pow factor (nat step + base)))"
    have k: "nat step < 3" using step False by simp
    have sy: "plain (ladder ! nat step)" "length (ladder ! nat step) \<le> l"
      using assms(3,4) k by (auto simp: list_all_iff)
    have "json_member m"
      unfolding m_def using assms(1,6,8) k sy by (intro json_memberI plain_body json_entry_value) auto
    moreover have len: "length m \<le> length key + l + 39"
      using sy(2) assms(7) assms(8) [OF k] by (simp add: m_def entry_value_def object_text_def)
    moreover have "unit_entry key mx ladder 3 mul factor base = sep_raw m"
      unfolding unit_entry_def [abs_def] Let_def step_def [symmetric] unit_entry_text m_def [symmetric]
      using False len assms(2,5) by (simp add: snprintf_fits)
    moreover have "entry_members key mx ladder 3 mul factor base = [m]"
      using False by (simp add: entry_members_def Let_def step_def m_def)
    ultimately show ?thesis using emits_sep_raw [of m] by simp
  qed
qed

lemma unit_numbers:
  "fmt_g 6 (Fin 1) = ''1''" "fmt_g 6 (Fin 8) = ''8''" "fmt_g 6 (Fin 1024) = ''1024''"
  "fmt_g 6 (Fin 1048576) = ''1.04858e+06''" "fmt_g 6 (Fin 1073741824) = ''1.07374e+09''"
  "fmt_g 6 (Fin 1000) = ''1000''" "fmt_g 6 (Fin 1000000) = ''1e+06''" "fmt_g 6 (Fin 1000000000) = ''1e+09''"
  by (simp_all add: fmt_eval)
lemma emits_unit_entries: "emits 240 (unit_entries mx cfg) (unit_members mx cfg)"
proof -
  have b: "fmt_g 6 (Fin 1024) = ''1024''" by (rule unit_numbers)
  have pow: "isfinite (dbl_pow (Fin 1024) k) \<and> length (fmt_g 6 (dbl_pow (Fin 1024) k)) \<le> 11" if "k < 4" for k
  proof -
    from that have "k \<in> {0, 1, 2, 3}" by auto
    then show ?thesis by (auto simp: unit_numbers)
  qed
  have pow10: "isfinite (dbl_pow (Fin 1000) k) \<and> length (fmt_g 6 (dbl_pow (Fin 1000) k)) \<le> 11" if "k < 4" for k
  proof -
    from that have "k \<in> {0, 1, 2, 3}" by auto
    then show ?thesis by (auto simp: unit_numbers)
  qed
  have e: "emits (length k + l + 40) (unit_entry k m ladder 3 (Fin 1) (Fin 1024) base)
      (entry_members k m ladder 3 (Fin 1) (Fin 1024) base)"
    if "plain k" "length k \<le> 20" "length ladder = 3" "list_all (\<lambda>s. plain s \<and> length s \<le> l) ladder" "l \<le> 5" "base \<le> 1"
    for k l m ladder base
    using that by (intro emits_unit_entry) (auto simp: unit_numbers(1) pow [simplified])
  have e8: "emits (length k + l + 40) (unit_entry k m ladder 3 (Fin 8) (Fin 1000) base)
      (entry_members k m ladder 3 (Fin 8) (Fin 1000) base)"
    if "plain k" "length k \<le> 20" "length ladder = 3" "list_all (\<lambda>s. plain s \<and> length s \<le> l) ladder" "l \<le> 5" "base \<le> 1"
    for k l m ladder base
    using that by (intro emits_unit_entry) (auto simp: unit_numbers(2) pow10 [simplified])
  have parts:
    "emits 45 (if p1 then unit_entry ''mem'' (mx_mem mx) MB_LADDER 3 (Fin 1) (Fin 1024) 0 else id)
      (if p1 then entry_members ''mem'' (mx_mem mx) MB_LADDER 3 (Fin 1) (Fin 1024) 0 else [])"
    "emits 46 (if p2 then unit_entry ''swap'' (mx_swap mx) MB_LADDER 3 (Fin 1) (Fin 1024) 0 else id)
      (if p2 then entry_members ''swap'' (mx_swap mx) MB_LADDER 3 (Fin 1) (Fin 1024) 0 else [])"
    "emits 51 (if p3 then unit_entry ''swap_io'' (mx_swap_io mx) BYTES_LADDER 3 (Fin 1) (Fin 1024) 1 else id)
      (if p3 then entry_members ''swap_io'' (mx_swap_io mx) BYTES_LADDER 3 (Fin 1) (Fin 1024) 1 else [])"
    "emits 46 (if p4 then unit_entry ''disk'' (mx_disk mx) GB_LADDER 3 (Fin 1) (Fin 1024) 0 else id)
      (if p4 then entry_members ''disk'' (mx_disk mx) GB_LADDER 3 (Fin 1) (Fin 1024) 0 else [])" for p1 p2 p3 p4
    using e [of "''mem''" MB_LADDER 2] e [of "''swap''" MB_LADDER 2] e [of "''swap_io''" BYTES_LADDER 4]
      e [of "''disk''" GB_LADDER 2] emits_id
    by (simp_all add: MB_LADDER_def GB_LADDER_def BYTES_LADDER_def)
  have net: "emits 47 (if p5 then net_entry cfg (mx_net mx) else id)
      (if p5 then entry_members ''net'' (mx_net mx) (if bits then BITS_LADDER else BYTES_LADDER) 3
        (if bits then Fin 8 else Fin 1) (if bits then Fin 1000 else Fin 1024) 1 else [])"
    if "bits = (ch0 (net_chart_unit cfg) = CHR ''b'' \<and> ch1 (net_chart_unit cfg) = CHR ''i'')" for p5 bits
    using e [of "''net''" BYTES_LADDER 4] e8 [of "''net''" BITS_LADDER 4] emits_id that
    by (auto simp: net_entry_def [abs_def] Let_def BYTES_LADDER_def BITS_LADDER_def)
  show ?thesis
    unfolding unit_entries_def
    by (rule emits_as, ((rule parts net emits_run_Nil emits_run_Cons | rule refl)+)[1], simp) (simp add: unit_members_def Let_def)
qed

text \<open>The greatest values of the window, and the member \<open>units\<close> with their entries.\<close>

definition units_text :: "db_row_t list \<Rightarrow> config_t \<Rightarrow> string" where
  "units_text rows cfg = member ''units'' (object_text (unit_members (rows_maxima rows) cfg))"

lemma units_eq:
  "json_serialize_units rows cfg (jbuf_init JSON_UNITS_CAP) =
     \<lparr>out = units_text rows cfg, cap = JSON_UNITS_CAP, comma = True, overflow = False\<rparr>"
  and units_json: "json_member (units_text rows cfg)"
  and units_short: "length (units_text rows cfg) < JSON_UNITS_CAP"
proof -
  define ms where "ms = unit_members (rows_maxima rows) cfg"
  define pre where "pre = quote ''units'' @ '':{''"
  define j0 where "j0 = (sep_raw pre (jbuf_init JSON_UNITS_CAP))\<lparr>comma := False\<rparr>"
  define j where "j = unit_entries (rows_maxima rows) cfg j0"
  have "fits JSON_UNITS_CAP pre [] (1 + 240) j0"
    by (simp add: fits_def j0_def pre_def sep_raw_def jbuf_sep_def jbuf_raw_def jbuf_init_def JSON_UNITS_CAP_def)
  from emitsD [OF emits_unit_entries this] have f: "fits JSON_UNITS_CAP pre ms 1 j" by (simp add: j_def ms_def)
  have j: "cap j = JSON_UNITS_CAP" "out j = pre @ join '','' ms" "\<not> overflow j"
    "length (out j) + 1 < cap j" "list_all json_member ms"
    using f unfolding fits_def by (blast, blast, blast, metis, blast)
  have o: "out j @ ''}'' = units_text rows cfg"
    using j(2) by (simp add: units_text_def ms_def pre_def member_def object_text_def)
  have "json_serialize_units rows cfg (jbuf_init JSON_UNITS_CAP) = (jbuf_raw ''}'' j)\<lparr>comma := True\<rparr>"
    by (simp add: json_serialize_units_def Let_def j_def j0_def pre_def)
  also have "jbuf_raw ''}'' j = j\<lparr>out := units_text rows cfg\<rparr>"
    using j(1,4) o by (simp add: jbuf_raw_def)
  finally show "json_serialize_units rows cfg (jbuf_init JSON_UNITS_CAP) =
     \<lparr>out = units_text rows cfg, cap = JSON_UNITS_CAP, comma = True, overflow = False\<rparr>"
    using j by (cases j) simp
  show "length (units_text rows cfg) < JSON_UNITS_CAP" using j(1,4) arg_cong [OF o, of length] by simp
  have "json_value (object_text ms)" unfolding object_text_def using j(5) by (rule json_object_members)
  then show "json_member (units_text rows cfg)" by (simp add: units_text_def ms_def json_memberI plain_body)
qed

subsection \<open>A sample\<close>

definition sample_hw :: hw_t where
  "sample_hw = \<lparr>num_cores = 4, temp_critical_valid = True, temp_critical = Fin 100, detected_speed_mbit = 1000\<rparr>"

definition sample_selected :: selected where
  "sample_selected = select_raw (metric_row 1700000000 30 (sample_metrics 25))"

lemma sample_values:
  "list_all dbl_range (current_values (read_row sample_selected) config_defaults sample_hw)"
  "list_all shown_ok (threshold_values (read_row sample_selected) config_defaults sample_hw)"
  by (simp_all add: current_values_def threshold_values_def sample_selected_def select_raw_def read_row_def
      metric_row_def sample_metrics_def col_double_def gated_def bind_when_def bind_double_def isnan_def Let_def
      config_defaults_def sample_hw_def load_convert_def unit_is_def net_convert_def temp_convert_def
      nref_of_def tref_of_def net_ref_bps_def temp_ref_def dbl_of_int_def used_of_def percent_of_def ram_share_def
      load_thresholds_def swap_io_scale_def io_ram_def temp_thresholds_def net_threshold_def dbl_range_mid
      shown_ok_def)
lemma sample_unix_time: "r_unix_time (read_row sample_selected) = 1700000000"
proof -
  have "unix (metric_row 1700000000 30 (sample_metrics 25)) = Some 1700000000"
    by (rule unix_iso) (simp_all add: time_ok_def metric_row_def)
  then show ?thesis by (simp add: sample_selected_def select_raw_def)
qed

lemma sample_point_values:
  "list_all dbl_range (point_values (read_row sample_selected) config_defaults sample_hw)"
  by (simp_all add: point_values_def sample_selected_def select_raw_def read_row_def
      metric_row_def sample_metrics_def col_double_def gated_def bind_when_def bind_double_def isnan_def Let_def
      config_defaults_def sample_hw_def load_convert_def unit_is_def net_convert_def temp_convert_def
      nref_of_def tref_of_def net_ref_bps_def temp_ref_def dbl_of_int_def used_of_def percent_of_def ram_share_def
      load_thresholds_def swap_io_scale_def io_ram_def temp_thresholds_def net_threshold_def dbl_range_mid
      shown_ok_def)

subsection \<open>The snapshot and the points\<close>

lemma read_row_timestamp: "length (r_timestamp (read_row s)) \<le> 23"
  by (cases s) (auto split: option.splits)

lemma current_object:
  assumes "config_ok lmax cfg" and "list_all dbl_range (current_values (read_row s) cfg hw)"
    and "list_all shown_ok (threshold_values (read_row s) cfg hw)"
  shows current_object_eq: "jbuf_end (json_serialize_current (read_row s) cfg hw (jbuf_begin (jbuf_init JSON_CURRENT_CAP))) =
      \<lparr>out = object_text (snapshot_members (read_row s) cfg hw), cap = JSON_CURRENT_CAP,
       comma = (snapshot_members (read_row s) cfg hw \<noteq> []), overflow = False\<rparr>"
    and current_object_json: "json_value (object_text (snapshot_members (read_row s) cfg hw))"
    and current_object_short: "length (object_text (snapshot_members (read_row s) cfg hw)) < JSON_CURRENT_CAP"
proof -
  note e = emits_current [OF assms(1) read_row_timestamp assms(2,3)]
  have c: "3050 + 2 < JSON_CURRENT_CAP" by (simp add: JSON_CURRENT_CAP_def)
  show "jbuf_end (json_serialize_current (read_row s) cfg hw (jbuf_begin (jbuf_init JSON_CURRENT_CAP))) =
      \<lparr>out = object_text (snapshot_members (read_row s) cfg hw), cap = JSON_CURRENT_CAP,
       comma = (snapshot_members (read_row s) cfg hw \<noteq> []), overflow = False\<rparr>"
    "json_value (object_text (snapshot_members (read_row s) cfg hw))"
    "length (object_text (snapshot_members (read_row s) cfg hw)) < JSON_CURRENT_CAP"
    by (rule emits_object [OF e c])+
qed

text \<open>A history point always fits its 512 bytes: for every configuration and every row, with an instant
  of 64 bits and values in the range of a double, the point is the object with the readings of the
  charts that are on. So no point is left out of \<open>/api/metrics\<close> for its size.\<close>

lemma point_object:
  assumes "\<bar>r_unix_time r\<bar> \<le> 2 ^ 63" and "list_all dbl_range (point_values r cfg hw)"
  shows point_object_eq: "jbuf_end (json_serialize_point r cfg hw (jbuf_begin (jbuf_init JSON_POINT_CAP))) =
      \<lparr>out = object_text (point_members r cfg hw), cap = JSON_POINT_CAP,
       comma = (point_members r cfg hw \<noteq> []), overflow = False\<rparr>"
    and point_object_json: "json_value (object_text (point_members r cfg hw))"
proof -
  have "\<bar>r_unix_time r\<bar> < 10 ^ 19" using assms(1) by simp
  note e = emits_point [OF this assms(2)]
  have c: "400 + 2 < JSON_POINT_CAP" by (simp add: JSON_POINT_CAP_def)
  show "jbuf_end (json_serialize_point r cfg hw (jbuf_begin (jbuf_init JSON_POINT_CAP))) =
      \<lparr>out = object_text (point_members r cfg hw), cap = JSON_POINT_CAP,
       comma = (point_members r cfg hw \<noteq> []), overflow = False\<rparr>"
    "json_value (object_text (point_members r cfg hw))"
    by (rule emits_object [OF e c])+
qed

subsection \<open>Properties\<close>

text \<open>C11: The snapshot sent by \<open>/api/current\<close> and \<open>/stream\<close> says exactly what the row holds, and always
  fits its 4096 bytes: for every configuration that loads and every row of the database, with values
  in the range of a double, it is the JSON object with the readings of the cards that are on, in
  the units chosen and \<open>null\<close> where there is none, then the units, the look, the lists and the
  thresholds; nothing is dropped and \<open>overflow\<close> stays 0.\<close>

theorem current_fits:
  assumes "config_ok lmax cfg" and "list_all dbl_range (current_values (read_row s) cfg hw)"
    and "list_all shown_ok (threshold_values (read_row s) cfg hw)"
  shows "let j = jbuf_end (json_serialize_current (read_row s) cfg hw
             (jbuf_begin (jbuf_init JSON_CURRENT_CAP)))
         in \<not> overflow j \<and> out j = object_text (snapshot_members (read_row s) cfg hw) \<and>
            json_value (out j) \<and> length (out j) < JSON_CURRENT_CAP"
  by (simp add: current_object_eq [OF assms] current_object_json [OF assms] current_object_short [OF assms])

theorem current_fits_witness:
  "json_value (out (jbuf_end (json_serialize_current (read_row sample_selected) config_defaults sample_hw
     (jbuf_begin (jbuf_init JSON_CURRENT_CAP)))))"
  using current_fits [OF config_defaults_ok sample_values] unfolding Let_def by blast

end
