(* ===== verification/HttpProps.thy ===== *)
theory HttpProps
  imports Http JsonFits
begin

text \<open>
  What the HTTP server promises: the slots of the live streams under every interleaving of the
  workers, the count of CPUs, the text of the time series as JSON although it is sent in parts,
  and the events and the pace of a stream. It rests on the fits of the JSON buffers (JsonFits).
\<close>

subsection \<open>The pool and its slots\<close>

definition streaming :: "worker list \<Rightarrow> int" where
  "streaming ws = int (length (filter (\<lambda>w. w = Streaming) ws))"

lemma streaming_update:
  assumes "i < length ws"
  shows "streaming (ws[i := w]) = streaming ws - (if ws ! i = Streaming then 1 else 0) + (if w = Streaming then 1 else 0)"
proof -
  define a b where "a = take i ws" and "b = drop (Suc i) ws"
  have s: "streaming (a @ x # b) = streaming a + streaming b + (if x = Streaming then 1 else 0)" for x
    by (simp add: streaming_def)
  have "ws = a @ ws ! i # b" and "ws[i := w] = a @ w # b"
    using assms by (simp_all add: a_def b_def id_take_nth_drop upd_conv_take_nth_drop)
  then show ?thesis using s [of "ws ! i"] s [of w] by simp
qed

lemma sse_run_inv:
  assumes "sse_run max_dash n active ws" and "0 \<le> max_dash"
  shows "length ws = n \<and> active = streaming ws \<and> active \<le> max_dash"
  using assms
proof (induction rule: sse_run.induct)
  case sse_start
  then show ?case by (simp add: streaming_def)
next
  case (sse_step active ws i spurious active' w)
  then show ?case
    by (cases "ws ! i") (auto simp: streaming_update split: if_splits)
qed

lemma sse_reserve_min: "0 \<le> m \<Longrightarrow> 2 \<le> sse_reserve m \<and> m div 16 \<le> sse_reserve m"
  by (simp add: sse_reserve_def SSE_RESERVE_MIN_def SSE_RESERVE_RATIO_def c_div_nonneg Let_def)

text \<open>C5: A live stream never costs the rest of the dashboard its workers: in every interleaving of the
  pool, under any valid configuration, the counter is exactly the number of workers that stream,
  it never passes \<open>max_dashboards\<close>, and at least the reserve (two workers, or a sixteenth of the
  maximum when that is more) is left for the other requests.\<close>

theorem sse_slots:
  assumes "config_ok lmax cfg" and "sse_run (max_dashboards cfg) (nat (num_threads cfg)) active ws"
  shows "active = streaming ws \<and> 0 \<le> active \<and> active \<le> max_dashboards cfg \<and>
    max 2 (max_dashboards cfg div 16) \<le> int (length (filter (\<lambda>w. w \<noteq> Streaming) ws))"
proof -
  have m: "1 \<le> max_dashboards cfg" using assms(1) by (simp add: config_ok_def numbers_ok_def)
  have r: "2 \<le> sse_reserve (max_dashboards cfg)" "max_dashboards cfg div 16 \<le> sse_reserve (max_dashboards cfg)"
    using sse_reserve_min [of "max_dashboards cfg"] m by simp_all
  have i: "length ws = nat (num_threads cfg)" "active = streaming ws" "active \<le> max_dashboards cfg"
    using sse_run_inv [OF assms(2)] m by simp_all
  have "int (length ws) = streaming ws + int (length (filter (\<lambda>w. w \<noteq> Streaming) ws))"
    unfolding streaming_def using sum_length_filter_compl [of "\<lambda>w. w = Streaming" ws] by linarith
  moreover have "int (length ws) = max_dashboards cfg + sse_reserve (max_dashboards cfg)"
    using i(1) m r by (simp add: num_threads_def)
  ultimately show ?thesis using i r by (simp add: streaming_def)
qed

theorem sse_slots_witness:
  "\<exists>ws. sse_run 4 6 1 ws \<and> ws ! 0 = Streaming \<and> 2 \<le> length (filter (\<lambda>w. w \<noteq> Streaming) ws)"
proof -
  have t: "num_threads config_defaults = 6" "max_dashboards config_defaults = 4"
    by (simp_all add: num_threads_def config_defaults_def sse_reserve_def SSE_RESERVE_MIN_def SSE_RESERVE_RATIO_def
        c_div_def Let_def)
  define ws where "ws = (replicate 6 Idle)[0 := Trying 0, 0 := Streaming]"
  have "sse_run 4 6 1 ws"
    unfolding ws_def
    by (rule sse_step [where i = 0 and spurious = False and active = 0],
        rule sse_step [where i = 0 and spurious = False and active = 0], rule sse_start)
      (simp_all add: nth_list_update)
  moreover from this have "2 \<le> length (filter (\<lambda>w. w \<noteq> Streaming) ws)"
    using sse_slots [OF config_defaults_ok, of 1 ws] by (simp add: t)
  ultimately show ?thesis by (intro exI [of _ ws]) (simp add: ws_def)
qed

subsection \<open>The CPUs of a list\<close>

definition cpulist_text :: "(nat \<times> nat) list \<Rightarrow> string" where
  "cpulist_text rs =
     join '','' (map (\<lambda>(lo, hi). if lo = hi then show_nat lo else show_nat lo @ ''-'' @ show_nat hi) rs)"

lemma cpu_number_show:
  assumes "int n \<le> umax" and "r = [] \<or> \<not> c_isdigit (hd r)"
  shows "cpu_number umax (show_nat n @ r) = (int n, r)"
proof -
  have d: "\<And>c. c \<in> set (show_nat n) \<Longrightarrow> c_isdigit c" by (rule show_nat_digits)
  have "takeWhile c_isdigit (show_nat n @ r) = show_nat n" "dropWhile c_isdigit (show_nat n @ r) = r"
    using d assms(2) by (cases r; simp add: takeWhile_append2 dropWhile_append2)+
  then show ?thesis using assms(1) by (simp add: cpu_number_def)
qed

lemma ch0_show_nat: "c_isdigit (ch0 (show_nat n @ r))"
  using show_nat_digits [of "hd (show_nat n)" n] by (cases "show_nat n") simp_all

lemma cpu_entry_show:
  assumes "lo \<le> hi" and "int hi < 2 ^ 31 - 1" and "2 ^ 32 - 1 \<le> umax" and "r = [] \<or> ch0 r = CHR '','' \<or> ch0 r = NEWLINE"
  shows "cpu_entry umax ((if lo = hi then show_nat lo else show_nat lo @ ''-'' @ show_nat hi) @ r) =
    Some (int (hi - lo + 1), r)"
proof -
  have r: "r = [] \<or> \<not> c_isdigit (hd r)" "ch0 r \<noteq> CHR ''-''"
    using assms(4) by (cases r; auto simp: c_isdigit_def)+
  have n: "int lo \<le> umax" "int hi \<le> umax" using assms(1-3) by simp_all
  show ?thesis
  proof (cases "lo = hi")
    case True
    then show ?thesis using cpu_number_show [OF n(1) r(1)] r(2) ch0_show_nat by (simp add: cpu_entry_def)
  next
    case False
    have k: "int hi - int lo + 1 = int (hi - lo + 1)" using assms(1) by simp
    have "cpu_number umax (show_nat lo @ CHR ''-'' # show_nat hi @ r) = (int lo, CHR ''-'' # show_nat hi @ r)"
      by (rule cpu_number_show [OF n(1)]) (simp add: c_isdigit_def)
    moreover have "int (hi - lo + 1) mod (umax + 1) = int (hi - lo + 1)"
      using assms by (intro mod_pos_pos_trivial) simp_all
    moreover have "to_signed 32 (int (hi - lo + 1)) = int (hi - lo + 1)"
      using assms(2) by (intro to_signed_id) simp_all
    ultimately show ?thesis
      using cpu_number_show [OF n(2) r(1)] ch0_show_nat False assms(1)
      by (simp add: cpu_entry_def k del: of_nat_Suc of_nat_add)
  qed
qed

lemma count_cpulist_join:
  assumes "rs \<noteq> []" and "list_all (\<lambda>(lo, hi). lo \<le> hi \<and> int hi < 2 ^ 31 - 1) rs" and "2 ^ 32 - 1 \<le> umax"
  shows "count_cpulist_from umax n (cpulist_text rs @ [NEWLINE]) =
    n + sum_list (map (\<lambda>(lo, hi). int (hi - lo + 1)) rs)"
  using assms
proof (induction rs arbitrary: n)
  case (Cons e rs)
  obtain lo hi where e: "e = (lo, hi)" by (cases e)
  define t where "t = (if lo = hi then show_nat lo else show_nat lo @ ''-'' @ show_nat hi)"
  have b: "lo \<le> hi" "int hi < 2 ^ 31 - 1" using Cons.prems(2) e by simp_all
  show ?case
  proof (cases "rs = []")
    case True
    have "cpu_entry umax (t @ [NEWLINE]) = Some (int (hi - lo + 1), [NEWLINE])"
      unfolding t_def by (rule cpu_entry_show [OF b assms(3)]) simp
    then show ?thesis using True e
      by (simp add: cpulist_text_def join_Cons flip: t_def) (simp add: count_cpulist_from.simps)
  next
    case False
    have "cpu_entry umax (t @ CHR '','' # cpulist_text rs @ [NEWLINE]) =
        Some (int (hi - lo + 1), CHR '','' # cpulist_text rs @ [NEWLINE])"
      unfolding t_def by (rule cpu_entry_show [OF b assms(3)]) simp
    moreover have "cpulist_text (e # rs) @ [NEWLINE] = t @ CHR '','' # cpulist_text rs @ [NEWLINE]"
      using False e by (simp add: cpulist_text_def join_Cons t_def)
    ultimately show ?thesis
      using Cons.IH [OF False _ assms(3)] Cons.prems(2) e by (simp add: count_cpulist_from.simps [of umax n])
  qed
qed simp

text \<open>The count of CPUs is right: for the list the kernel writes, of single numbers and of ranges
  separated by commas and ended by a newline, \<open>count_cpulist\<close> returns the number of CPUs it names.\<close>

lemma count_cpulist_spec:
  assumes "rs \<noteq> []" and "list_all (\<lambda>(lo, hi). lo \<le> hi \<and> int hi < 2 ^ 31 - 1) rs" and "2 ^ 32 - 1 \<le> umax"
  shows "count_cpulist umax (cpulist_text rs @ [NEWLINE]) = (\<Sum>(lo, hi) \<leftarrow> rs. int (hi - lo + 1))"
  using count_cpulist_join [OF assms, of 0] by (simp add: count_cpulist_def)

subsection \<open>No control character in JSON\<close>

definition printable :: "string \<Rightarrow> bool" where
  "printable s = list_all (\<lambda>c. 32 \<le> code c) s"

lemma printable_simps [simp]:
  "printable []" "printable (c # s) \<longleftrightarrow> 32 \<le> code c \<and> printable s"
  "printable (s @ t) \<longleftrightarrow> printable s \<and> printable t"
  by (simp_all add: printable_def)

lemma printable_join: "printable sep \<Longrightarrow> (\<And>x. x \<in> set xs \<Longrightarrow> printable x) \<Longrightarrow> printable (join sep xs)"
  by (induction sep xs rule: join.induct) auto

lemma digits_printable: "list_all c_isdigit s \<Longrightarrow> printable s"
  by (auto simp: printable_def list_all_iff c_isdigit_def)

lemma takeWhile_dropWhile_printable:
  "printable (dropWhile c_isdigit s) \<Longrightarrow> printable s"
proof -
  assume "printable (dropWhile c_isdigit s)"
  moreover have "printable (takeWhile c_isdigit s)"
    by (rule digits_printable) (auto simp: list_all_iff dest: set_takeWhileD)
  ultimately have "printable (takeWhile c_isdigit s @ dropWhile c_isdigit s)" by (simp only: printable_simps)
  then show ?thesis by (simp only: takeWhile_dropWhile_id)
qed

lemma json_exp_part_printable: "json_exp_part s \<Longrightarrow> printable s"
proof (cases s)
  case (Cons c t)
  assume s: "json_exp_part s"
  define u where "u = (if t \<noteq> [] \<and> (hd t = CHR ''+'' \<or> hd t = CHR ''-'') then tl t else t)"
  have "list_all c_isdigit u" and c: "c = CHR ''e'' \<or> c = CHR ''E''"
    using s Cons by (simp_all add: json_exp_part_def u_def Let_def)
  then have "printable u" by (intro digits_printable)
  then have "printable t" by (cases t) (auto simp: u_def split: if_splits)
  then show ?thesis using c Cons by auto
qed simp

lemma json_unsigned_printable: "json_unsigned s \<Longrightarrow> printable s"
proof -
  assume "json_unsigned s"
  then have f: "json_frac_part (dropWhile c_isdigit s)" by (simp add: json_unsigned_def Let_def)
  have "printable (dropWhile c_isdigit s)"
  proof (cases "dropWhile c_isdigit s")
    case (Cons c t)
    show ?thesis
    proof (cases "c = CHR ''.''")
      case True
      then have "json_exp_part (dropWhile c_isdigit t)" using f Cons by (simp add: json_frac_part_def)
      then show ?thesis
        using True Cons takeWhile_dropWhile_printable [of t] json_exp_part_printable by simp
    next
      case False
      then have "json_exp_part (c # t)" using f Cons by (simp add: json_frac_part_def)
      then show ?thesis using Cons json_exp_part_printable by metis
    qed
  next
    case Nil
    then show ?thesis by (simp only: printable_simps)
  qed
  then show ?thesis by (rule takeWhile_dropWhile_printable)
qed

lemma json_escapes_printable: "d \<in> set json_escapes \<Longrightarrow> 32 \<le> code d"
  by (auto simp: json_escapes_def)

lemma xdigit_printable: "c_isxdigit d \<Longrightarrow> 32 \<le> code d"
  by (auto simp: c_isxdigit_def c_isdigit_def)

lemma json_body_printable: "json_body s \<Longrightarrow> printable s"
proof (induction s rule: length_induct)
  case (1 s)
  note IH = 1(1)[rule_format]
  show ?case
  proof (cases s)
    case (Cons c cs)
    note s = Cons
    show ?thesis
    proof (cases "c = BACKSLASH")
      case True
      then obtain d ds where cs: "cs = d # ds" using 1(2) s by (cases cs) simp_all
      show ?thesis
      proof (cases "d = CHR ''u''")
        case u: True
        obtain h1 h2 h3 h4 rest where ds: "ds = h1 # h2 # h3 # h4 # rest"
          and h: "c_isxdigit h1" "c_isxdigit h2" "c_isxdigit h3" "c_isxdigit h4" "json_body rest"
          using 1(2) s cs True u by (auto split: list.splits)
        have "printable rest" using IH [OF _ h(5)] s cs ds by simp
        then show ?thesis using True u s cs ds h(1-4) by (simp add: xdigit_printable)
      next
        case False
        then have "d \<in> set json_escapes" "json_body ds" using 1(2) s cs True by simp_all
        then show ?thesis using IH [of ds] s cs True by (simp add: json_escapes_printable)
      qed
    next
      case False
      then show ?thesis using 1(2) IH [of cs] s by simp
    qed
  qed simp
qed

lemma json_value_printable: "json_value s \<Longrightarrow> printable s"
proof (induction rule: json_value.induct)
  case (number s)
  then show ?case
    by (cases s) (auto simp: json_number_def split: if_splits dest: json_unsigned_printable)
next
  case (string s)
  then show ?case by (simp add: quote_def json_body_printable)
next
  case (array vs)
  then show ?case by (simp add: printable_join)
next
  case (object kvs)
  have "printable (join '','' (map (\<lambda>(k, v). member k v) kvs))"
    using object by (intro printable_join) (auto simp: member_def quote_def json_body_printable)
  then show ?case by simp
qed simp_all

subsection \<open>The time series\<close>

fun call_text :: "call \<Rightarrow> string" where
  "call_text (Printf t) = t"
| "call_text (Http_ok mime n) = []"
| "call_text (Write t) = t"

definition calls_text :: "call list \<Rightarrow> string" where
  "calls_text cs = concat (map call_text cs)"

lemma calls_text_simps [simp]:
  "calls_text [] = []" "calls_text (c # cs) = call_text c @ calls_text cs"
  "calls_text (cs @ ds) = calls_text cs @ calls_text ds"
  by (simp_all add: calls_text_def)

text \<open>The elements that went out, before them a comma once there is one.\<close>

lemma emit_fold:
  assumes "list_all (\<lambda>row. \<not> overflow (f row)) rows"
  shows "snd (fold (\<lambda>row. emit_part (f row)) rows (cs, n)) = n + length rows \<and>
    calls_text (fst (fold (\<lambda>row. emit_part (f row)) rows (cs, n))) =
      calls_text cs @ (if n > 0 then concat (map (\<lambda>row. '','' @ out (f row)) rows)
                       else join '','' (map (\<lambda>row. out (f row)) rows))"
  using assms
proof (induction rows arbitrary: cs n)
  case (Cons r rows)
  have tail: "concat (map (\<lambda>row. '','' @ out (f row)) rows) =
      (if rows = [] then [] else '','' @ join '','' (map (\<lambda>row. out (f row)) rows))"
    by (induction rows) (auto simp: join_Cons)
  show ?case
    using Cons.IH [of "cs @ [Write '','', Write (out (f r))]" "n + 1"] Cons.IH [of "cs @ [Write (out (f r))]" "n + 1"]
      Cons.prems tail
    by (auto simp: emit_part_def join_Cons)
qed simp

definition http_ok_head :: string where
  "http_ok_head = ''HTTP/1.1 200 OK'' @ crlf @ ''Content-Type: application/json'' @ crlf @
     ''Connection: close'' @ crlf @ crlf"

definition series_object :: "string \<Rightarrow> string list \<Rightarrow> string \<Rightarrow> string" where
  "series_object range_str ps units =
     object_text [member ''range'' (quote range_str), member ''points'' (''['' @ join '','' ps @ '']''), units]"

lemma series_object_json:
  assumes "plain range_str" and "list_all json_value ps" and "json_member units"
  shows "json_value (series_object range_str ps units)"
  unfolding series_object_def object_text_def
proof (rule json_object_members)
  have "json_value (''['' @ join '','' ps @ '']'')"
    using assms(2) by (intro json_value.array) (simp add: list_all_iff)
  moreover have "json_value (quote range_str)" using assms(1) by (intro json_value.string plain_body)
  ultimately show "list_all json_member [member ''range'' (quote range_str), member ''points'' (''['' @ join '','' ps @ '']''), units]"
    using assms(3) by (simp add: json_memberI)
qed

text \<open>C30: What \<open>/api/metrics\<close> sends after its headers is one JSON object, with every row of the window as
  an element of \<open>points\<close>, which has exactly its readings of the charts that are on, and then the
  units, although it is written in parts and a part that does not fit would be left out.\<close>

theorem series_json:
  assumes "plain range_str"
    and "list_all (\<lambda>r. \<bar>r_unix_time r\<bar> \<le> 2 ^ 63 \<and> list_all dbl_range (point_values r cfg hw)) rows"
  shows "\<exists>body. calls_text (series_calls range_str rows cfg hw) = http_ok_head @ body \<and> json_value body \<and>
    body = series_object range_str (map (\<lambda>r. object_text (point_members r cfg hw)) rows) (units_text rows cfg)"
proof -
  define f where "f = (\<lambda>row. point_json row cfg hw)"
  have f: "point_json row cfg hw = f row" for row by (simp add: f_def)
  define ps where "ps = map (\<lambda>r. object_text (point_members r cfg hw)) rows"
  have p: "out (f r) = object_text (point_members r cfg hw) \<and> \<not> overflow (f r) \<and> json_value (object_text (point_members r cfg hw))"
    if "r \<in> set rows" for r
    using assms(2) that point_object_eq [of r cfg hw] point_object_json [of r cfg hw]
    by (simp add: list_all_iff f_def point_json_def)
  then have ps: "map (\<lambda>row. out (f row)) rows = ps" "list_all json_value ps"
    by (simp_all add: ps_def list_all_iff)
  have "calls_text (fst (fold (\<lambda>row. emit_part (f row)) rows ([], 0))) = join '','' ps"
    using emit_fold [of f rows "[]" 0] p ps(1) by (simp add: list_all_iff)
  then have "calls_text (series_calls range_str rows cfg hw) =
      http_ok_head @ series_object range_str ps (units_text rows cfg)"
    by (simp add: series_calls_def Let_def series_head_def http_ok_head_def series_object_def object_text_def emit_part_def
        member_def f units_eq)
  then show ?thesis using series_object_json [OF assms(1) ps(2) units_json] by (simp add: ps_def)
qed

theorem series_json_witness:
  "\<exists>body. calls_text (series_calls ''7d'' [read_row sample_selected, read_row sample_selected] config_defaults sample_hw) =
    http_ok_head @ body \<and> json_value body"
  using series_json [of "''7d''" config_defaults sample_hw "[read_row sample_selected, read_row sample_selected]"]
  by (simp add: sample_point_values sample_unix_time plain_def)

subsection \<open>Events\<close>

lemma printable_newline: "printable s \<Longrightarrow> NEWLINE \<notin> set s"
  by (auto simp: printable_def list_all_iff)

text \<open>C31: A frame of the live stream is one event: \<open>data:\<close>, the JSON object of the snapshot, which contains
  no newline, and the blank line that ends it, so that the client never sees an event cut in two.
  The return value tells a client that has gone.\<close>

theorem stream_one_event:
  assumes "config_ok lmax cfg" and "list_all dbl_range (current_values (read_row s) cfg hw)"
    and "list_all shown_ok (threshold_values (read_row s) cfg hw)"
  shows "let body = object_text (snapshot_members (read_row s) cfg hw)
    in stream_frame (current_json (read_row s) cfg hw) sent =
         (if sent then 0 else - 1, [''data: '' @ body @ [NEWLINE, NEWLINE]]) \<and>
       json_value body \<and> NEWLINE \<notin> set body"
proof -
  define body where "body = object_text (snapshot_members (read_row s) cfg hw)"
  have "out (current_json (read_row s) cfg hw) = body" "\<not> overflow (current_json (read_row s) cfg hw)"
    using current_object_eq [OF assms] by (simp_all add: current_json_def body_def)
  moreover have "json_value body" using current_object_json [OF assms] by (simp add: body_def)
  moreover from this have "NEWLINE \<notin> set body" by (intro printable_newline json_value_printable)
  ultimately show ?thesis
    unfolding body_def [symmetric] by (simp add: stream_frame_def frame_text_def)
qed

theorem stream_one_event_witness:
  "\<exists>body. stream_frame (current_json (read_row sample_selected) config_defaults sample_hw) False =
      (- 1, [''data: '' @ body @ [NEWLINE, NEWLINE]]) \<and> json_value body"
  using stream_one_event [OF config_defaults_ok sample_values, of False] unfolding Let_def by auto

text \<open>C13: What the daemon stores, the dashboard shows: once a sample has been inserted, the next
  \<open>/api/current\<close> is answered with 200 and the JSON object of a row that holds that very sample, each
  reading under its key, in the unit of its card and with four digits, with the length announced
  before it.\<close>

theorem stored_sample_served:
  assumes "step_with_retry step = ST_DONE" and "time_ok now" and "list_all row_ok (metrics_tbl db)"
    and "list_all (\<lambda>r. the (unix r) \<le> now) (metrics_tbl db)" and "numbers m" and "config_ok lmax cfg"
    and "list_all dbl_range (current_values (read_row (Some (iso_of now), Some now, metric_cell m)) cfg hw)"
    and "list_all shown_ok (threshold_values (read_row (Some (iso_of now), Some now, metric_cell m)) cfg hw)"
  shows "\<exists>row body. same_sample now m row \<and> body = object_text (snapshot_members row cfg hw) \<and> json_value body \<and>
    handler_current cfg hw (db_current True True (snd (db_insert step now d m db))) =
      (200, [Http_ok ''application/json'' (length body), Write body])"
proof -
  define row where "row = read_row (Some (iso_of now), Some now, metric_cell m)"
  define body where "body = object_text (snapshot_members row cfg hw)"
  note obj = current_object_eq [OF assms(6-8), folded row_def, folded body_def]
  have "handler_current cfg hw (0, Some row) = (200, [Http_ok ''application/json'' (length body), Write body])"
    by (simp add: handler_current_def send_json_def current_json_def obj)
  moreover have "json_value body" using current_object_json [OF assms(6-8)] by (simp add: row_def body_def)
  ultimately show ?thesis
    using current_after_insert [OF assms(1-4)] same_sample_row [OF assms(5)] by (auto simp: row_def body_def)
qed

theorem stored_sample_served_witness:
  "\<exists>row body. same_sample 1700000000 (sample_metrics 25) row \<and>
    handler_current config_defaults sample_hw (db_current True True (snd (db_insert (\<lambda>_. ST_DONE) 1700000000 (open_handle 30)
      (sample_metrics 25) empty_db))) = (200, [Http_ok ''application/json'' (length body), Write body])"
proof -
  have "read_row (Some (iso_of 1700000000), Some 1700000000, metric_cell (sample_metrics 25)) = read_row sample_selected"
    using unix_iso [of 1700000000 "metric_row 1700000000 30 (sample_metrics 25)"]
    by (simp add: sample_selected_def select_raw_def metric_row_def time_ok_def)
  then show ?thesis
    using stored_sample_served [of "\<lambda>_. ST_DONE" 1700000000 empty_db "sample_metrics 25", OF _ _ _ _ _ config_defaults_ok,
        of sample_hw "open_handle 30"] sample_values
    by (auto simp: step_with_retry_eq time_ok_def empty_db_def numbers_def sample_metrics_def)
qed

definition calm :: "frame_env \<Rightarrow> bool" where
  "calm env = ((\<forall>i. \<not> stop_at env i \<and> ka_sent env i) \<and> frame_sent env)"

lemma wait_ticks_quiet: "calm env \<Longrightarrow> wait_ticks refresh ka False env i = ([], False)"
  by (induction refresh ka False env i rule: wait_ticks.induct)
    (subst wait_ticks.simps, auto simp: calm_def)

lemma div_Suc_step: "0 < k \<Longrightarrow> Suc i div k = (if Suc i mod k = 0 then Suc (i div k) else i div k)"
  by (simp add: div_Suc)

lemma wait_ticks_count:
  assumes "calm env" and "0 < ka" and "i \<le> Suc refresh" and "0 < i"
  shows "wait_ticks refresh ka True env i = (replicate (refresh div nat ka - (i - 1) div nat ka) keepalive_text, False)"
  using assms(3,4)
proof (induction "Suc refresh - i" arbitrary: i)
  case 0
  then show ?case by (subst wait_ticks.simps) (use assms(1) in \<open>auto simp: calm_def\<close>)
next
  case (Suc n)
  then have i: "i \<le> refresh" by simp
  have c: "\<not> stop_at env i" "ka_sent env i" using assms(1) by (simp_all add: calm_def)
  have IH: "wait_ticks refresh ka True env (i + 1) = (replicate (refresh div nat ka - i div nat ka) keepalive_text, False)"
    using Suc.hyps(1) [of "i + 1"] Suc.hyps(2) i by simp
  have m: "c_mod (int i) ka = 0 \<longleftrightarrow> i mod nat ka = 0"
  proof -
    have "c_mod (int i) ka = int (i mod nat ka)" using assms(2) by (simp add: c_mod_nonneg zmod_int)
    then show ?thesis by simp
  qed
  have d: "i div nat ka = (if i mod nat ka = 0 then Suc ((i - 1) div nat ka) else (i - 1) div nat ka)"
    using div_Suc_step [of "nat ka" "i - 1"] assms(2) Suc.prems(2) by simp
  have le: "i div nat ka \<le> refresh div nat ka" using i by (rule div_le_mono)
  show ?case
  proof (cases "i mod nat ka = 0")
    case True
    have "refresh div nat ka - (i - 1) div nat ka = Suc (refresh div nat ka - i div nat ka)"
      using d [unfolded if_P [OF True]] le by linarith
    then show ?thesis using i c True m IH by (subst wait_ticks.simps) simp
  next
    case False
    then show ?thesis using i c m IH d by (subst wait_ticks.simps) simp
  qed
qed

text \<open>C34: While the client is there and the server runs, a turn of the stream lasts the whole refresh: it
  sends at most one frame, then one keepalive for each whole \<open>sse_keepalive\<close> of the refresh (none
  when the keepalive is off or not shorter than the refresh), and the loop goes on.\<close>

theorem stream_turn_pace:
  assumes "calm env"
  shows "\<exists>texts. stream_turn cfg hw env =
      (texts @ replicate (if 0 < sse_keepalive_seconds cfg \<and> sse_keepalive_seconds cfg < refresh_seconds cfg
                          then nat (refresh_seconds cfg) div nat (sse_keepalive_seconds cfg) else 0) keepalive_text, True) \<and>
    length texts \<le> 1"
proof -
  define first where "first = (if fst (frame_cur env) \<noteq> 0 then (0, [])
            else case snd (frame_cur env) of None \<Rightarrow> (0, [])
                 | Some row \<Rightarrow> stream_frame (current_json row cfg hw) (frame_sent env))"
  have "fst first = 0" and f: "length (snd first) \<le> 1"
    using assms(1) by (auto simp: first_def stream_frame_def calm_def split: option.splits)
  then obtain texts where first: "first = (0, texts)" by (cases first) simp
  define ka where "ka = sse_keepalive_seconds cfg"
  have t: "stream_turn cfg hw env =
      (case wait_ticks (nat (refresh_seconds cfg)) ka (ka > 0 \<and> ka < refresh_seconds cfg) env 1 of
         (ws, leave) \<Rightarrow> (texts @ ws, \<not> leave))"
    unfolding stream_turn_def first_def [symmetric] ka_def [symmetric] unfolding first
    by (simp add: Let_def)
  show ?thesis
  proof (cases "ka > 0 \<and> ka < refresh_seconds cfg")
    case True
    then show ?thesis
      using wait_ticks_count [OF assms(1), of ka 1 "nat (refresh_seconds cfg)"] f first
      by (intro exI [of _ texts]) (simp add: t flip: ka_def)
  next
    case False
    then have "(ka > 0 \<and> ka < refresh_seconds cfg) = False" by simp
    note False = this
    show ?thesis
      unfolding t ka_def [symmetric] False using wait_ticks_quiet [OF assms(1)] f first by (intro exI [of _ texts]) (simp add: t flip: ka_def)
  qed
qed

theorem stream_turn_pace_witness:
  "\<exists>texts. stream_turn config_defaults sample_hw
      \<lparr>frame_cur = (1, None), frame_sent = True, stop_at = (\<lambda>_. False), ka_sent = (\<lambda>_. True)\<rparr> =
      (texts @ replicate 30 keepalive_text, True)"
  using stream_turn_pace [of "\<lparr>frame_cur = (1, None), frame_sent = True, stop_at = (\<lambda>_. False), ka_sent = (\<lambda>_. True)\<rparr>"
      config_defaults sample_hw]
  by (simp add: calm_def config_defaults_def) blast

end
