(* ===== verification/Alerts.thy ===== *)
theory Alerts
  imports Json
begin

text \<open>
  \<open>src/alerts.c\<close>: which alerts fire in a cycle, the webhook request and its reply, the command, and
  the log that keeps an alert quiet while it cools down. What the network, the TLS library, the
  trust store and \<open>system\<close> answer is an argument (\<open>net_env\<close>, \<open>alert_env\<close>); what is only reported
  on stderr is not modelled.
\<close>

subsection \<open>The value and the condition\<close>

text \<open>The value, and whether the row has one.\<close>

definition get_metric_value :: "db_row_t \<Rightarrow> string \<Rightarrow> double \<times> bool" where
  "get_metric_value row m =
     (if m = ''load_1m'' then (r_load_1m row, True)
      else if m = ''load_5m'' then (r_load_5m row, True)
      else if m = ''load_15m'' then (r_load_15m row, True)
      else if m = ''cpu_user_percent'' then (r_cpu_user_percent row, r_cpu_valid row)
      else if m = ''cpu_system_percent'' then (r_cpu_system_percent row, r_cpu_valid row)
      else if m = ''cpu_idle_percent'' then (r_cpu_idle_percent row, r_cpu_valid row)
      else if m = ''mem_used_mb'' then (r_mem_used_mb row, True)
      else if m = ''mem_available_mb'' then (r_mem_available_mb row, True)
      else if m = ''mem_used_percent'' then (r_mem_used_percent row, True)
      else if m = ''mem_available_percent'' then (r_mem_available_percent row, True)
      else if m = ''disk_used_gb'' then (r_disk_used_gb row, True)
      else if m = ''disk_available_gb'' then (r_disk_available_gb row, True)
      else if m = ''disk_used_percent'' then (r_disk_used_percent row, True)
      else if m = ''disk_available_percent'' then (r_disk_available_percent row, True)
      else if m = ''temp_celsius'' then (r_temp_celsius row, r_temp_valid row)
      else if m = ''net_rx_bps'' then (r_net_rx_bps row, r_net_valid row)
      else if m = ''net_tx_bps'' then (r_net_tx_bps row, r_net_valid row)
      else if m = ''uptime_seconds'' then (r_uptime_seconds row, True)
      else if m = ''swap_free_mb'' then (r_swap_free_mb row, r_swap_valid row)
      else if m = ''swap_used_mb'' then (r_swap_used_mb row, r_swap_valid row)
      else if m = ''swap_free_percent'' then (r_swap_free_percent row, r_swap_valid row)
      else if m = ''swap_used_percent'' then (r_swap_used_percent row, r_swap_valid row)
      else if m = ''swap_in_bps'' then (r_swap_in_bps row, r_swap_io_valid row)
      else if m = ''swap_out_bps'' then (r_swap_out_bps row, r_swap_io_valid row)
      else if m = ''swap_in_ram'' then (r_swap_in_ram row, r_swap_io_valid row)
      else if m = ''swap_out_ram'' then (r_swap_out_ram row, r_swap_io_valid row)
      else (Fin 0, False))"

definition eval_op :: "double \<Rightarrow> string \<Rightarrow> double \<Rightarrow> bool" where
  "eval_op x op thr =
     (if op = ''>'' then x > thr
      else if op = ''<'' then x < thr
      else if op = ''>='' then x \<ge> thr
      else if op = ''<='' then x \<le> thr
      else False)"

subsection \<open>The URL\<close>

text \<open>The text, or \<open>None\<close> for -1 when it does not fit with its terminating zero.\<close>

definition fit_printf :: "nat \<Rightarrow> string \<Rightarrow> string option" where
  "fit_printf n s = (if length s < n then Some s else None)"

text \<open>\<open>strncmp (s, p, strlen (p)) == 0\<close>.\<close>

definition starts_with :: "string \<Rightarrow> string \<Rightarrow> bool" where
  "starts_with p s = (take (length p) s = p)"

datatype url = Url (https: bool) (host: string) (port: string) (path: string)

text \<open>After the scheme: the text up to the first slash, split at its first colon, and the rest.\<close>

definition split_url :: "bool \<Rightarrow> string \<Rightarrow> string \<times> string \<times> string" where
  "split_url tls start =
     (let authority = takeWhile (\<lambda>c. c \<noteq> CHR ''/'') start;
          slash = dropWhile (\<lambda>c. c \<noteq> CHR ''/'') start;
          before = takeWhile (\<lambda>c. c \<noteq> CHR '':'') authority;
          colon = dropWhile (\<lambda>c. c \<noteq> CHR '':'') authority
      in (before, if colon \<noteq> [] then tl colon else if tls then ''443'' else ''80'',
          if slash \<noteq> [] then slash else ''/''))"

definition fit_url :: "bool \<Rightarrow> string \<Rightarrow> nat \<Rightarrow> nat \<Rightarrow> nat \<Rightarrow> url option" where
  "fit_url tls start hsz psz pasz =
     (case split_url tls start of (h, p, pa) \<Rightarrow>
        case (fit_printf hsz h, fit_printf psz p, fit_printf pasz pa) of
          (Some h', Some p', Some pa') \<Rightarrow> Some (Url tls h' p' pa')
        | _ \<Rightarrow> None)"

definition parse_url :: "string \<Rightarrow> nat \<Rightarrow> nat \<Rightarrow> nat \<Rightarrow> url option" where
  "parse_url u hsz psz pasz =
     (if starts_with ''https://'' u then fit_url True (drop 8 u) hsz psz pasz
      else if starts_with ''http://'' u then fit_url False (drop 7 u) hsz psz pasz
      else None)"

subsection \<open>Sending and receiving\<close>

text \<open>
  \<open>in_time\<close> and \<open>send\<close> before and at the \<open>i\<close>-th turn of the loop: the number of bytes taken, of
  those offered; at most all of them. The result is what went out.
\<close>

function write_all :: "(nat \<Rightarrow> bool) \<Rightarrow> (nat \<Rightarrow> nat \<Rightarrow> int) \<Rightarrow> nat \<Rightarrow> string \<Rightarrow> string" where
  "write_all in_time send i buf =
     (if buf = [] \<or> \<not> in_time i then []
      else if send i (length buf) \<le> 0 then []
      else take (nat (send i (length buf))) buf @
             write_all in_time send (i + 1) (drop (nat (send i (length buf))) buf))"
  by pat_completeness auto
termination
  by (relation "measure (\<lambda>(_, _, _, buf). length buf)") auto

declare write_all.simps [simp del]

text \<open>One address: whether a socket was made, and how \<open>connect\<close> went. A connection in progress is
  waited for with \<open>select\<close>, and then has the error of the socket.\<close>

datatype conn_result = Conn_now | Conn_refused | Conn_progress (selected: bool) (so_error: int)

definition connected :: "conn_result \<Rightarrow> bool" where
  "connected c = (case c of
      Conn_now \<Rightarrow> True
    | Conn_refused \<Rightarrow> False
    | Conn_progress ok err \<Rightarrow> ok \<and> err = 0)"

text \<open>The addresses in turn, each with whether the deadline had not passed when its turn came and
  \<open>None\<close> for a socket that could not be made. The result is the index of the one that connected.\<close>

fun connect_any :: "(bool \<times> conn_result option) list \<Rightarrow> nat \<Rightarrow> nat option" where
  "connect_any [] i = None"
| "connect_any ((early, attempt) # rest) i =
     (if \<not> early then None
      else case attempt of
             None \<Rightarrow> connect_any rest (i + 1)
           | Some c \<Rightarrow> if connected c then Some i else connect_any rest (i + 1))"

text \<open>\<open>head_t\<close>: the bytes kept, 15 at most; the rest of its 16 bytes is zero.\<close>

definition HEAD_TEXT :: nat where "HEAD_TEXT = 16"

definition keep_head :: "string \<Rightarrow> string \<Rightarrow> string" where
  "keep_head h buf =
     (if length h \<ge> HEAD_TEXT - 1 then h
      else h @ take (HEAD_TEXT - 1 - length h) buf)"

text \<open>The C string in a buffer, up to its first zero byte.\<close>

definition c_string :: "string \<Rightarrow> string" where
  "c_string s = takeWhile (\<lambda>c. c \<noteq> CHR 0x00) s"

text \<open>\<open>rest\<close> is the text from the first blank on, empty for the null pointer.\<close>

definition status_ok :: "string \<Rightarrow> bool" where
  "status_ok rest =
     (case rest of
        _ # c1 # c2 # c3 # _ \<Rightarrow> c1 = CHR ''2'' \<and> c_isdigit c2 \<and> c_isdigit c3
      | _ \<Rightarrow> False)"

definition reply_ok :: "string \<Rightarrow> bool" where
  "reply_ok h =
     (starts_with ''HTTP/'' (c_string h) \<and>
      status_ok (dropWhile (\<lambda>c. c \<noteq> CHR '' '') (c_string h)))"

definition read_head :: "string list \<Rightarrow> string" where
  "read_head chunks = foldl keep_head [] chunks"

subsection \<open>The webhook\<close>

definition DELIVERY_SECONDS :: int where "DELIVERY_SECONDS = 10"

text \<open>
  What the outside answers to one delivery: the system's CA bundle, the number of anchors a file
  gives (-1 when it cannot be read), the addresses of the host if it resolves, \<open>send\<close>, whether the
  TLS write and flush succeeded, and the pieces of the reply read in time.
\<close>

record net_env =
  system_store :: "string option"
  anchors_in :: "string \<Rightarrow> int"
  addresses :: "(bool \<times> conn_result option) list option"
  send_in_time :: "nat \<Rightarrow> bool"
  send_takes :: "nat \<Rightarrow> nat \<Rightarrow> int"
  tls_written :: bool
  replies :: "string list"

definition load_anchors :: "net_env \<Rightarrow> string \<Rightarrow> bool" where
  "load_anchors env file =
     (case (if file \<noteq> [] then Some file else system_store env) of
        None \<Rightarrow> False
      | Some p \<Rightarrow> anchors_in env p > 0)"

definition webhook_body :: "string \<Rightarrow> string \<Rightarrow> double \<Rightarrow> double \<Rightarrow> string \<Rightarrow> string \<Rightarrow> string \<Rightarrow> string" where
  "webhook_body ename emetric x thr op ts ehost =
     ''{'' @ quote ''alert'' @ '':'' @ quote ename @ '','' @ quote ''metric'' @ '':'' @ quote emetric @
     '','' @ quote ''value'' @ '':'' @ fmt_g 6 x @
     '','' @ quote ''threshold'' @ '':'' @ fmt_g 6 thr @
     '','' @ quote ''operator'' @ '':'' @ quote op @
     '','' @ quote ''timestamp'' @ '':'' @ quote ts @
     '','' @ quote ''hostname'' @ '':'' @ quote ehost @ ''}''"

definition CRLF :: string where "CRLF = [CHR 0x0D, CHR 0x0A]"

definition webhook_head :: "url \<Rightarrow> nat \<Rightarrow> string" where
  "webhook_head u blen =
     (let shown = (port u \<noteq> (if https u then ''443'' else ''80''))
      in ''POST '' @ path u @ '' HTTP/1.0'' @ CRLF @
         ''Host: '' @ host u @ (if shown then '':'' @ port u else []) @ CRLF @
         ''Content-Type: application/json'' @ CRLF @
         ''Content-Length: '' @ show_nat blen @ CRLF @
         ''Connection: close'' @ CRLF @ CRLF)"

definition webhook_request :: "url \<Rightarrow> alert_cfg_t \<Rightarrow> double \<Rightarrow> string \<Rightarrow> string \<Rightarrow> string option" where
  "webhook_request u a x ts hostname =
     (case (json_escape 256 (name a), json_escape 256 (metric a), json_escape 512 hostname) of
        (Some ename, Some emetric, Some ehost) \<Rightarrow>
          (case fit_printf 1024 (webhook_body ename emetric x (threshold a) (operator a) ts ehost) of
             None \<Rightarrow> None
           | Some body \<Rightarrow> fit_printf 1024 (webhook_head u (length body) @ body))
      | _ \<Rightarrow> None)"

text \<open>After the connection: whether a 2xx came back.\<close>

definition exchange :: "net_env \<Rightarrow> bool \<Rightarrow> bool" where
  "exchange env tls = (if tls \<and> \<not> tls_written env then reply_ok [] else reply_ok (read_head (replies env)))"

text \<open>Whether the endpoint answered 2xx, and the bytes that went out on a plain connection.\<close>

definition post_webhook ::
    "net_env \<Rightarrow> config_t \<Rightarrow> alert_cfg_t \<Rightarrow> double \<Rightarrow> string \<Rightarrow> string \<Rightarrow> bool \<times> string option" where
  "post_webhook env cfg a x ts hostname =
     (case parse_url (webhook a) 256 8 512 of
        None \<Rightarrow> (False, None)
      | Some u \<Rightarrow>
          (case webhook_request u a x ts hostname of
             None \<Rightarrow> (False, None)
           | Some req \<Rightarrow>
               if https u \<and> \<not> insecure_skip_verify cfg \<and> \<not> load_anchors env (ca_file cfg)
               then (False, None)
               else (case addresses env of
                       None \<Rightarrow> (False, None)
                     | Some ads \<Rightarrow>
                         if connect_any ads 0 = None then (False, None)
                         else (exchange env (https u),
                               if https u then None
                               else Some (write_all (send_in_time env) (send_takes env) 0 req)))))"

subsection \<open>The command\<close>

text \<open>The variables the command sees besides the daemon's own.\<close>

definition alert_exports :: "alert_cfg_t \<Rightarrow> double \<Rightarrow> (string \<times> string) list" where
  "alert_exports a x =
     [(''MINIMONI_ALERT_NAME'', name a), (''MINIMONI_ALERT_METRIC'', metric a),
      (''MINIMONI_ALERT_VALUE'', fst (snprintf 32 (fmt_g 6 x))),
      (''MINIMONI_ALERT_THRESHOLD'', fst (snprintf 32 (fmt_g 6 (threshold a)))),
      (''MINIMONI_ALERT_OPERATOR'', operator a)]"

text \<open>\<open>sys\<close> is \<open>system\<close>: the status of a command run with these variables.\<close>

definition run_command :: "(string \<Rightarrow> (string \<times> string) list \<Rightarrow> int) \<Rightarrow> alert_cfg_t \<Rightarrow> double \<Rightarrow> bool" where
  "run_command sys a x = (sys (command a) (alert_exports a x) = 0)"

subsection \<open>One cycle\<close>

text \<open>
  What the outside answers while one alert is evaluated: the steps of the two statements on the
  alert log with the clock at each, the delivery of the webhook, and \<open>system\<close>.
\<close>

record alert_env =
  chk_step :: "nat \<Rightarrow> step_rc"
  chk_now :: int
  log_step :: "nat \<Rightarrow> step_rc"
  log_now :: int
  net :: net_env
  sys :: "string \<Rightarrow> (string \<times> string) list \<Rightarrow> int"

text \<open>The title, or the name of the host if it can be read.\<close>

definition alert_hostname :: "config_t \<Rightarrow> string option \<Rightarrow> string" where
  "alert_hostname cfg hostname =
     (if title cfg \<noteq> [] then fst (snprintf 128 (title cfg))
      else case hostname of Some h \<Rightarrow> h | None \<Rightarrow> ''unknown'')"

text \<open>Both actions are tried; one success is enough.\<close>

definition deliver :: "alert_env \<Rightarrow> config_t \<Rightarrow> alert_cfg_t \<Rightarrow> double \<Rightarrow> string \<Rightarrow> string \<Rightarrow> bool" where
  "deliver env cfg a x ts hostname =
     ((webhook a \<noteq> [] \<and> fst (post_webhook (net env) cfg a x ts hostname)) \<or>
      (command a \<noteq> [] \<and> run_command (sys env) a x))"

text \<open>Whether the alert was delivered, which the source shows on stderr and by the action itself, and
  the database.\<close>

definition alert_step ::
    "alert_env \<Rightarrow> config_t \<Rightarrow> db_row_t \<Rightarrow> string \<Rightarrow> alert_cfg_t \<Rightarrow> database \<Rightarrow> bool \<times> database" where
  "alert_step env cfg row hostname a db =
     (case get_metric_value row (metric a) of (x, valid) \<Rightarrow>
        if \<not> valid then (False, db)
        else if \<not> eval_op x (operator a) (threshold a) then (False, db)
        else if db_alert_on_cooldown (chk_step env) (chk_now env) (name a) (cooldown_seconds a) db \<noteq> 0 then (False, db)
        else if \<not> deliver env cfg a x (r_timestamp row) hostname then (False, db)
        else (True, snd (db_alert_log_fire (log_step env) (log_now env) (name a) db)))"

fun alerts_loop ::
    "(nat \<Rightarrow> alert_env) \<Rightarrow> config_t \<Rightarrow> db_row_t \<Rightarrow> string \<Rightarrow> nat \<Rightarrow> alert_cfg_t list \<Rightarrow> database \<Rightarrow> database" where
  "alerts_loop envs cfg row hostname i [] db = db"
| "alerts_loop envs cfg row hostname i (a # as) db =
     alerts_loop envs cfg row hostname (i + 1) as (snd (alert_step (envs i) cfg row hostname a db))"

definition alerts_evaluate ::
    "(nat \<Rightarrow> alert_env) \<Rightarrow> string option \<Rightarrow> config_t \<Rightarrow> db_row_t \<Rightarrow> database \<Rightarrow> database" where
  "alerts_evaluate envs hostname cfg row db =
     (if alerts cfg = [] then db
      else alerts_loop envs cfg row (alert_hostname cfg hostname) 0 (alerts cfg) db)"

end
