(* ===== verification/MainProg.thy ===== *)
theory MainProg
  imports Alerts Http ConfigLoad
begin

text \<open>
  \<open>src/main.c\<close>: the command line, how long samples are kept, the cycle that stores a sample and
  evaluates the alerts, the one-shot \<open>collect\<close> and the daemon \<open>serve\<close>. The two run one cycle after
  the other over the database; everything the outside decides (what is read, the clock, which
  statements go through, signals) is an argument.
\<close>

subsection \<open>The command line\<close>

datatype arg_error =
    Unexpected_argument string
  | Config_requires_path
  | Db_requires_action
  | Info_requires_path
  | Exec_requires_sql
  | Unknown_action string
  | Unknown_subcommand string

text \<open>The arguments after the subcommand, and the path found so far; the last one counts.\<close>

fun parse_config_flag :: "string list \<Rightarrow> string option \<Rightarrow> arg_error + string option" where
  "parse_config_flag [] found = Inr found"
| "parse_config_flag (a # rest) found =
     (if a \<noteq> ''--config'' then Inl (Unexpected_argument a)
      else case rest of
             [] \<Rightarrow> Inl Config_requires_path
           | p # rest' \<Rightarrow> parse_config_flag rest' (Some p))"

datatype command =
    Usage int
  | Version
  | Collect "string option"
  | Serve "string option"
  | Db_info string
  | Db_exec string string "string option"

definition config_command :: "(string option \<Rightarrow> command) \<Rightarrow> string list \<Rightarrow> arg_error + command" where
  "config_command f args =
     (case parse_config_flag args None of Inl e \<Rightarrow> Inl e | Inr p \<Rightarrow> Inr (f p))"

definition db_command :: "string list \<Rightarrow> arg_error + command" where
  "db_command args =
     (case args of
        [] \<Rightarrow> Inl Db_requires_action
      | action # rest \<Rightarrow>
          if action = ''info''
          then (case rest of [] \<Rightarrow> Inl Info_requires_path | p # _ \<Rightarrow> Inr (Db_info p))
          else if action = ''exec''
          then (case rest of
                  [p, q] \<Rightarrow> Inr (Db_exec p q None)
                | [p, q, v] \<Rightarrow> Inr (Db_exec p q (Some v))
                | _ \<Rightarrow> Inl Exec_requires_sql)
          else Inl (Unknown_action action))"

text \<open>What \<open>main\<close> runs for the arguments after the program's name.\<close>

definition main_command :: "string list \<Rightarrow> arg_error + command" where
  "main_command args =
     (case args of
        [] \<Rightarrow> Inr (Usage 1)
      | s # rest \<Rightarrow>
          if s = ''--version'' then Inr Version
          else if s = ''--help'' \<or> s = ''-h'' then Inr (Usage 0)
          else if s = ''collect'' then config_command Collect rest
          else if s = ''serve'' then config_command Serve rest
          else if s = ''db'' then db_command rest
          else Inl (Unknown_subcommand s))"

subsection \<open>How long samples are kept\<close>

definition range_to_days :: "int \<Rightarrow> string \<Rightarrow> int" where
  "range_to_days lmax r =
     (let n = to_signed 32 (fst (strtol lmax r)); u = last r
      in if u = CHR ''d'' then n
         else if u = CHR ''h'' then c_div (n + 23) 24
         else if u = CHR ''m'' then c_div (n + 1439) 1440
         else 1)"

definition longest_days :: "int \<Rightarrow> string list \<Rightarrow> int" where
  "longest_days lmax rs = foldl (\<lambda>mx r. if range_to_days lmax r > mx then range_to_days lmax r else mx) 0 rs"

definition retention_days :: "int \<Rightarrow> config_t \<Rightarrow> int" where
  "retention_days lmax cfg =
     (if ranges cfg = [] then 90
      else if longest_days lmax (ranges cfg) > 0 then longest_days lmax (ranges cfg) else 90)"

subsection \<open>One cycle\<close>

text \<open>What the outside answers while a sample is stored: the steps of the statements, the clock at
  each of them, and the alerts.\<close>

record cycle_env =
  ins_step :: "nat \<Rightarrow> step_rc"
  ins_now :: int
  cons_ok :: bool
  cons_now :: int
  prune_step1 :: "nat \<Rightarrow> step_rc"
  prune_step2 :: "nat \<Rightarrow> step_rc"
  prune_now :: int
  cur_prepared :: bool
  cur_stepped :: bool
  alert_envs :: "nat \<Rightarrow> alert_env"
  host_name :: "string option"

definition keep_house :: "cycle_env \<Rightarrow> int \<Rightarrow> db_t \<Rightarrow> database \<Rightarrow> database" where
  "keep_house c days d db =
     snd (db_prune (prune_step1 c) (prune_step2 c) (prune_now c) days
       (snd (db_consolidate (cons_ok c) (cons_now c) d db)))"

definition watch :: "cycle_env \<Rightarrow> config_t \<Rightarrow> database \<Rightarrow> database" where
  "watch c cfg db =
     (case db_current (cur_prepared c) (cur_stepped c) db of
        (rc, row) \<Rightarrow>
          if rc \<noteq> 0 then db
          else (case row of
                  Some r \<Rightarrow> alerts_evaluate (alert_envs c) (host_name c) cfg r db
                | None \<Rightarrow> db))"

definition store_cycle :: "cycle_env \<Rightarrow> config_t \<Rightarrow> int \<Rightarrow> db_t \<Rightarrow> metrics_t \<Rightarrow> database \<Rightarrow> int \<times> database" where
  "store_cycle c cfg days d m db =
     (case db_insert (ins_step c) (ins_now c) d m db of (rc, db1) \<Rightarrow>
        if rc \<noteq> 0 then (rc, db1)
        else (0, watch c cfg (keep_house c days d db1)))"

subsection \<open>The host\<close>

text \<open>What the configuration is read from, and the results of opening the database.\<close>

record host_env =
  long_max :: int
  ulong_max :: int
  fs :: fs_env
  can_read :: "string \<Rightarrow> bool"
  toml_of :: "string \<Rightarrow> toml option"
  open_env :: open_results
  garbage :: metrics_t

definition open_config :: "host_env \<Rightarrow> string option \<Rightarrow> config_t option" where
  "open_config h arg = config_open (long_max h) (fs h) (can_read h) (toml_of h) arg"

definition statics_zero :: statics where
  "statics_zero = \<lparr>s_prev_cpu = None, s_prev_net = None, s_prev_swap_io = None, s_memfree_noted = False\<rparr>"

text \<open>The tables in a file, and the file with other tables.\<close>

definition stored :: "path_state \<Rightarrow> database" where
  "stored p = (case p of File f \<Rightarrow> (case tables f of Some t \<Rightarrow> t | None \<Rightarrow> empty_db) | _ \<Rightarrow> empty_db)"

definition store :: "database \<Rightarrow> path_state \<Rightarrow> path_state" where
  "store db p = (case p of File f \<Rightarrow> File (f\<lparr>tables := Some db\<rparr>) | _ \<Rightarrow> p)"

type_synonym files = "string \<Rightarrow> path_state"

subsection \<open>\<open>minimoni collect\<close>\<close>

text \<open>The exit status and the files.\<close>

definition run_collect ::
    "host_env \<Rightarrow> environment \<Rightarrow> environment \<Rightarrow> cycle_env \<Rightarrow> string option \<Rightarrow> files \<Rightarrow> int \<times> files" where
  "run_collect h env1 env2 c arg fl =
     (case open_config h arg of
        None \<Rightarrow> (1, fl)
      | Some cfg \<Rightarrow>
          (case db_open (open_env h) (fl (db_path cfg)) (interval_seconds cfg) of (rc, d, p) \<Rightarrow>
             let fl1 = fl(db_path cfg := p)
             in if rc \<noteq> 0 then (1, fl1)
                else case metrics_collect (long_max h) env1 statics_zero (garbage h) of (rc1, st1, m1) \<Rightarrow>
                  if rc1 \<noteq> 0 then (1, fl1)
                  else case metrics_collect (long_max h) env2 st1 m1 of (rc2, st2, m2) \<Rightarrow>
                    if rc2 \<noteq> 0 then (1, fl1)
                    else case store_cycle c cfg (retention_days (long_max h) cfg) d m2 (stored p) of (rc3, db) \<Rightarrow>
                      (if rc3 \<noteq> 0 then 1 else 0, fl1(db_path cfg := store db p))))"

subsection \<open>\<open>minimoni serve\<close>\<close>

text \<open>One turn of the loop: the flag as the loop reads it before and after the sleep, what
  \<open>clock_nanosleep\<close> returns, what the collection reads and what storing meets.\<close>

record wake =
  stop_before :: bool
  slept :: int
  stop_after :: bool
  seen :: environment
  cyc :: cycle_env

record serve_state =
  deadline :: int
  sampled :: metrics_t
  snapshots :: statics
  failed_run :: nat
  db_now :: database

definition serve_turn ::
    "int \<Rightarrow> config_t \<Rightarrow> int \<Rightarrow> db_t \<Rightarrow> wake \<Rightarrow> serve_state \<Rightarrow> serve_state \<times> bool" where
  "serve_turn lmax cfg days d w s =
     (if stop_before w then (s, False)
      else if stop_after w then (s, False)
      else if slept w \<noteq> 0 then (s, True)
      else case metrics_collect lmax (seen w) (snapshots s) (sampled s) of (rc, st, m) \<Rightarrow>
        let s1 = s\<lparr>deadline := deadline s + interval_seconds cfg, sampled := m, snapshots := st,
                   failed_run := fst (metrics_run_note (failed_run s) rc)\<rparr>
        in if rc \<noteq> 0 then (s1, True)
           else (s1\<lparr>db_now := snd (store_cycle (cyc w) cfg days d m (db_now s))\<rparr>, True))"

fun serve_loop :: "int \<Rightarrow> config_t \<Rightarrow> int \<Rightarrow> db_t \<Rightarrow> wake list \<Rightarrow> serve_state \<Rightarrow> serve_state" where
  "serve_loop lmax cfg days d [] s = s"
| "serve_loop lmax cfg days d (w # ws) s =
     (case serve_turn lmax cfg days d w s of
        (s', goes_on) \<Rightarrow> if goes_on then serve_loop lmax cfg days d ws s' else s')"

record serve_env =
  ro_ok :: bool
  http_env :: start_env
  seed :: environment
  mono_start :: int
  wakes :: "wake list"

definition serve_start :: "host_env \<Rightarrow> serve_env \<Rightarrow> config_t \<Rightarrow> database \<Rightarrow> serve_state" where
  "serve_start h e cfg db =
     (case metrics_collect (long_max h) (seed e) statics_zero (garbage h) of (rc, st, m) \<Rightarrow>
        \<lparr>deadline = mono_start e + interval_seconds cfg, sampled = m, snapshots = st, failed_run = 0, db_now = db\<rparr>)"

definition run_serve :: "host_env \<Rightarrow> serve_env \<Rightarrow> string option \<Rightarrow> files \<Rightarrow> int \<times> files" where
  "run_serve h e arg fl =
     (case open_config h arg of
        None \<Rightarrow> (1, fl)
      | Some cfg \<Rightarrow>
          (case db_open (open_env h) (fl (db_path cfg)) (interval_seconds cfg) of (rc, d, p) \<Rightarrow>
             let fl1 = fl(db_path cfg := p)
             in if rc \<noteq> 0 then (1, fl1)
                else if fst (db_open_readonly (ro_ok e) p) \<noteq> 0 then (1, fl1)
                else if fst (http_start (long_max h) (ulong_max h) (http_env e)) \<noteq> 0 then (1, fl1)
                else let s = serve_loop (long_max h) cfg (retention_days (long_max h) cfg) d (wakes e)
                               (serve_start h e cfg (stored p))
                     in (0, fl1(db_path cfg := store (db_now s) p))))"

end
