(* ===== verification/AlertProps.thy ===== *)
theory AlertProps
  imports Alerts JsonProps
begin

text \<open>
  What the alerts promise. The log that keeps an alert quiet is an interface: \<open>cooldown_log\<close> states
  what checking, recording and pruning do to a list of (name, instant) entries, and its client
  lemma says that a recorded fire keeps the next one of the alert a cooldown away. It is interpreted
  on the alert log of the database, where the instants are texts; an evaluation is shown to be a run
  of it, and to add the entries of the alerts that are due and quiet.
  The rest is about the webhook: its address, its request and the verdict on the reply.
\<close>

subsection \<open>A log that keeps alerts quiet\<close>

text \<open>An operation on the log: an alert that wants to fire, with its name, its cooldown, the clock when
  the log is checked, and the clock when the fire is recorded unless the record fails; and the
  pruning of old entries.\<close>

datatype log_op = Attempt string int int "int option" | Prune int

fun op_time :: "log_op \<Rightarrow> int" where
  "op_time (Attempt m cd c t) = c"
| "op_time (Prune now) = now"

text \<open>A fire, recorded or not: the name, the cooldown, the check and the record.\<close>

type_synonym fire = "string \<times> int \<times> int \<times> int option"

text \<open>The state after a sequence of operations, and the fires on the way.\<close>

fun log_run ::
    "('s \<Rightarrow> string \<Rightarrow> int \<Rightarrow> int \<Rightarrow> bool) \<Rightarrow> ('s \<Rightarrow> string \<Rightarrow> int \<Rightarrow> 's) \<Rightarrow> ('s \<Rightarrow> int \<Rightarrow> 's) \<Rightarrow>
     log_op list \<Rightarrow> 's \<Rightarrow> 's \<times> fire list" where
  "log_run blocked fire prune [] s = (s, [])"
| "log_run blocked fire prune (Prune now # ops) s = log_run blocked fire prune ops (prune s now)"
| "log_run blocked fire prune (Attempt m cd c t # ops) s =
     (if blocked s m c cd then log_run blocked fire prune ops s
      else case log_run blocked fire prune ops (case t of None \<Rightarrow> s | Some u \<Rightarrow> fire s m u) of (s', fs) \<Rightarrow> (s', (m, cd, c, t) # fs))"

text \<open>After a fire that was recorded, a fire of the same alert, recorded or not, is checked no earlier
  than its cooldown after the record.\<close>

definition spaced :: "fire \<Rightarrow> fire \<Rightarrow> bool" where
  "spaced f g = (case (f, g) of ((m, cd, c, t), (m', cd', c', t')) \<Rightarrow> m = m' \<longrightarrow> (case t of None \<Rightarrow> True | Some u \<Rightarrow> u + cd' \<le> c'))"

locale cooldown_log =
  fixes inv :: "nat \<Rightarrow> 's \<Rightarrow> bool"
    and entries :: "'s \<Rightarrow> (string \<times> int) list"
    and blocked :: "'s \<Rightarrow> string \<Rightarrow> int \<Rightarrow> int \<Rightarrow> bool"
    and fire :: "'s \<Rightarrow> string \<Rightarrow> int \<Rightarrow> 's"
    and prune :: "'s \<Rightarrow> int \<Rightarrow> 's"
    and keep :: int
    and ok :: "int \<Rightarrow> bool"
  assumes inv_Suc: "inv (Suc n) s \<Longrightarrow> inv n s"
    and blocked_iff: "inv n s \<Longrightarrow> ok (now - cd) \<Longrightarrow>
      blocked s m now cd \<longleftrightarrow> (\<exists>t. (m, t) \<in> set (entries s) \<and> now - cd < t)"
    and fire_inv: "inv (Suc n) s \<Longrightarrow> ok t \<Longrightarrow> inv n (fire s m t)"
    and fire_entries: "inv (Suc n) s \<Longrightarrow> ok t \<Longrightarrow> entries (fire s m t) = entries s @ [(m, t)]"
    and prune_inv: "inv n s \<Longrightarrow> ok (now - keep) \<Longrightarrow> inv n (prune s now)"
    and prune_entries: "inv n s \<Longrightarrow> ok (now - keep) \<Longrightarrow>
      entries (prune s now) = filter (\<lambda>(m, t). now - keep \<le> t) (entries s)"
begin

fun op_ok :: "log_op \<Rightarrow> bool" where
  "op_ok (Attempt m cd c t) = (ok (c - cd) \<and> (case t of None \<Rightarrow> True | Some u \<Rightarrow> ok u) \<and> cd \<le> keep)"
| "op_ok (Prune now) = ok (now - keep)"

lemma recorded:
  assumes "inv (Suc (length ops)) s" and "op_ok (Attempt m cd c t)"
  shows "inv (length ops) (case t of None \<Rightarrow> s | Some u \<Rightarrow> fire s m u)"
    and "entries (case t of None \<Rightarrow> s | Some u \<Rightarrow> fire s m u) =
      entries s @ (case t of None \<Rightarrow> [] | Some u \<Rightarrow> [(m, u)])"
  using assms inv_Suc fire_inv fire_entries by (auto split: option.splits)

lemma later_fires:
  assumes "inv (length ops) s" and "list_all op_ok ops" and "sorted (map op_time ops)"
    and "(m, t) \<in> set (entries s) \<or> (\<forall>x \<in> set ops. t < op_time x - keep)"
    and "(m, cd, c, t') \<in> set (snd (log_run blocked fire prune ops s))"
  shows "t + cd \<le> c"
  using assms
proof (induction ops arbitrary: s)
  case Nil
  then show ?case by simp
next
  case (Cons x ops)
  have mono: "op_time x \<le> op_time y" if "y \<in> set ops" for y using Cons.prems(3) that by simp
  have inv: "inv (length ops) s" using Cons.prems(1) inv_Suc by simp
  show ?case
  proof (cases x)
    case (Prune now)
    have ok: "ok (now - keep)" using Cons.prems(2) Prune by simp
    have "(m, t) \<in> set (entries (prune s now)) \<or> (\<forall>y \<in> set ops. t < op_time y - keep)"
      using Cons.prems(4) prune_entries [OF inv ok] mono Prune by fastforce
    then show ?thesis
      using Cons.IH [OF prune_inv [OF inv ok]] Cons.prems Prune by auto
  next
    case (Attempt m' cd' c' u)
    have ok: "ok (c' - cd')" "cd' \<le> keep" using Cons.prems(2) Attempt by simp_all
    have b: "blocked s m' c' cd' \<longleftrightarrow> (\<exists>t. (m', t) \<in> set (entries s) \<and> c' - cd' < t)"
      by (rule blocked_iff [OF inv ok(1)])
    show ?thesis
    proof (cases "blocked s m' c' cd'")
      case True
      then show ?thesis using Cons.IH [OF inv] Cons.prems Attempt by auto
    next
      case False
      define s' where "s' = (case u of None \<Rightarrow> s | Some u \<Rightarrow> fire s m' u)"
      have "op_ok (Attempt m' cd' c' u)" using Cons.prems(2) Attempt by simp
      then have s': "inv (length ops) s'" "set (entries s) \<subseteq> set (entries s')"
        using recorded [of ops s m' cd' c' u] Cons.prems(1) unfolding s'_def by auto
      have here: "t + cd' \<le> c'" if "m' = m"
        using Cons.prems(4) False b that ok(2) Attempt by auto
      have "(m, t) \<in> set (entries s') \<or> (\<forall>y \<in> set ops. t < op_time y - keep)"
        using Cons.prems(4) s'(2) by auto
      note IH = Cons.IH [OF s'(1) _ _ this]
      show ?thesis
        using IH here Cons.prems(2,3,5) Attempt False by (auto simp flip: s'_def split: prod.splits)
    qed
  qed
qed

theorem fires_spaced:
  assumes "inv (length ops) s" and "list_all op_ok ops" and "sorted (map op_time ops)"
  shows "sorted_wrt spaced (snd (log_run blocked fire prune ops s))"
  using assms
proof (induction ops arbitrary: s)
  case (Cons x ops)
  have inv: "inv (length ops) s" using Cons.prems(1) inv_Suc by simp
  show ?case
  proof (cases x)
    case (Prune now)
    then show ?thesis using Cons.IH [OF prune_inv [OF inv]] Cons.prems by simp
  next
    case (Attempt m cd c t)
    define s' where "s' = (case t of None \<Rightarrow> s | Some u \<Rightarrow> fire s m u)"
    have "op_ok (Attempt m cd c t)" using Cons.prems(2) Attempt by simp
    then have inv': "inv (length ops) s'" and ent: "entries s' = entries s @ (case t of None \<Rightarrow> [] | Some u \<Rightarrow> [(m, u)])"
      using recorded [of ops s m cd c t] Cons.prems(1) unfolding s'_def by simp_all
    have "spaced (m, cd, c, t) g" if "g \<in> set (snd (log_run blocked fire prune ops s'))" for g
      using later_fires [OF inv', of m] that Cons.prems Attempt ent
      by (cases g) (fastforce simp: spaced_def split: option.splits)
    then show ?thesis
      using Cons.IH [OF inv'] Cons.IH [OF inv] Cons.prems Attempt by (auto simp flip: s'_def split: prod.splits)
  qed
qed simp

end

subsection \<open>The log of the database\<close>

definition log_db :: "(string \<times> string) list \<Rightarrow> database" where
  "log_db l = \<lparr>metrics_tbl = [], alert_log = l\<rparr>"

definition log_inv :: "nat \<Rightarrow> (string \<times> string) list \<Rightarrow> bool" where
  "log_inv n l = (list_all log_ok l \<and> length l + n < 2 ^ 31)"

definition log_entries :: "(string \<times> string) list \<Rightarrow> (string \<times> int) list" where
  "log_entries l = map (\<lambda>(m, f). (m, the (unix_of f))) l"

definition log_blocked :: "(string \<times> string) list \<Rightarrow> string \<Rightarrow> int \<Rightarrow> int \<Rightarrow> bool" where
  "log_blocked l m now cd = (db_alert_on_cooldown (\<lambda>_. ST_ROW) now m cd (log_db l) \<noteq> 0)"

definition log_fire :: "(string \<times> string) list \<Rightarrow> string \<Rightarrow> int \<Rightarrow> (string \<times> string) list" where
  "log_fire l m t = alert_log (snd (db_alert_log_fire (\<lambda>_. ST_DONE) t m (log_db l)))"

definition log_prune :: "int \<Rightarrow> (string \<times> string) list \<Rightarrow> int \<Rightarrow> (string \<times> string) list" where
  "log_prune days l now =
     alert_log (snd (db_prune (\<lambda>_. ST_DONE) (\<lambda>_. ST_DONE) now days (log_db l)))"

lemma to_signed_small: "n < 2 ^ 31 \<Longrightarrow> to_signed 32 (int n) = int n"
  by (rule to_signed_id) auto

lemma log_blocked_eq:
  assumes "length l < 2 ^ 31"
  shows "log_blocked l m now cd \<longleftrightarrow> (\<exists>f. (m, f) \<in> set l \<and> iso_of (now - cd) < f)"
proof -
  have "to_signed 32 (int (length (filter P l))) = int (length (filter P l))" for P
    by (rule to_signed_small) (use assms le_less_trans [OF length_filter_le] in blast)
  then show ?thesis
    by (auto simp: log_blocked_def db_alert_on_cooldown_def alert_check_def log_db_def step_with_retry_eq
        filter_empty_conv)
qed

lemma log_fire_eq: "log_fire l m t = l @ [(m, iso_of t)]"
  by (simp add: log_fire_def db_alert_log_fire_def log_db_def step_with_retry_eq)

lemma log_prune_eq: "log_prune days l now = filter (\<lambda>(n, f). \<not> f < iso_of (now - days * 86400)) l"
  by (simp add: log_prune_def db_prune_def prune_metrics_def prune_alerts_def Let_def iso_cutoff_def
      log_db_def step_with_retry_eq)

lemma log_inv_ok: "log_inv n l \<Longrightarrow> e \<in> set l \<Longrightarrow> log_ok e"
  by (auto simp: log_inv_def list_all_iff)

lemma log_ok_less:
  assumes "log_ok (m, f)" and "time_ok x"
  shows "iso_of x < f \<longleftrightarrow> x < the (unix_of f)" and "f < iso_of x \<longleftrightarrow> the (unix_of f) < x"
  using assms by (auto simp: iso.parse_fmt iso.fmt_less elim!: log_okE)

interpretation al: cooldown_log log_inv log_entries log_blocked log_fire "log_prune days" "days * 86400" time_ok
  for days
proof
  fix n s assume "log_inv (Suc n) s"
  then show "log_inv n s" by (simp add: log_inv_def)
next
  fix n s now cd m
  assume inv: "log_inv n s" and ok: "time_ok (now - cd)"
  have b: "log_blocked s m now cd \<longleftrightarrow> (\<exists>f. (m, f) \<in> set s \<and> iso_of (now - cd) < f)"
    using inv by (intro log_blocked_eq) (simp add: log_inv_def)
  have "iso_of (now - cd) < f \<longleftrightarrow> now - cd < the (unix_of f)" if "(m, f) \<in> set s" for f
    by (rule log_ok_less(1) [OF log_inv_ok [OF inv that] ok])
  then show "log_blocked s m now cd \<longleftrightarrow> (\<exists>t. (m, t) \<in> set (log_entries s) \<and> now - cd < t)"
    unfolding b by (force simp: log_entries_def)
next
  fix n s t m
  assume "log_inv (Suc n) s" "time_ok t"
  then show "log_inv n (log_fire s m t)" and "log_entries (log_fire s m t) = log_entries s @ [(m, t)]"
    by (simp_all add: log_inv_def log_fire_eq log_entries_def log_okI iso.parse_fmt)
next
  fix n s now
  assume inv: "log_inv n s" and ok: "time_ok (now - days * 86400)"
  then show "log_inv n (log_prune days s now)"
    using le_less_trans [OF add_right_mono [OF length_filter_le]]
    by (auto simp: log_inv_def log_prune_eq list_all_iff)
  have k: "(case e of (n, f) \<Rightarrow> \<not> f < iso_of (now - days * 86400)) =
      (case e of (m, f) \<Rightarrow> now - days * 86400 \<le> the (unix_of f))" if "e \<in> set s" for e
    using log_inv_ok [OF inv that] ok by (cases e) (auto simp: log_ok_less)
  have "log_prune days s now = filter (\<lambda>(m, f). now - days * 86400 \<le> the (unix_of f)) s"
    unfolding log_prune_eq by (rule filter_cong [OF refl k])
  then show "log_entries (log_prune days s now) = filter (\<lambda>(m, t). now - days * 86400 \<le> t) (log_entries s)"
    by (simp add: log_entries_def filter_map comp_def case_prod_beta')
qed

subsection \<open>An evaluation as operations on the log\<close>

text \<open>The comparisons a configuration can ask for.\<close>

definition comparisons :: "(string \<times> (double \<Rightarrow> double \<Rightarrow> bool)) list" where
  "comparisons = [(''<'', (<)), (''<='', (\<le>)), (''>'', \<lambda>x y. y < x), (''>='', \<lambda>x y. y \<le> x)]"

text \<open>An alert is due when its metric has a value, the value meets the condition, and an action takes
  the alert.\<close>

definition due :: "alert_env \<Rightarrow> config_t \<Rightarrow> db_row_t \<Rightarrow> string \<Rightarrow> alert_cfg_t \<Rightarrow> bool" where
  "due env cfg row hostname a =
     (\<exists>x R. get_metric_value row (metric a) = (x, True) \<and> map_of comparisons (operator a) = Some R \<and>
        R x (threshold a) \<and> deliver env cfg a x (r_timestamp row) hostname)"

definition check_runs :: "alert_env \<Rightarrow> bool" where
  "check_runs env = (step_with_retry (chk_step env) = ST_ROW)"

definition record_runs :: "alert_env \<Rightarrow> bool" where
  "record_runs env = (step_with_retry (log_step env) = ST_DONE)"

definition wants :: "alert_env \<Rightarrow> config_t \<Rightarrow> db_row_t \<Rightarrow> string \<Rightarrow> alert_cfg_t \<Rightarrow> bool" where
  "wants env cfg row hostname a = (due env cfg row hostname a \<and> check_runs env)"

definition attempt :: "alert_env \<Rightarrow> alert_cfg_t \<Rightarrow> log_op" where
  "attempt env a = Attempt (name a) (cooldown_seconds a) (chk_now env)
     (if record_runs env then Some (log_now env) else None)"

fun attempts ::
    "(nat \<Rightarrow> alert_env) \<Rightarrow> config_t \<Rightarrow> db_row_t \<Rightarrow> string \<Rightarrow> nat \<Rightarrow> alert_cfg_t list \<Rightarrow> log_op list" where
  "attempts envs cfg row hostname i [] = []"
| "attempts envs cfg row hostname i (a # as) =
     (if wants (envs i) cfg row hostname a then [attempt (envs i) a] else []) @
     attempts envs cfg row hostname (i + 1) as"

lemma eval_op_comparisons:
  "eval_op x op thr \<longleftrightarrow> (\<exists>R. map_of comparisons op = Some R \<and> R x thr)"
  by (simp add: eval_op_def comparisons_def)

lemma alert_step_cases:
  "alert_step env cfg row hostname a db =
     (if wants env cfg row hostname a \<and> \<not> log_blocked (alert_log db) (name a) (chk_now env) (cooldown_seconds a)
      then (True, if record_runs env
                  then db\<lparr>alert_log := log_fire (alert_log db) (name a) (log_now env)\<rparr> else db)
      else (False, db))"
  by (auto simp: alert_step_def wants_def due_def check_runs_def record_runs_def eval_op_comparisons log_blocked_def
      log_db_def db_alert_on_cooldown_def alert_check_def db_alert_log_fire_def log_fire_eq step_with_retry_eq
      split: prod.splits)

lemma alert_step_metrics [simp]: "metrics_tbl (snd (alert_step env cfg row hostname a db)) = metrics_tbl db"
  by (simp add: alert_step_cases)

lemma alerts_loop_metrics [simp]:
  "metrics_tbl (alerts_loop envs cfg row hn i as db) = metrics_tbl db"
  by (induction as arbitrary: i db) simp_all

lemma alerts_loop_snoc:
  "alerts_loop envs cfg row hn i (as @ [a]) db =
     snd (alert_step (envs (i + length as)) cfg row hn a (alerts_loop envs cfg row hn i as db))"
  by (induction as arbitrary: i db) simp_all

text \<open>One alert on the entries of the log, as instants.\<close>

lemma alert_step_entries:
  fixes env :: alert_env and cfg :: config_t and row :: db_row_t and hn :: string and db :: database
  assumes "log_inv (Suc n) (alert_log db)" and "time_ok (chk_now env - cooldown_seconds a)" and "time_ok (log_now env)"
  defines "fires \<equiv> due env cfg row hn a \<and> check_runs env \<and>
      (\<forall>(m, t) \<in> set (log_entries (alert_log db)). m = name a \<longrightarrow> t + cooldown_seconds a \<le> chk_now env)"
  shows "log_inv n (alert_log (snd (alert_step env cfg row hn a db)))"
    and "log_entries (alert_log (snd (alert_step env cfg row hn a db))) =
      log_entries (alert_log db) @ (if fires \<and> record_runs env then [(name a, log_now env)] else [])"
    and "fst (alert_step env cfg row hn a db) \<longleftrightarrow> fires"
proof -
  have "log_blocked (alert_log db) (name a) (chk_now env) (cooldown_seconds a) \<longleftrightarrow>
      (\<exists>t. (name a, t) \<in> set (log_entries (alert_log db)) \<and> chk_now env - cooldown_seconds a < t)"
    by (rule al.blocked_iff [OF assms(1,2)])
  then have fires: "fires \<longleftrightarrow> wants env cfg row hn a \<and>
      \<not> log_blocked (alert_log db) (name a) (chk_now env) (cooldown_seconds a)"
    unfolding fires_def wants_def by force
  note f = al.fire_inv [OF assms(1,3)] al.fire_entries [OF assms(1,3)]
  show "log_inv n (alert_log (snd (alert_step env cfg row hn a db)))"
    using f(1) al.inv_Suc [OF assms(1)] by (simp add: alert_step_cases)
  show "log_entries (alert_log (snd (alert_step env cfg row hn a db))) =
      log_entries (alert_log db) @ (if fires \<and> record_runs env then [(name a, log_now env)] else [])"
    using f(2) by (simp add: alert_step_cases fires)
  show "fst (alert_step env cfg row hn a db) \<longleftrightarrow> fires"
    by (simp add: alert_step_cases fires)
qed

text \<open>The entry of the \<open>i\<close>-th alert, and whether no entry keeps it quiet.\<close>

definition entry :: "(nat \<Rightarrow> alert_env) \<Rightarrow> alert_cfg_t list \<Rightarrow> nat \<Rightarrow> string \<times> int" where
  "entry envs as i = (name (as ! i), log_now (envs i))"

definition cooled :: "(string \<times> int) set \<Rightarrow> alert_cfg_t \<Rightarrow> int \<Rightarrow> bool" where
  "cooled E a now = (\<forall>(m, t) \<in> E. m = name a \<longrightarrow> t + cooldown_seconds a \<le> now)"

definition evaluated ::
    "(nat \<Rightarrow> alert_env) \<Rightarrow> config_t \<Rightarrow> db_row_t \<Rightarrow> string \<Rightarrow> alert_cfg_t list \<Rightarrow>
     (string \<times> int) list \<Rightarrow> (nat \<Rightarrow> bool) \<Rightarrow> bool" where
  "evaluated envs cfg row hn as old S =
     (\<forall>i < length as. S i \<longleftrightarrow> due (envs i) cfg row hn (as ! i) \<and> check_runs (envs i) \<and> record_runs (envs i) \<and>
        cooled (set old \<union> entry envs as ` {j. j < i \<and> S j}) (as ! i) (chk_now (envs i)))"

lemma evaluated_snoc:
  fixes a :: alert_cfg_t
  assumes "evaluated envs cfg row hn as old S"
  defines "n \<equiv> length as"
  defines "S' \<equiv> S(n := due (envs n) cfg row hn a \<and> check_runs (envs n) \<and> record_runs (envs n) \<and>
      cooled (set old \<union> entry envs as ` {j. j < n \<and> S j}) a (chk_now (envs n)))"
  shows "evaluated envs cfg row hn (as @ [a]) old S'"
    and "map (entry envs (as @ [a])) (filter S' [0..<Suc n]) =
      map (entry envs as) (filter S [0..<n]) @ (if S' n then [(name a, log_now (envs n))] else [])"
proof -
  have same: "entry envs (as @ [a]) ` {j. j < i \<and> S' j} = entry envs as ` {j. j < i \<and> S j}" if "i \<le> n" for i
    using that by (intro image_cong) (auto simp: entry_def nth_append n_def S'_def)
  show "evaluated envs cfg row hn (as @ [a]) old S'"
    unfolding evaluated_def
  proof (intro allI impI)
    fix i assume "i < length (as @ [a])"
    then have "i < n \<or> i = n" by (auto simp: n_def)
    then show "S' i = (due (envs i) cfg row hn ((as @ [a]) ! i) \<and> check_runs (envs i) \<and> record_runs (envs i) \<and>
        cooled (set old \<union> entry envs (as @ [a]) ` {j. j < i \<and> S' j}) ((as @ [a]) ! i) (chk_now (envs i)))"
    proof
      assume "i < n"
      then show ?thesis using assms(1) same [of i] by (simp add: evaluated_def nth_append n_def S'_def)
    next
      assume "i = n"
      then show ?thesis using same [of n] by (simp add: n_def S'_def)
    qed
  qed
  have "map (entry envs (as @ [a])) (filter S' [0..<n]) = map (entry envs as) (filter S [0..<n])"
    by (intro map_cong filter_cong) (auto simp: entry_def nth_append n_def S'_def)
  then show "map (entry envs (as @ [a])) (filter S' [0..<Suc n]) =
      map (entry envs as) (filter S [0..<n]) @ (if S' n then [(name a, log_now (envs n))] else [])"
    by (simp add: entry_def n_def)
qed

lemma alerts_loop_entries:
  assumes "log_inv (length as + k) (alert_log db)"
    and "\<And>i. i < length as \<Longrightarrow> time_ok (chk_now (envs i) - cooldown_seconds (as ! i)) \<and> time_ok (log_now (envs i))"
  shows "\<exists>S. evaluated envs cfg row hn as (log_entries (alert_log db)) S \<and>
    log_inv k (alert_log (alerts_loop envs cfg row hn 0 as db)) \<and>
    log_entries (alert_log (alerts_loop envs cfg row hn 0 as db)) =
      log_entries (alert_log db) @ map (entry envs as) (filter S [0..<length as])"
  using assms
proof (induction as arbitrary: k rule: rev_induct)
  case Nil
  then show ?case by (simp add: evaluated_def)
next
  case (snoc a as)
  define n where "n = length as"
  define db' where "db' = alerts_loop envs cfg row hn 0 as db"
  have "time_ok (chk_now (envs i) - cooldown_seconds (as ! i)) \<and> time_ok (log_now (envs i))" if "i < length as" for i
    using snoc.prems(2) [of i] that by (simp add: nth_append)
  then obtain S where S: "evaluated envs cfg row hn as (log_entries (alert_log db)) S" "log_inv (Suc k) (alert_log db')"
    "log_entries (alert_log db') = log_entries (alert_log db) @ map (entry envs as) (filter S [0..<n])"
    using snoc.IH [of "Suc k"] snoc.prems(1) unfolding db'_def n_def by auto
  have t: "time_ok (chk_now (envs n) - cooldown_seconds a)" "time_ok (log_now (envs n))"
    using snoc.prems(2) [of n] by (simp_all add: n_def)
  have set': "set (log_entries (alert_log db')) =
      set (log_entries (alert_log db)) \<union> entry envs as ` {j. j < n \<and> S j}"
    unfolding S(3) by auto
  note step = alert_step_entries [OF S(2) t, folded cooled_def, of cfg row hn, unfolded set']
  define S' where "S' = S(n := due (envs n) cfg row hn a \<and> check_runs (envs n) \<and> record_runs (envs n) \<and>
      cooled (set (log_entries (alert_log db)) \<union> entry envs as ` {j. j < n \<and> S j}) a (chk_now (envs n)))"
  note S' = evaluated_snoc [OF S(1), of a, folded n_def, folded S'_def]
  define db'' where "db'' = snd (alert_step (envs n) cfg row hn a db')"
  have "log_entries (alert_log db'') = log_entries (alert_log db') @ (if S' n then [(name a, log_now (envs n))] else [])"
    unfolding db''_def step(2) by (auto simp: S'_def)
  then have "log_entries (alert_log db'') = log_entries (alert_log db) @ map (entry envs (as @ [a])) (filter S' [0..<Suc n])"
    unfolding S(3) S'(2) by simp
  moreover have "alerts_loop envs cfg row hn 0 (as @ [a]) db = db''" "length (as @ [a]) = Suc n"
    by (simp_all add: alerts_loop_snoc db'_def db''_def n_def)
  ultimately show ?case using S'(1) step(1) unfolding db''_def by metis
qed

lemma alerts_loop_log:
  "alert_log (alerts_loop envs cfg row hostname i as db) =
     fst (log_run log_blocked log_fire (log_prune days) (attempts envs cfg row hostname i as) (alert_log db))"
  by (induction as arbitrary: i db) (auto simp: alert_step_cases attempt_def split: prod.splits)

text \<open>C15: Evaluating the alerts records exactly those that are due and not cooling down. The samples are
  left alone, and the log, read as names and instants, grows by one entry, in the order of the
  configuration, for each alert whose metric has a value that meets its comparison, whose statements
  go through, which an action took, and for which neither the log nor an alert of this cycle has an
  entry of its name less than its cooldown before the check.\<close>

theorem alerts_evaluate_log:
  assumes "list_all log_ok (alert_log db)" and "length (alert_log db) + length (alerts cfg) < 2 ^ 31"
    and "\<And>i. i < length (alerts cfg) \<Longrightarrow>
      time_ok (chk_now (envs i) - cooldown_seconds (alerts cfg ! i)) \<and> time_ok (log_now (envs i))"
  shows "\<exists>S. (\<forall>i < length (alerts cfg). S i \<longleftrightarrow>
        due (envs i) cfg row (alert_hostname cfg hostname) (alerts cfg ! i) \<and> check_runs (envs i) \<and> record_runs (envs i) \<and>
        cooled (set (log_entries (alert_log db)) \<union> entry envs (alerts cfg) ` {j. j < i \<and> S j})
          (alerts cfg ! i) (chk_now (envs i))) \<and>
      log_entries (alert_log (alerts_evaluate envs hostname cfg row db)) =
        log_entries (alert_log db) @ map (entry envs (alerts cfg)) (filter S [0..<length (alerts cfg)]) \<and>
      list_all log_ok (alert_log (alerts_evaluate envs hostname cfg row db)) \<and>
      metrics_tbl (alerts_evaluate envs hostname cfg row db) = metrics_tbl db"
proof -
  have "log_inv (length (alerts cfg) + 0) (alert_log db)" using assms(1,2) by (simp add: log_inv_def)
  moreover have "alerts_evaluate envs hostname cfg row db =
      alerts_loop envs cfg row (alert_hostname cfg hostname) 0 (alerts cfg) db"
    by (simp add: alerts_evaluate_def)
  ultimately show ?thesis
    using alerts_loop_entries [of "alerts cfg" 0 db envs cfg row "alert_hostname cfg hostname"] assms(3)
    by (auto simp: evaluated_def log_inv_def)
qed

text \<open>C38: Pruning forgets a cooldown that is longer than the retention: an alert that is due and still
  quiet, because its last entry is less than its cooldown old, is delivered and recorded again in the
  same cycle if a prune has run whose retention the entry is older than.\<close>

theorem prune_forgets_cooldown:
  assumes "list_all log_ok (alert_log db)" and "length (alert_log db) + 1 < 2 ^ 31"
    and "(name a, t) \<in> set (log_entries (alert_log db))"
    and "\<forall>(m, u) \<in> set (log_entries (alert_log db)). m = name a \<longrightarrow> u \<le> t"
    and "chk_now env < t + cooldown_seconds a" and "t < now - days * 86400"
    and "time_ok (chk_now env - cooldown_seconds a)" and "time_ok (now - days * 86400)" and "time_ok (log_now env)"
    and "due env cfg row hn a" and "check_runs env" and "record_runs env"
    and "step_with_retry st1 = ST_DONE" and "step_with_retry st2 = ST_DONE"
  shows "let pruned = snd (db_prune st1 st2 now days db) in
    alert_step env cfg row hn a db = (False, db) \<and>
    alert_step env cfg row hn a pruned =
      (True, pruned\<lparr>alert_log := alert_log pruned @ [(name a, iso_of (log_now env))]\<rparr>)"
proof -
  define pruned where "pruned = snd (db_prune st1 st2 now days db)"
  have inv: "log_inv (Suc 0) (alert_log db)" using assms(1,2) by (simp add: log_inv_def)
  have "alert_log pruned = log_prune days (alert_log db) now"
    using assms(13,14)
    by (simp add: pruned_def log_prune_eq db_prune_def prune_metrics_def prune_alerts_def iso_cutoff_def Let_def)
  then have inv': "log_inv (Suc 0) (alert_log pruned)"
    and ent: "log_entries (alert_log pruned) = filter (\<lambda>(m, t). now - days * 86400 \<le> t) (log_entries (alert_log db))"
    using al.prune_inv [OF inv assms(8)] al.prune_entries [OF inv assms(8)] by simp_all
  have "\<not> fst (alert_step env cfg row hn a db)"
    unfolding alert_step_entries(3) [OF inv assms(7,9)] using assms(3,5) by force
  then have "alert_step env cfg row hn a db = (False, db)" by (auto simp: alert_step_cases split: if_splits)
  moreover have "fst (alert_step env cfg row hn a pruned)"
    unfolding alert_step_entries(3) [OF inv' assms(7,9)] ent using assms(4,6,10,11) by fastforce
  then have "alert_step env cfg row hn a pruned =
      (True, pruned\<lparr>alert_log := alert_log pruned @ [(name a, iso_of (log_now env))]\<rparr>)"
    using assms(12) by (auto simp: alert_step_cases log_fire_eq split: if_splits)
  ultimately show ?thesis unfolding pruned_def Let_def by blast
qed

subsection \<open>Replies and requests\<close>


lemma keep_head_take: "keep_head (take 15 s) buf = take 15 (s @ buf)"
  by (auto simp: keep_head_def HEAD_TEXT_def)

lemma read_head_concat: "read_head chunks = take 15 (concat chunks)"
proof -
  have "foldl keep_head (take 15 s) chunks = take 15 (s @ concat chunks)" for s
  proof (induction chunks arbitrary: s)
    case (Cons c cs)
    show ?case by (simp only: foldl_Cons keep_head_take Cons.IH concat.simps append_assoc)
  qed simp
  from this [of "[]"] show ?thesis by (simp add: read_head_def)
qed

text \<open>C28: The verdict on a webhook does not depend on how the reply arrives: in whatever pieces it is
  read, a reply that begins with a status line \<open>HTTP/version code\<close> counts as delivered exactly when
  the code is 2 and two digits.\<close>

theorem reply_verdict:
  assumes "concat (replies env) = ''HTTP/'' @ v @ '' '' @ [c1, c2, c3] @ rest" and "length v \<le> 6"
    and "list_all (\<lambda>c. c \<noteq> CHR '' '' \<and> c \<noteq> CHR 0x00) v"
  shows "exchange env False \<longleftrightarrow> c1 = CHR ''2'' \<and> c_isdigit c2 \<and> c_isdigit c3"
proof -
  have v: "\<And>c. c \<in> set v \<Longrightarrow> c \<noteq> CHR '' '' \<and> c \<noteq> CHR 0x00" using assms(3) by (simp add: list_all_iff)
  define p where "p = ''HTTP/'' @ v"
  have p: "\<And>c. c \<in> set p \<Longrightarrow> c \<noteq> CHR '' '' \<and> c \<noteq> CHR 0x00" using v by (auto simp: p_def)
  define q where "q = take (15 - length p) (CHR '' '' # c1 # c2 # c3 # rest)"
  have "length p \<le> 11" using assms(2) by (simp add: p_def)
  then have n: "15 - length p = Suc (Suc (Suc (Suc (11 - length p))))" by simp
  have q: "q = CHR '' '' # c1 # c2 # c3 # take (11 - length p) rest" by (simp add: q_def n)
  have "read_head (replies env) = p @ q"
    using \<open>length p \<le> 11\<close> assms(1) by (simp add: read_head_concat q_def p_def)
  moreover have "c_string (p @ q) = p @ CHR '' '' # takeWhile (\<lambda>c. c \<noteq> CHR 0x00) (c1 # c2 # c3 # take (11 - length p) rest)"
    using p by (simp add: c_string_def q takeWhile_append2)
  moreover have "starts_with ''HTTP/'' (p @ s)" for s by (simp add: starts_with_def p_def)
  moreover have "dropWhile (\<lambda>c. c \<noteq> CHR '' '') (p @ CHR '' '' # s) = CHR '' '' # s" for s
    using p by (simp add: dropWhile_append2)
  ultimately show ?thesis
    by (auto simp: exchange_def reply_ok_def status_ok_def c_isdigit_def)
qed

definition sample_net :: net_env where
  "sample_net = \<lparr>system_store = None, anchors_in = (\<lambda>_. - 1), addresses = Some [(True, Some Conn_now)],
     send_in_time = (\<lambda>_. True), send_takes = (\<lambda>_ n. int n), tls_written = False,
     replies = [''HTTP'', ''/1.1 20'', ''4 No Content'']\<rparr>"

theorem reply_verdict_witness: "exchange sample_net False"
  using reply_verdict [of sample_net "''1.1''" "CHR ''2''" "CHR ''0''" "CHR ''4''" "'' No Content''"]
  by (simp add: sample_net_def c_isdigit_def)

lemma body_members:
  "webhook_body en em x thr op ts eh =
     ''{'' @ join '','' [member ''alert'' (quote en), member ''metric'' (quote em), member ''value'' (fmt_g 6 x),
       member ''threshold'' (fmt_g 6 thr), member ''operator'' (quote op), member ''timestamp'' (quote ts),
       member ''hostname'' (quote eh)] @ ''}''"
  by (simp add: webhook_body_def member_def)

lemma valid_op_body: "valid_op op \<Longrightarrow> json_body op"
  by (auto simp: valid_op_def)

text \<open>C29: What a webhook is sent is a request with a JSON body: the body is one JSON object, with the
  name, the metric and the host escaped, its length is the one the header announces, and the whole
  request fits its 1024 bytes. The operator and the timestamp are written as they are, because the
  configuration and the database only hold plain ones, and the two numbers are finite.\<close>

theorem webhook_request_json:
  assumes "webhook_request u a x ts hostname = Some req"
    and "isfinite x" and "isfinite (threshold a)" and "valid_op (operator a)" and "plain ts"
  shows "\<exists>body. req = webhook_head u (length body) @ body \<and> json_value body \<and>
    body = webhook_body (escaped (name a)) (escaped (metric a)) x (threshold a) (operator a) ts (escaped hostname) \<and>
    length req < 1024"
proof -
  define body where "body =
    webhook_body (escaped (name a)) (escaped (metric a)) x (threshold a) (operator a) ts (escaped hostname)"
  have "req = webhook_head u (length body) @ body \<and> length req < 1024"
    using assms(1)
    by (auto simp: webhook_request_def json_escape_eq fit_printf_def body_def split: if_splits option.splits)
  moreover have "json_value body"
    unfolding body_def body_members using assms(2-5)
    by (intro json_object_members)
      (auto intro!: json_memberI json_value.string json_fmt_g_finite simp: valid_op_body plain_body)
  ultimately show ?thesis by (auto simp: body_def)
qed

lemma length_webhook_head:
  assumes "n < 10 ^ 5"
  shows "length (webhook_head u n) \<le> length (path u) + length (host u) + length (port u) + 130"
  using length_show_nat_le [of n 5] assms by (simp add: webhook_head_def Let_def CRLF_def)

lemma webhook_request_some:
  assumes "length (escaped (name a)) < 256" and "length (escaped (metric a)) < 256"
    and "length (escaped hostname) < 512"
    and "length (path u) + length (host u) + length (port u) + length (webhook_body (escaped (name a))
      (escaped (metric a)) x (threshold a) (operator a) ts (escaped hostname)) \<le> 880"
  shows "webhook_request u a x ts hostname \<noteq> None"
proof -
  define body where "body =
    webhook_body (escaped (name a)) (escaped (metric a)) x (threshold a) (operator a) ts (escaped hostname)"
  have "length (webhook_head u (length body) @ body) < 1024"
    using assms(4) length_webhook_head [of "length body" u] unfolding body_def [symmetric] by simp
  then show ?thesis
    using assms by (simp add: webhook_request_def json_escape_eq fit_printf_def flip: body_def)
qed

definition sample_alert :: alert_cfg_t where
  "sample_alert = \<lparr>name = ''cpu'', metric = ''load_1m'', operator = ''>'', threshold = Fin 4,
     webhook = ''http://hooks.example/x'', command = '''', cooldown_seconds = 300\<rparr>"

theorem webhook_request_json_witness:
  "\<exists>body. webhook_request (Url False ''hooks.example'' ''80'' ''/x'') sample_alert (Fin 5) ''2026-01-01T00:00:00Z'' ''moni'' =
     Some (webhook_head (Url False ''hooks.example'' ''80'' ''/x'') (length body) @ body) \<and> json_value body"
proof -
  define req where "req = webhook_request (Url False ''hooks.example'' ''80'' ''/x'') sample_alert (Fin 5)
    ''2026-01-01T00:00:00Z'' ''moni''"
  have e: "fmt_g 6 (Fin 5) = ''5''" "fmt_g 6 (Fin 4) = ''4''" by (simp_all add: fmt_eval)
  have "req \<noteq> None"
    unfolding req_def by (rule webhook_request_some) (simp_all add: sample_alert_def escape_char_plain webhook_body_def e)
  then obtain r where r: "req = Some r" by auto
  from webhook_request_json [OF r [unfolded req_def]] show ?thesis
    unfolding req_def [symmetric] r by (auto simp: sample_alert_def valid_op_def)
qed

text \<open>Every metric the configuration accepts can be read from a row: all 26 names have a value
  exactly when every group of the row is valid, and a name that is not one of them never has one.\<close>

lemma alert_metrics_readable:
  "list_all (\<lambda>m. snd (get_metric_value row m)) METRIC_NAMES =
     (r_cpu_valid row \<and> r_temp_valid row \<and> r_net_valid row \<and> r_swap_valid row \<and> r_swap_io_valid row) \<and>
   (snd (get_metric_value row m) = (snd (get_metric_value row m) \<and> in_list m METRIC_NAMES))"
  by (auto simp: get_metric_value_def METRIC_NAMES_def in_list_def)

text \<open>C37: A webhook address is taken apart as it was written: scheme, host, port and path of
  \<open>http[s]://host[:port]/path\<close> come back, with the default port of the scheme when there is none, as
  long as each fits its buffer.\<close>

theorem parse_url_parts:
  assumes "list_all (\<lambda>c. c \<noteq> CHR ''/'' \<and> c \<noteq> CHR '':'') h" and "length h < hsz"
    and "case p of None \<Rightarrow> True | Some q \<Rightarrow> list_all (\<lambda>c. c \<noteq> CHR ''/'') q \<and> length q < psz"
    and "3 < psz" and "Suc (length pa) < pasz"
  shows "parse_url ((if tls then ''https://'' else ''http://'') @ h @ (case p of None \<Rightarrow> [] | Some q \<Rightarrow> '':'' @ q) @ ''/'' @ pa)
      hsz psz pasz =
    Some (Url tls h (case p of None \<Rightarrow> if tls then ''443'' else ''80'' | Some q \<Rightarrow> q) (''/'' @ pa))"
proof -
  define auth where "auth = h @ (case p of None \<Rightarrow> [] | Some q \<Rightarrow> '':'' @ q)"
  have h: "\<And>c. c \<in> set h \<Longrightarrow> c \<noteq> CHR ''/'' \<and> c \<noteq> CHR '':''" using assms(1) by (simp add: list_all_iff)
  have "\<And>c. c \<in> set auth \<Longrightarrow> c \<noteq> CHR ''/''"
    using h assms(3) by (auto simp: auth_def list_all_iff split: option.splits)
  then have slash: "takeWhile (\<lambda>c. c \<noteq> CHR ''/'') (auth @ CHR ''/'' # pa) = auth"
    "dropWhile (\<lambda>c. c \<noteq> CHR ''/'') (auth @ CHR ''/'' # pa) = CHR ''/'' # pa"
    by (simp_all add: takeWhile_append2 dropWhile_append2)
  have colon: "takeWhile (\<lambda>c. c \<noteq> CHR '':'') auth = h \<and>
      dropWhile (\<lambda>c. c \<noteq> CHR '':'') auth = (case p of None \<Rightarrow> [] | Some q \<Rightarrow> CHR '':'' # q)"
  proof (cases p)
    case None
    then show ?thesis using h by (simp add: auth_def takeWhile_all dropWhile_all)
  next
    case (Some q)
    then show ?thesis using h by (simp add: auth_def takeWhile_append2 dropWhile_append2)
  qed
  have "split_url tls (auth @ CHR ''/'' # pa) =
      (h, case p of None \<Rightarrow> if tls then ''443'' else ''80'' | Some q \<Rightarrow> q, ''/'' @ pa)"
    unfolding split_url_def Let_def slash colon [THEN conjunct1] colon [THEN conjunct2] by (simp split: option.splits)
  then have "fit_url tls (auth @ CHR ''/'' # pa) hsz psz pasz =
      Some (Url tls h (case p of None \<Rightarrow> if tls then ''443'' else ''80'' | Some q \<Rightarrow> q) (''/'' @ pa))"
    using assms(2-5) by (auto simp: fit_url_def fit_printf_def split: option.splits)
  then show ?thesis by (cases tls) (simp_all add: parse_url_def starts_with_def auth_def)
qed

theorem parse_url_parts_witness:
  "parse_url ''https://hooks.example:8443/a/b'' 256 8 512 = Some (Url True ''hooks.example'' ''8443'' ''/a/b'')"
  using parse_url_parts [where h = "''hooks.example''" and hsz = 256 and p = "Some ''8443''" and psz = 8
      and pa = "''a/b''" and pasz = 512 and tls = True] by simp

text \<open>Two alerts that are due, one of them still cooling down.\<close>

definition beep :: "string \<Rightarrow> int \<Rightarrow> alert_cfg_t" where
  "beep n cooldown = \<lparr>name = n, metric = ''load_1m'', operator = ''>'', threshold = Fin 4,
     webhook = '''', command = ''beep'', cooldown_seconds = cooldown\<rparr>"

definition beep_env :: alert_env where
  "beep_env = \<lparr>chk_step = (\<lambda>_. ST_ROW), chk_now = 400000000, log_step = (\<lambda>_. ST_DONE), log_now = 400000000,
     net = sample_net, sys = (\<lambda>_ _. 0)\<rparr>"

lemma beep_due: "due beep_env cfg (row\<lparr>r_load_1m := Fin 5\<rparr>) hn (beep n cooldown)"
  by (simp add: due_def beep_def beep_env_def get_metric_value_def comparisons_def deliver_def run_command_def Let_def)

lemma beep_runs: "check_runs beep_env" "record_runs beep_env"
  by (simp_all add: check_runs_def record_runs_def beep_env_def step_with_retry_eq)

lemma log_entries_Cons: "time_ok t \<Longrightarrow> log_entries ((n, iso_of t) # l) = (n, t) # log_entries l"
  by (simp add: log_entries_def iso.parse_fmt)

theorem alerts_evaluate_log_witness:
  "log_entries (alert_log (alerts_evaluate (\<lambda>_. beep_env) None (config_defaults\<lparr>alerts := [beep ''a'' 300, beep ''b'' 300]\<rparr>)
      (undefined\<lparr>r_load_1m := Fin 5\<rparr>) \<lparr>metrics_tbl = [], alert_log = [(''b'', iso_of 399999900)]\<rparr>)) =
    [(''b'', 399999900), (''a'', 400000000)]"
proof -
  define db where "db = \<lparr>metrics_tbl = [], alert_log = [(''b'', iso_of 399999900)]\<rparr>"
  define cfg where "cfg = config_defaults\<lparr>alerts := [beep ''a'' 300, beep ''b'' 300]\<rparr>"
  have old: "log_entries (alert_log db) = [(''b'', 399999900)]"
    by (simp add: db_def log_entries_Cons time_ok_def) (simp add: log_entries_def)
  have ok: "list_all log_ok (alert_log db)" "length (alert_log db) + length (alerts cfg) < 2 ^ 31"
    by (simp_all add: db_def cfg_def log_okI time_ok_def)
  have "time_ok (chk_now beep_env - cooldown_seconds (alerts cfg ! i)) \<and> time_ok (log_now beep_env)"
    if "i < length (alerts cfg)" for i
    using that by (cases i) (auto simp: cfg_def beep_def beep_env_def time_ok_def)
  then obtain S where S: "\<forall>i < length (alerts cfg). S i \<longleftrightarrow>
        due beep_env cfg (undefined\<lparr>r_load_1m := Fin 5\<rparr>) (alert_hostname cfg None) (alerts cfg ! i) \<and> check_runs beep_env \<and>
        record_runs beep_env \<and>
        cooled (set (log_entries (alert_log db)) \<union> entry (\<lambda>_. beep_env) (alerts cfg) ` {j. j < i \<and> S j})
          (alerts cfg ! i) (chk_now beep_env)"
    and log: "log_entries (alert_log (alerts_evaluate (\<lambda>_. beep_env) None cfg (undefined\<lparr>r_load_1m := Fin 5\<rparr>) db)) =
        log_entries (alert_log db) @ map (entry (\<lambda>_. beep_env) (alerts cfg)) (filter S [0..<length (alerts cfg)])"
    using alerts_evaluate_log [of db cfg "\<lambda>_. beep_env", OF ok] by blast
  have "S 0" using S [rule_format, of 0] by (simp add: cfg_def beep_due beep_runs old cooled_def) (simp add: beep_def)
  moreover have "\<not> S 1"
    using S [rule_format, of 1] by (simp add: cfg_def beep_due beep_runs old cooled_def) (simp add: beep_def beep_env_def)
  ultimately have "filter S [0..<length (alerts cfg)] = [0]" by (simp add: cfg_def upt_rec)
  then show ?thesis
    using log old by (simp add: entry_def cfg_def db_def) (simp add: beep_def beep_env_def)
qed

theorem prune_forgets_cooldown_witness:
  "let db = \<lparr>metrics_tbl = [], alert_log = [(''a'', iso_of 399900000)]\<rparr>;
       pruned = snd (db_prune (\<lambda>_. ST_DONE) (\<lambda>_. ST_DONE) 400000000 1 db)
   in alert_step beep_env config_defaults (undefined\<lparr>r_load_1m := Fin 5\<rparr>) '''' (beep ''a'' 172800) db = (False, db) \<and>
      alert_step beep_env config_defaults (undefined\<lparr>r_load_1m := Fin 5\<rparr>) '''' (beep ''a'' 172800) pruned =
        (True, pruned\<lparr>alert_log := alert_log pruned @ [(''a'', iso_of 400000000)]\<rparr>)"
proof -
  define db where "db = \<lparr>metrics_tbl = [], alert_log = [(''a'', iso_of 399900000)]\<rparr>"
  define a where "a = beep ''a'' 172800"
  have a: "name a = ''a''" "cooldown_seconds a = 172800" by (simp_all add: a_def beep_def)
  have ent: "log_entries (alert_log db) = [(''a'', 399900000)]"
    by (simp add: db_def log_entries_Cons time_ok_def) (simp add: log_entries_def)
  have env: "chk_now beep_env = 400000000" "log_now beep_env = 400000000" by (simp_all add: beep_env_def)
  have ok: "list_all log_ok (alert_log db)" "length (alert_log db) + 1 < 2 ^ 31"
    by (simp_all add: db_def log_okI time_ok_def)
  have "let pruned = snd (db_prune (\<lambda>_. ST_DONE) (\<lambda>_. ST_DONE) 400000000 1 db) in
    alert_step beep_env config_defaults (undefined\<lparr>r_load_1m := Fin 5\<rparr>) '''' a db = (False, db) \<and>
    alert_step beep_env config_defaults (undefined\<lparr>r_load_1m := Fin 5\<rparr>) '''' a pruned =
      (True, pruned\<lparr>alert_log := alert_log pruned @ [(name a, iso_of (log_now beep_env))]\<rparr>)"
    by (rule prune_forgets_cooldown [OF ok, where t = 399900000])
      (simp_all add: ent a env time_ok_def beep_due [of _ _ _ "''a''" 172800, folded a_def] beep_runs step_with_retry_eq)
  then show ?thesis unfolding env a unfolding db_def a_def Let_def .
qed

end
