(* ===== verification/MainProps.thy ===== *)
theory MainProps
  imports MainProg ConfigProps AlertProps "HOL-Library.Sublist"
begin

text \<open>
  The daemon as a whole: how long samples are kept, the deadlines of its loop, and what holds of the
  database over any run. A run of the loop is shown to be a run of the database (\<open>db_run\<close> of Db), so
  its invariant carries over, and its fires are those of the cooldown log (\<open>al\<close> of AlertProps) on the
  operations the run asks for, in the order of the clock.
\<close>

subsection \<open>Retention\<close>

lemma strtol_suffix: "\<exists>p. s = p @ snd (strtol lmax s)"
proof -
  obtain neg u where u: "sign_split (dropWhile c_isspace s) = (neg, u)" by (cases "sign_split (dropWhile c_isspace s)")
  have "\<exists>p. dropWhile c_isspace s = p @ u"
    using u by (cases "dropWhile c_isspace s") (auto simp: sign_split_def split: if_splits)
  then obtain p where "s = takeWhile c_isspace s @ p @ takeWhile c_isdigit u @ dropWhile c_isdigit u"
    by (metis takeWhile_dropWhile_id)
  then have "\<exists>q. s = q @ dropWhile c_isdigit u" by (metis append_assoc)
  then show ?thesis using u by (cases "takeWhile c_isdigit u = []") (simp_all add: strtol_def Let_def)
qed

lemma range_covered:
  assumes "valid_range lmax s" and "range_in_bounds lmax s"
  shows "range_seconds_of lmax s \<le> range_to_days lmax s * 86400 \<and> 1 \<le> range_to_days lmax s \<and> range_to_days lmax s \<le> 3653"
proof -
  obtain n rest where st: "strtol lmax s = (n, rest)" by (cases "strtol lmax s")
  obtain c where rest: "rest = [c]" and n: "0 < n" and c: "c \<in> set ''mhd''"
    using assms(1) st by (auto simp: valid_range_def length_Suc_conv)
  have "\<exists>p. s = p @ rest" using strtol_suffix [of s lmax] st by simp
  then have lst: "last s = c" using rest by auto
  have "n \<le> 3653" using assms(2) st lst c by (auto simp: range_in_bounds_def Let_def split: if_splits)
  then have "to_signed 32 n = n" using n by (intro to_signed_id) simp_all
  then show ?thesis
    using n c lst st rest assms(2)
    by (auto simp: range_to_days_def range_seconds_of_def range_in_bounds_def Let_def c_div_nonneg split: if_splits)
qed

lemma longest_days_ge:
  "mx \<le> foldl (\<lambda>mx r. if f r > mx then f r else mx) mx rs \<and>
   (\<forall>r \<in> set rs. f r \<le> foldl (\<lambda>mx r. if f r > mx then f r else mx) (mx::int) rs) \<and>
   (foldl (\<lambda>mx r. if f r > mx then f r else mx) mx rs = mx \<or> (\<exists>r \<in> set rs. foldl (\<lambda>mx r. if f r > mx then f r else mx) mx rs = f r))"
proof (induction rs arbitrary: mx)
  case (Cons r rs)
  show ?case using Cons.IH [of "f r"] Cons.IH [of mx] by auto
qed simp

lemma range_kept_covered:
  assumes "config_ok lmax cfg" and "r \<in> set (ranges cfg)"
  shows "valid_range lmax r" and "range_in_bounds lmax r" and "length r < 8"
  using assms by (auto simp: config_ok_def ranges_ok_def list_all_iff range_kept_def Let_def split: if_splits)

lemma retention_days_bounds:
  assumes "config_ok lmax cfg"
  shows "1 \<le> retention_days lmax cfg" and "retention_days lmax cfg \<le> 3653"
    and "r \<in> set (ranges cfg) \<Longrightarrow> range_to_days lmax r \<le> retention_days lmax cfg"
proof -
  note b = range_covered [OF range_kept_covered(1,2) [OF assms]]
  note l = longest_days_ge [of 0 "range_to_days lmax" "ranges cfg"]
  show "1 \<le> retention_days lmax cfg" "retention_days lmax cfg \<le> 3653"
    using b l by (auto simp: retention_days_def longest_days_def)
  show "r \<in> set (ranges cfg) \<Longrightarrow> range_to_days lmax r \<le> retention_days lmax cfg"
    using b [of r] l by (auto simp: retention_days_def longest_days_def)
qed

text \<open>C7: The samples of every range the dashboard can ask for are still there: whatever the query
  string of \<open>/api/metrics\<close> says, the window it is answered with lies within the days that pruning
  keeps, under every valid configuration; these days are between 1 and 3653.\<close>

theorem retention_covers_ranges:
  assumes "config_ok lmax cfg"
  shows "range_seconds_of lmax (pick_range (ranges cfg) v) \<le> retention_days lmax cfg * 86400 \<and>
    1 \<le> retention_days lmax cfg \<and> retention_days lmax cfg \<le> 3653"
proof -
  have ne: "ranges cfg \<noteq> []" using assms by (simp add: config_ok_def ranges_ok_def)
  have "pick_range (ranges cfg) v \<in> set (ranges cfg)"
  proof (cases "in_list v (ranges cfg)")
    case True
    then show ?thesis by (auto simp: pick_range_def in_list_def list_ex_iff)
  next
    case False
    obtain r rs where r: "ranges cfg = r # rs" using ne by (cases "ranges cfg") simp_all
    then have "length r < 8" using range_kept_covered(3) [OF assms, of r] by simp
    then show ?thesis using False r by (simp add: pick_range_def snprintf_fits)
  qed
  then show ?thesis
    using range_covered [OF range_kept_covered(1,2) [OF assms]] retention_days_bounds [OF assms] by fastforce
qed

theorem retention_covers_ranges_witness:
  "range_seconds_of (2 ^ 63 - 1) (pick_range (ranges config_defaults) ''1h'') \<le> retention_days (2 ^ 63 - 1) config_defaults * 86400"
  using retention_covers_ranges [OF config_defaults_ok] by blast

subsection \<open>Deadlines\<close>

definition running :: "wake list \<Rightarrow> wake list" where
  "running ws = takeWhile (\<lambda>w. \<not> stop_before w \<and> \<not> stop_after w) ws"

lemma serve_turn_deadline:
  "deadline (fst (serve_turn lmax cfg days d w s)) =
     (if stop_before w \<or> stop_after w \<or> slept w \<noteq> 0 then deadline s else deadline s + interval_seconds cfg)"
  by (simp add: serve_turn_def Let_def split: prod.split)

lemma serve_turn_goes_on:
  "snd (serve_turn lmax cfg days d w s) \<longleftrightarrow> \<not> stop_before w \<and> \<not> stop_after w"
  by (simp add: serve_turn_def Let_def split: prod.split)

lemma serve_loop_Cons:
  "serve_loop lmax cfg days d (w # ws) s =
     (if stop_before w \<or> stop_after w then fst (serve_turn lmax cfg days d w s)
      else serve_loop lmax cfg days d ws (fst (serve_turn lmax cfg days d w s)))"
proof -
  obtain s' g where "serve_turn lmax cfg days d w s = (s', g)" by fastforce
  then show ?thesis using serve_turn_goes_on [of lmax cfg days d w s] by simp
qed

lemma serve_loop_deadline:
  "deadline (serve_loop lmax cfg days d ws s) =
     deadline s + interval_seconds cfg * int (length (filter (\<lambda>w. slept w = 0) (running ws)))"
proof (induction ws arbitrary: s)
  case (Cons w ws)
  show ?case
    unfolding serve_loop_Cons using Cons.IH
    by (simp add: serve_turn_deadline running_def distrib_left)
qed (simp add: running_def)

text \<open>The loop of the daemon does not drift: its deadlines are the start plus whole intervals, one
  per collection that was due, however long the collections take, whatever they return and however
  often a signal cuts a sleep short.\<close>

lemma serve_no_drift:
  "deadline (serve_loop lmax cfg days d ws (serve_start h e cfg db)) =
     mono_start e + interval_seconds cfg * (1 + int (length (filter (\<lambda>w. slept w = 0) (running ws))))"
  by (simp add: serve_loop_deadline serve_start_def distrib_left split: prod.split)

subsection \<open>The clock\<close>

text \<open>The instants at which a cycle reads the clock, in order, with \<open>n\<close> alerts.\<close>

fun alert_clock :: "(nat \<Rightarrow> alert_env) \<Rightarrow> nat \<Rightarrow> nat \<Rightarrow> int list" where
  "alert_clock envs i 0 = []"
| "alert_clock envs i (Suc n) = chk_now (envs i) # log_now (envs i) # alert_clock envs (i + 1) n"

definition cycle_clock :: "nat \<Rightarrow> cycle_env \<Rightarrow> int list" where
  "cycle_clock n c = [ins_now c, cons_now c, prune_now c] @ alert_clock (alert_envs c) 0 n"

definition serve_clock :: "nat \<Rightarrow> wake list \<Rightarrow> int list" where
  "serve_clock n ws = concat (map (\<lambda>w. cycle_clock n (cyc w)) ws)"

definition clock_ok :: "int list \<Rightarrow> bool" where
  "clock_ok ts = (sorted ts \<and> list_all (\<lambda>t. 3653 * 86400 \<le> t \<and> time_ok t) ts)"

lemma clock_ok_Cons: "clock_ok (t # ts) \<Longrightarrow> clock_ok ts"
  by (simp add: clock_ok_def)

lemma clock_ok_last: "clock_ok (t # us @ vs) \<Longrightarrow> clock_ok (last (t # us) # vs)"
  by (induction us arbitrary: t) (auto simp: clock_ok_def)

subsection \<open>A run of the daemon is a run of the database\<close>

lemma db_run_to:
  "db_run d t0 db0 t db \<Longrightarrow> clock_ok (t # us) \<Longrightarrow> u \<in> set (t # us) \<Longrightarrow> db_run d t0 db0 u db"
  by (rule run_tick) (auto simp: clock_ok_def list_all_iff)

lemma alerts_loop_run:
  assumes "db_run d t0 db0 t db" and "clock_ok (t # alert_clock envs i (length as))"
  shows "db_run d t0 db0 (last (t # alert_clock envs i (length as))) (alerts_loop envs cfg row hn i as db)"
  using assms
proof (induction as arbitrary: t i db)
  case (Cons a as)
  define t' where "t' = log_now (envs i)"
  have t': "db_run d t0 db0 t' db"
    by (rule db_run_to [OF Cons.prems]) (simp add: t'_def)
  have step: "db_run d t0 db0 t' (snd (alert_step (envs i) cfg row hn a db))"
    using t' run_fire [OF t', of "log_step (envs i)" "name a"]
    by (simp add: alert_step_def t'_def split: prod.split)
  have c: "clock_ok (t' # alert_clock envs (i + 1) (length as))"
    using Cons.prems(2) by (simp add: clock_ok_def t'_def)
  show ?case using Cons.IH [OF step c] by (simp add: t'_def)
qed simp

lemma store_cycle_run:
  assumes "db_run d t0 db0 t db" and "clock_ok (t # cycle_clock (length (alerts cfg)) c)"
  shows "db_run d t0 db0 (last (t # cycle_clock (length (alerts cfg)) c)) (snd (store_cycle c cfg days d m db))"
proof -
  define n where "n = length (alerts cfg)"
  define db1 where "db1 = snd (db_insert (ins_step c) (ins_now c) d m db)"
  define db3 where "db3 = keep_house c days d db1"
  define final where "final = last (prune_now c # alert_clock (alert_envs c) 0 n)"
  have c: "clock_ok (t # ins_now c # cons_now c # prune_now c # alert_clock (alert_envs c) 0 n)"
    using assms(2) by (simp add: cycle_clock_def n_def)
  have 1: "db_run d t0 db0 (ins_now c) db1"
    unfolding db1_def by (rule run_insert, rule db_run_to [OF assms(1) c]) simp
  note c1 = clock_ok_Cons [OF c]
  have "db_run d t0 db0 (cons_now c) (snd (db_consolidate (cons_ok c) (cons_now c) d db1))"
    by (rule run_consolidate, rule db_run_to [OF 1 c1]) simp
  then have 3: "db_run d t0 db0 (prune_now c) db3"
    unfolding db3_def keep_house_def by (intro run_prune, rule db_run_to [OF _ clock_ok_Cons [OF c1]]) simp
  note c3 = clock_ok_Cons [OF clock_ok_Cons [OF c1]]
  have 4: "db_run d t0 db0 final db3"
    unfolding final_def by (rule db_run_to [OF 3 c3]) (rule last_in_set, simp)
  have 5: "db_run d t0 db0 final (alerts_loop (alert_envs c) cfg r hn 0 (alerts cfg) db3)" for r hn
    using alerts_loop_run [OF 3, of "alert_envs c" 0 "alerts cfg"] c3 by (simp add: final_def n_def)
  have "db_run d t0 db0 final (watch c cfg db3)"
    using 4 5 by (simp add: watch_def alerts_evaluate_def split: prod.split option.split)
  moreover have "db_run d t0 db0 final db1"
    unfolding final_def by (rule db_run_to [OF 1 c1]) (use last_in_set [of "prune_now c # alert_clock (alert_envs c) 0 n"] in auto)
  moreover have "last (t # cycle_clock n c) = final" by (simp add: cycle_clock_def final_def)
  ultimately show ?thesis
    by (auto simp: store_cycle_def db1_def db3_def db_insert_def n_def split: prod.split if_splits)
qed

lemma serve_turn_run:
  assumes "db_run d t0 db0 t (db_now s)" and "clock_ok (t # cycle_clock (length (alerts cfg)) (cyc w))"
  shows "db_run d t0 db0 (last (t # cycle_clock (length (alerts cfg)) (cyc w))) (db_now (fst (serve_turn lmax cfg days d w s)))"
proof -
  define e where "e = last (t # cycle_clock (length (alerts cfg)) (cyc w))"
  have "db_run d t0 db0 e (db_now s)"
    unfolding e_def by (rule db_run_to [OF assms last_in_set]) simp
  then show ?thesis
    using store_cycle_run [OF assms] unfolding e_def [symmetric]
    by (auto simp: serve_turn_def Let_def split: prod.split)
qed

lemma serve_loop_run:
  assumes "db_run d t0 db0 t (db_now s)" and "clock_ok (t # serve_clock (length (alerts cfg)) ws)"
  shows "\<exists>t'. db_run d t0 db0 t' (db_now (serve_loop lmax cfg days d ws s)) \<and> t' \<in> set (t # serve_clock (length (alerts cfg)) ws)"
  using assms
proof (induction ws arbitrary: t s)
  case (Cons w ws)
  define cl where "cl = cycle_clock (length (alerts cfg)) (cyc w)"
  have c: "clock_ok (t # cl @ serve_clock (length (alerts cfg)) ws)"
    using Cons.prems(2) by (simp add: serve_clock_def cl_def)
  then have "clock_ok (t # cl)" by (auto simp: clock_ok_def sorted_append)
  then have run: "db_run d t0 db0 (last (t # cl)) (db_now (fst (serve_turn lmax cfg days d w s)))"
    unfolding cl_def by (rule serve_turn_run [OF Cons.prems(1)])
  have mem: "last (t # cl) \<in> set (t # cl)" by (rule last_in_set) simp
  have "\<exists>t'. db_run d t0 db0 t' (db_now (serve_loop lmax cfg days d ws (fst (serve_turn lmax cfg days d w s)))) \<and>
      t' \<in> set (last (t # cl) # serve_clock (length (alerts cfg)) ws)"
    by (rule Cons.IH [OF run clock_ok_last [OF c]])
  moreover have "set (t # serve_clock (length (alerts cfg)) (w # ws)) = set (t # cl) \<union> set (serve_clock (length (alerts cfg)) ws)"
    by (auto simp: serve_clock_def cl_def)
  ultimately show ?case unfolding serve_loop_Cons using run mem by auto
qed auto

subsection \<open>The tiers after a run of the daemon\<close>

lemma db_open_missing:
  assumes "db_open res Missing interval = (rc, d, p)"
  shows "stored p = empty_db \<and> (rc = 0 \<longrightarrow> interval_sec d = interval \<and> (\<exists>f. p = File f))"
  using assms
  by (auto simp: db_open_def create_private_def open_new_def prepare_statements_def stored_def stamp_def
      create_schema_def set_wal_def empty_file_def Let_def split: if_splits)

lemma stored_store: "stored (store db (File f)) = db"
  by (simp add: stored_def store_def)

lemma serve_tables:
  assumes "open_config h arg = Some cfg" and "fl (db_path cfg) = Missing"
    and "clock_ok (serve_clock (length (alerts cfg)) (wakes e))"
  shows "\<exists>d t t0. interval_sec d = interval_seconds cfg \<and>
    db_run d t0 empty_db t (stored (snd (run_serve h e arg fl) (db_path cfg)))"
proof -
  obtain rc d p where o: "db_open (open_env h) Missing (interval_seconds cfg) = (rc, d, p)"
    by (cases "db_open (open_env h) Missing (interval_seconds cfg)")
  note p = db_open_missing [OF o]
  define cl where "cl = serve_clock (length (alerts cfg)) (wakes e)"
  define t0 where "t0 = (case cl of [] \<Rightarrow> 3653 * 86400 | t # _ \<Rightarrow> t)"
  have t0: "time_ok t0" "clock_ok (t0 # cl)"
    using assms(3) by (auto simp: t0_def cl_def [symmetric] clock_ok_def time_ok_def split: list.split)
  have none: "db_run d' t0 empty_db t0 (stored p)" for d' using p run_start [OF t0(1)] by simp
  define final where "final = serve_loop (long_max h) cfg (retention_days (long_max h) cfg) d (wakes e)
      (serve_start h e cfg (stored p))"
  have "db_now (serve_start h e cfg (stored p)) = stored p" by (simp add: serve_start_def split: prod.split)
  then obtain t where run: "db_run d t0 empty_db t (db_now final)"
    using serve_loop_run [of d t0 empty_db t0 "serve_start h e cfg (stored p)" cfg "wakes e"
        "long_max h" "retention_days (long_max h) cfg"] none t0(2)
    unfolding final_def cl_def by auto
  have "snd (run_serve h e arg fl) (db_path cfg) \<in> {p, store (db_now final) p}"
    using assms(1,2) o by (simp add: run_serve_def Let_def final_def split: prod.split)
  moreover have "snd (run_serve h e arg fl) (db_path cfg) = p" if "rc \<noteq> 0"
    using assms(1,2) o that by (simp add: run_serve_def Let_def)
  moreover have "stored (store (db_now final) p) = db_now final" if "rc = 0"
    using p that by (auto simp: stored_store)
  ultimately have "stored (snd (run_serve h e arg fl) (db_path cfg)) = stored p \<or>
      rc = 0 \<and> stored (snd (run_serve h e arg fl) (db_path cfg)) = db_now final" by (cases "rc = 0") auto
  then show ?thesis
  proof
    assume "stored (snd (run_serve h e arg fl) (db_path cfg)) = stored p"
    then show ?thesis using none [of "d\<lparr>interval_sec := interval_seconds cfg\<rparr>"]
      by (intro exI [of _ "d\<lparr>interval_sec := interval_seconds cfg\<rparr>"]) auto
  next
    assume "rc = 0 \<and> stored (snd (run_serve h e arg fl) (db_path cfg)) = db_now final"
    then show ?thesis using p run by auto
  qed
qed

text \<open>C1: The daemon never leaves two rows for one bucket in its database: started on a missing file,
  whatever it meets while it runs (statements that fail, cycles without a sample, signals), the
  rows of a tier coarser than the interval have different timestamps when it has ended, as long as
  the clock does not go back.\<close>

theorem serve_no_duplicates:
  assumes "open_config h arg = Some cfg" and "fl (db_path cfg) = Missing"
    and "clock_ok (serve_clock (length (alerts cfg)) (wakes e))"
    and "(bs, th) \<in> set TIER_TRANSITIONS" and "interval_seconds cfg < bs"
  shows "distinct (map timestamp (filter (\<lambda>r. bucket_sec r = Some bs)
    (metrics_tbl (stored (snd (run_serve h e arg fl) (db_path cfg))))))"
proof -
  obtain d t t0 where d: "interval_sec d = interval_seconds cfg"
    and run: "db_run d t0 empty_db t (stored (snd (run_serve h e arg fl) (db_path cfg)))"
    using serve_tables [of h arg cfg fl e] assms(1-3) by blast
  obtain since where "tier_clean bs (since - th) (metrics_tbl (stored (snd (run_serve h e arg fl) (db_path cfg))))"
    using db_run_inv [OF run db_inv_empty] assms(4,5) d by (auto simp: db_inv_def ladder_inv_iff)
  then show ?thesis by (simp add: tier_clean_def)
qed

subsection \<open>Fires\<close>

text \<open>The alerts that fired, which is that an action took them: each with its name, its cooldown, the
  clock at the check, and the clock at the record if the log became longer.\<close>

definition step_fires :: "alert_env \<Rightarrow> config_t \<Rightarrow> db_row_t \<Rightarrow> string \<Rightarrow> alert_cfg_t \<Rightarrow> database \<Rightarrow> fire list" where
  "step_fires env cfg row hn a db =
     (case alert_step env cfg row hn a db of (delivered, db') \<Rightarrow>
        if delivered
        then [(name a, cooldown_seconds a, chk_now env,
               if alert_log db' = alert_log db then None else Some (log_now env))]
        else [])"

fun loop_fires ::
    "(nat \<Rightarrow> alert_env) \<Rightarrow> config_t \<Rightarrow> db_row_t \<Rightarrow> string \<Rightarrow> nat \<Rightarrow> alert_cfg_t list \<Rightarrow> database \<Rightarrow> fire list" where
  "loop_fires envs cfg row hn i [] db = []"
| "loop_fires envs cfg row hn i (a # as) db =
     step_fires (envs i) cfg row hn a db @
     loop_fires envs cfg row hn (i + 1) as (snd (alert_step (envs i) cfg row hn a db))"

definition watch_fires :: "cycle_env \<Rightarrow> config_t \<Rightarrow> database \<Rightarrow> fire list" where
  "watch_fires c cfg db =
     (case db_current (cur_prepared c) (cur_stepped c) db of
        (rc, row) \<Rightarrow>
          if rc \<noteq> 0 then []
          else (case row of
                  Some r \<Rightarrow> loop_fires (alert_envs c) cfg r (alert_hostname cfg (host_name c)) 0 (alerts cfg) db
                | None \<Rightarrow> []))"

definition cycle_fires :: "cycle_env \<Rightarrow> config_t \<Rightarrow> int \<Rightarrow> db_t \<Rightarrow> metrics_t \<Rightarrow> database \<Rightarrow> fire list" where
  "cycle_fires c cfg days d m db =
     (case db_insert (ins_step c) (ins_now c) d m db of (rc, db1) \<Rightarrow>
        if rc \<noteq> 0 then [] else watch_fires c cfg (keep_house c days d db1))"

definition turn_fires :: "int \<Rightarrow> config_t \<Rightarrow> int \<Rightarrow> db_t \<Rightarrow> wake \<Rightarrow> serve_state \<Rightarrow> fire list" where
  "turn_fires lmax cfg days d w s =
     (if stop_before w \<or> stop_after w \<or> slept w \<noteq> 0 then []
      else case metrics_collect lmax (seen w) (snapshots s) (sampled s) of (rc, st, m) \<Rightarrow>
        if rc \<noteq> 0 then [] else cycle_fires (cyc w) cfg days d m (db_now s))"

fun serve_fires :: "int \<Rightarrow> config_t \<Rightarrow> int \<Rightarrow> db_t \<Rightarrow> wake list \<Rightarrow> serve_state \<Rightarrow> fire list" where
  "serve_fires lmax cfg days d [] s = []"
| "serve_fires lmax cfg days d (w # ws) s =
     turn_fires lmax cfg days d w s @
     (if stop_before w \<or> stop_after w then []
      else serve_fires lmax cfg days d ws (fst (serve_turn lmax cfg days d w s)))"

text \<open>The log operations behind them.\<close>

abbreviation run_ops :: "int \<Rightarrow> log_op list \<Rightarrow> (string \<times> string) list \<Rightarrow> (string \<times> string) list \<times> fire list" where
  "run_ops days ops l \<equiv> log_run log_blocked log_fire (log_prune days) ops l"

lemma log_run_append:
  "log_run b f p (xs @ ys) s =
     (fst (log_run b f p ys (fst (log_run b f p xs s))),
      snd (log_run b f p xs s) @ snd (log_run b f p ys (fst (log_run b f p xs s))))"
  by (induction b f p xs s rule: log_run.induct) (auto split: prod.split)

lemma loop_fires_log:
  "run_ops days (attempts envs cfg row hn i as) (alert_log db) =
     (alert_log (alerts_loop envs cfg row hn i as db), loop_fires envs cfg row hn i as db)"
proof (induction as arbitrary: i db)
  case (Cons a as)
  show ?case
    using Cons.IH [of "i + 1" db] Cons.IH [of "i + 1" "snd (alert_step (envs i) cfg row hn a db)"]
    by (auto simp: alert_step_cases step_fires_def attempt_def log_fire_eq)
qed simp

definition house_ops :: "cycle_env \<Rightarrow> log_op list" where
  "house_ops c =
     (if step_with_retry (prune_step1 c) = ST_DONE \<and> step_with_retry (prune_step2 c) = ST_DONE
      then [Prune (prune_now c)] else [])"

lemma house_log:
  "alert_log (keep_house c days d (snd (db_insert st now d m db))) = fst (run_ops days (house_ops c) (alert_log db)) \<and>
   snd (run_ops days (house_ops c) l) = []"
  by (simp add: keep_house_def db_insert_def db_consolidate_def db_prune_def house_ops_def log_prune_eq
      prune_metrics_def prune_alerts_def iso_cutoff_def Let_def)

lemma subseq_in: "subseq xs ys \<Longrightarrow> x \<in> set xs \<Longrightarrow> x \<in> set ys"
  by (auto elim: list_emb_set)

lemma subseq_sorted: "subseq xs ys \<Longrightarrow> sorted ys \<Longrightarrow> sorted xs"
  by (induction rule: list_emb.induct) (auto dest: subseq_in)

text \<open>Operations that fit in a stretch of the clock, and in number.\<close>

definition ops_in :: "alert_cfg_t list \<Rightarrow> log_op list \<Rightarrow> int list \<Rightarrow> bool" where
  "ops_in as ops clock =
     (subseq (map op_time ops) clock \<and>
      (\<forall>m cd c t. Attempt m cd c t \<in> set ops \<longrightarrow> set_option t \<subseteq> set clock \<and> (\<exists>a \<in> set as. cd = cooldown_seconds a)))"

lemma ops_in_append: "ops_in as xs us \<Longrightarrow> ops_in as ys vs \<Longrightarrow> ops_in as (xs @ ys) (us @ vs)"
  by (fastforce simp: ops_in_def intro!: list_emb_append_mono)

lemma ops_in_Nil: "ops_in as [] clock"
  by (simp add: ops_in_def)

lemma ops_in_mono: "ops_in as ops us \<Longrightarrow> set as \<subseteq> set bs \<Longrightarrow> ops_in bs ops us"
  unfolding ops_in_def by blast

lemma attempts_in:
  "ops_in as (attempts envs cfg row hn i as) (alert_clock envs i (length as)) \<and>
   length (attempts envs cfg row hn i as) \<le> length as"
proof (induction as arbitrary: i)
  case (Cons a as)
  have "ops_in (a # as) (attempts envs cfg row hn (i + 1) as) (alert_clock envs (i + 1) (length as))"
    using Cons.IH ops_in_mono set_subset_Cons by metis
  moreover have "ops_in (a # as) (if wants (envs i) cfg row hn a then [attempt (envs i) a] else []) [chk_now (envs i), log_now (envs i)]"
    by (auto simp: ops_in_def attempt_def)
  ultimately have "ops_in (a # as) (attempts envs cfg row hn i (a # as))
      ([chk_now (envs i), log_now (envs i)] @ alert_clock envs (i + 1) (length as))"
    unfolding attempts.simps by (rule ops_in_append [rotated])
  then show ?case using Cons.IH [of "i + 1"] by (auto simp: le_SucI)
qed (simp add: ops_in_def)

lemma cycle_log:
  "\<exists>ops. run_ops days ops (alert_log db) =
      (alert_log (snd (store_cycle c cfg days d m db)), cycle_fires c cfg days d m db) \<and>
    ops_in (alerts cfg) ops (cycle_clock (length (alerts cfg)) c) \<and> length ops \<le> length (alerts cfg) + 1"
proof (cases "fst (db_insert (ins_step c) (ins_now c) d m db) = 0")
  case False
  then have "alert_log (snd (store_cycle c cfg days d m db)) = alert_log db" "cycle_fires c cfg days d m db = []"
    by (auto simp: store_cycle_def cycle_fires_def db_insert_def split: if_splits)
  then show ?thesis by (intro exI [of _ "[]"]) (simp add: ops_in_Nil)
next
  case True
  define db3 where "db3 = keep_house c days d (snd (db_insert (ins_step c) (ins_now c) d m db))"
  have c: "snd (store_cycle c cfg days d m db) = watch c cfg db3" "cycle_fires c cfg days d m db = watch_fires c cfg db3"
    using True by (cases "db_insert (ins_step c) (ins_now c) d m db"; simp add: store_cycle_def cycle_fires_def db3_def)+
  have "\<exists>ops. run_ops days ops (alert_log db3) = (alert_log (watch c cfg db3), watch_fires c cfg db3) \<and>
      ops_in (alerts cfg) ops (alert_clock (alert_envs c) 0 (length (alerts cfg))) \<and> length ops \<le> length (alerts cfg)"
  proof (cases "\<exists>r. db_current (cur_prepared c) (cur_stepped c) db3 = (0, Some r)")
    case True
    then obtain r where r: "db_current (cur_prepared c) (cur_stepped c) db3 = (0, Some r)" by blast
    then have "watch c cfg db3 = alerts_loop (alert_envs c) cfg r (alert_hostname cfg (host_name c)) 0 (alerts cfg) db3"
      by (simp add: watch_def alerts_evaluate_def)
    then show ?thesis
      using r loop_fires_log [of days "alert_envs c" cfg r "alert_hostname cfg (host_name c)" 0 "alerts cfg" db3] attempts_in
      by (intro exI [of _ "attempts (alert_envs c) cfg r (alert_hostname cfg (host_name c)) 0 (alerts cfg)"])
        (simp add: watch_fires_def)
  next
    case False
    then have "watch c cfg db3 = db3" "watch_fires c cfg db3 = []"
      by (auto simp: watch_def watch_fires_def split: prod.split option.split)
    then show ?thesis by (intro exI [of _ "[]"]) (simp add: ops_in_Nil)
  qed
  then obtain ops where ops: "run_ops days ops (alert_log db3) = (alert_log (watch c cfg db3), watch_fires c cfg db3)"
    "ops_in (alerts cfg) ops (alert_clock (alert_envs c) 0 (length (alerts cfg)))" "length ops \<le> length (alerts cfg)" by blast
  have house: "alert_log db3 = fst (run_ops days (house_ops c) (alert_log db))" "snd (run_ops days (house_ops c) (alert_log db)) = []"
    using house_log unfolding db3_def by auto
  have "run_ops days (house_ops c @ ops) (alert_log db) = (alert_log (watch c cfg db3), watch_fires c cfg db3)"
    unfolding log_run_append using ops(1) house by simp
  moreover have "ops_in (alerts cfg) (house_ops c) [ins_now c, cons_now c, prune_now c]"
    by (simp add: ops_in_def house_ops_def)
  then have "ops_in (alerts cfg) (house_ops c @ ops) (cycle_clock (length (alerts cfg)) c)"
    unfolding cycle_clock_def by (rule ops_in_append [OF _ ops(2)])
  moreover have "length (house_ops c) \<le> 1" by (simp add: house_ops_def)
  ultimately show ?thesis unfolding c using ops(3) by (intro exI [of _ "house_ops c @ ops"]) simp
qed

lemma turn_log:
  "\<exists>ops. run_ops days ops (alert_log (db_now s)) =
      (alert_log (db_now (fst (serve_turn lmax cfg days d w s))), turn_fires lmax cfg days d w s) \<and>
    ops_in (alerts cfg) ops (cycle_clock (length (alerts cfg)) (cyc w)) \<and> length ops \<le> length (alerts cfg) + 1"
proof -
  obtain rc st m where mc: "metrics_collect lmax (seen w) (snapshots s) (sampled s) = (rc, st, m)"
    by (cases "metrics_collect lmax (seen w) (snapshots s) (sampled s)")
  show ?thesis
  proof (cases "stop_before w \<or> stop_after w \<or> slept w \<noteq> 0 \<or> rc \<noteq> 0")
    case True
    then have "db_now (fst (serve_turn lmax cfg days d w s)) = db_now s" "turn_fires lmax cfg days d w s = []"
      using mc by (auto simp: serve_turn_def turn_fires_def Let_def)
    then show ?thesis by (intro exI [of _ "[]"]) (simp add: ops_in_Nil)
  next
    case False
    then show ?thesis
      using cycle_log [of days "db_now s" "cyc w" cfg d m] mc by (simp add: serve_turn_def turn_fires_def Let_def)
  qed
qed

lemma serve_log:
  "\<exists>ops. run_ops days ops (alert_log (db_now s)) =
      (alert_log (db_now (serve_loop lmax cfg days d ws s)), serve_fires lmax cfg days d ws s) \<and>
    ops_in (alerts cfg) ops (serve_clock (length (alerts cfg)) ws) \<and> length ops \<le> length ws * (length (alerts cfg) + 1)"
proof (induction ws arbitrary: s)
  case Nil
  show ?case by (intro exI [of _ "[]"]) (simp add: ops_in_Nil)
next
  case (Cons w ws)
  define n where "n = length (alerts cfg)"
  obtain xs where xs: "run_ops days xs (alert_log (db_now s)) =
      (alert_log (db_now (fst (serve_turn lmax cfg days d w s))), turn_fires lmax cfg days d w s)"
    "ops_in (alerts cfg) xs (cycle_clock n (cyc w))" "length xs \<le> n + 1"
    using turn_log [of days s lmax cfg d w] unfolding n_def by blast
  obtain ys where ys: "run_ops days ys (alert_log (db_now (fst (serve_turn lmax cfg days d w s)))) =
      (alert_log (db_now (serve_loop lmax cfg days d ws (fst (serve_turn lmax cfg days d w s)))),
       serve_fires lmax cfg days d ws (fst (serve_turn lmax cfg days d w s)))"
    "ops_in (alerts cfg) ys (serve_clock n ws)" "length ys \<le> length ws * (n + 1)"
    using Cons.IH [of "fst (serve_turn lmax cfg days d w s)"] unfolding n_def by blast
  have clk: "serve_clock n (w # ws) = cycle_clock n (cyc w) @ serve_clock n ws" by (simp add: serve_clock_def)
  show ?case
  proof (cases "stop_before w \<or> stop_after w")
    case True
    have "ops_in (alerts cfg) (xs @ []) (cycle_clock n (cyc w) @ serve_clock n ws)"
      by (rule ops_in_append [OF xs(2) ops_in_Nil])
    then show ?thesis
      using xs True unfolding serve_loop_Cons clk n_def [symmetric] by (intro exI [of _ xs]) simp
  next
    case False
    then show ?thesis
      using xs ys ops_in_append [OF xs(2) ys(2)] unfolding serve_loop_Cons clk n_def [symmetric]
      by (intro exI [of _ "xs @ ys"]) (simp add: log_run_append)
  qed
qed


text \<open>C3: The cooldown of an alert holds over the whole life of the daemon. A fire is any alert that an
  action took, whether or not its record then went through; after a fire that was recorded, no fire of
  an alert of that name is checked before its cooldown has passed since the record, although every
  cycle also prunes the log and any statement may fail. (A fire that is not recorded starts no
  cooldown, as the source says.) The clock must not go back, and the cooldown must not be longer than
  the retention, which pruning would otherwise cut short.\<close>

theorem cooldown_respected:
  assumes "config_ok lmax cfg" and "clock_ok (serve_clock (length (alerts cfg)) ws)"
    and "list_all (\<lambda>a. cooldown_seconds a \<le> retention_days lmax cfg * 86400) (alerts cfg)"
    and "list_all log_ok (alert_log (db_now s))"
    and "length (alert_log (db_now s)) + length ws * (length (alerts cfg) + 1) < 2 ^ 31"
  shows "sorted_wrt spaced (serve_fires lmax cfg (retention_days lmax cfg) d ws s)"
proof -
  define days where "days = retention_days lmax cfg"
  obtain ops where run: "run_ops days ops (alert_log (db_now s)) =
      (alert_log (db_now (serve_loop lmax cfg days d ws s)), serve_fires lmax cfg days d ws s)"
    and ops: "ops_in (alerts cfg) ops (serve_clock (length (alerts cfg)) ws)" "length ops \<le> length ws * (length (alerts cfg) + 1)"
    using serve_log [of days s lmax cfg d ws] by blast
  define cl where "cl = serve_clock (length (alerts cfg)) ws"
  have in_cl: "op_time x \<in> set cl" if "x \<in> set ops" for x
    using ops(1) that unfolding ops_in_def cl_def by (auto intro: subseq_in)
  have cl: "3653 * 86400 \<le> t" "time_ok t" if "t \<in> set cl" for t
    using assms(2) that by (auto simp: clock_ok_def list_all_iff cl_def)
  have late: "time_ok (t - u)" if "t \<in> set cl" "0 \<le> u" "u \<le> 3653 * 86400" for t u
    using cl [OF that(1)] that(2,3) by (simp add: time_ok_def)
  have days: "0 \<le> days * 86400" "days * 86400 \<le> 3653 * 86400"
    using retention_days_bounds(1,2) [OF assms(1)] by (simp_all add: days_def)
  have "al.op_ok days x" if x: "x \<in> set ops" for x
  proof (cases x)
    case (Prune now)
    then show ?thesis using in_cl [OF x] late days by simp
  next
    case (Attempt m cd c t)
    then obtain a where "a \<in> set (alerts cfg)" "cd = cooldown_seconds a" and t: "set_option t \<subseteq> set cl"
      using ops(1) x Attempt unfolding ops_in_def cl_def by blast
    then have "0 \<le> cd" "cd \<le> 3653 * 86400" "cd \<le> days * 86400"
      using assms(1,3) by (auto simp: config_ok_def alerts_ok_def alert_ok_def list_all_iff days_def)
    then show ?thesis using in_cl [OF x] late t cl(2) Attempt by (auto split: option.split)
  qed
  moreover have "sorted (map op_time ops)"
    using ops(1) assms(2) unfolding ops_in_def clock_ok_def by (blast intro: subseq_sorted)
  moreover have "log_inv (length ops) (alert_log (db_now s))"
    using assms(4,5) ops(2) by (simp add: log_inv_def)
  ultimately have "sorted_wrt spaced (snd (run_ops days ops (alert_log (db_now s))))"
    by (intro al.fires_spaced) (simp_all add: list_all_iff)
  then have "sorted_wrt spaced (serve_fires lmax cfg days d ws s)" unfolding run by simp
  then show ?thesis unfolding days_def .
qed

subsection \<open>A sample run\<close>

definition sample_proc :: environment where
  "sample_proc = \<lparr>proc_loadavg = Some ''1 2 3'', proc_meminfo = Some ''MemTotal: 8'',
     statvfs = Some \<lparr>f_frsize = 1, f_blocks = 1, f_bavail = 1\<rparr>, proc_uptime = Some ''5'', proc_stat = None,
     zone_type = (\<lambda>_. None), zone_temp = (\<lambda>_. None), proc_net_dev = None, proc_vmstat = None,
     mono_now = (0, 0), swap_now = (0, 0), page_size = 4096\<rparr>"

lemma proc_load: "collect_load (proc_loadavg sample_proc) m = (0, m\<lparr>load_1m := Fin 1, load_5m := Fin 2, load_15m := Fin 3\<rparr>)"
  by (simp add: sample_proc_def collect_load_def fgets_def strtod_def sign_split_def c_isspace_def c_isdigit_def
        decimal_exp_def digit_val_def scale10_def Let_def)

lemma sample_mem: "\<exists>st' m'. collect_meminfo (proc_meminfo sample_proc) st m = (0, st', m') \<and> load_1m m' = load_1m m"
proof -
  have "each_line 128 meminfo_line ''MemTotal: 8'' i = i\<lparr>mem_total_kb := 8\<rparr>" for i
    by (subst each_line.simps) (simp add: fgets_def each_line.simps meminfo_line_def split_key_value_def strtoull_def
        sign_split_def c_isspace_def c_isdigit_def digit_val_def Let_def)
  then show ?thesis
    by (simp add: sample_proc_def collect_meminfo_def read_meminfo_def Let_def)
qed

lemma sample_uptime: "\<exists>m'. collect_uptime (proc_uptime sample_proc) m = (0, m') \<and> load_1m m' = load_1m m"
  by (simp add: sample_proc_def collect_uptime_def fgets_def strtod_def sign_split_def c_isspace_def c_isdigit_def
        decimal_exp_def digit_val_def scale10_def Let_def)

lemma sample_disk: "\<exists>m'. collect_disk (statvfs sample_proc) m = (0, m') \<and> load_1m m' = load_1m m"
  by (simp add: sample_proc_def collect_disk_def Let_def)

lemma sample_rest:
  "\<exists>st' m'. collect_cpu (proc_stat sample_proc) st m = (st', m') \<and> load_1m m' = load_1m m"
  "load_1m (collect_temp lmax (zone_type sample_proc) (zone_temp sample_proc) m) = load_1m m"
  "\<exists>st' m'. collect_net (proc_net_dev sample_proc) t st m = (st', m') \<and> load_1m m' = load_1m m"
  "\<exists>st' m'. collect_swap_io sample_proc st m = (st', m') \<and> load_1m m' = load_1m m"
  by (simp_all add: sample_proc_def collect_cpu_def read_cpu_raw_def collect_temp_def collect_net_def read_net_raw_def
      collect_swap_io_def sample_swap_io_def Let_def)

lemma sample_collect: "\<exists>st' m'. metrics_collect lmax sample_proc st m = (0, st', m') \<and> load_1m m' = Fin 1"
proof -
  define m1 where "m1 = m\<lparr>load_1m := Fin 1, load_5m := Fin 2, load_15m := Fin 3\<rparr>"
  obtain st2 m2 where 2: "collect_meminfo (proc_meminfo sample_proc) st m1 = (0, st2, m2)" "load_1m m2 = load_1m m1"
    using sample_mem by blast
  obtain m3 where 3: "collect_disk (statvfs sample_proc) m2 = (0, m3)" "load_1m m3 = load_1m m2"
    using sample_disk by blast
  obtain m4 where 4: "collect_uptime (proc_uptime sample_proc) m3 = (0, m4)" "load_1m m4 = load_1m m3"
    using sample_uptime by blast
  obtain st5 m5 where 5: "collect_cpu (proc_stat sample_proc) st2 m4 = (st5, m5)" "load_1m m5 = load_1m m4"
    using sample_rest(1) by blast
  define m6 where "m6 = collect_temp lmax (zone_type sample_proc) (zone_temp sample_proc) m5"
  obtain st7 m7 where 7: "collect_net (proc_net_dev sample_proc) (mono_now sample_proc) st5 m6 = (st7, m7)" "load_1m m7 = load_1m m6"
    using sample_rest(3) by blast
  obtain st8 m8 where 8: "collect_swap_io sample_proc st7 m7 = (st8, m8)"
    "load_1m m8 = load_1m m7"
    using sample_rest(4) by blast
  have "metrics_collect lmax sample_proc st m = (0, st8, m8)"
    by (simp add: metrics_collect_def proc_load m1_def [symmetric] 2(1) 3(1) 4(1) 5(1) Let_def m6_def [symmetric] 7(1) 8(1))
  moreover have "load_1m m8 = Fin 1"
    using 2(2) 3(2) 4(2) 5(2) sample_rest(2) 7(2) 8(2) by (simp add: m1_def m6_def)
  ultimately show ?thesis by blast
qed

definition load_alert :: alert_cfg_t where
  "load_alert = \<lparr>name = ''load'', metric = ''load_1m'', operator = ''>='', threshold = Fin 1,
     webhook = '''', command = ''beep'', cooldown_seconds = 300\<rparr>"

definition load_config :: config_t where
  "load_config = config_defaults\<lparr>alerts := [load_alert]\<rparr>"

lemma load_config_ok: "config_ok (2 ^ 63 - 1) load_config"
proof -
  have "alert_ok load_alert"
    by (simp add: alert_ok_def load_alert_def valid_op_def in_list_def METRIC_NAMES_def)
  then show ?thesis
    using config_defaults_ok
    by (simp add: config_ok_def load_config_def numbers_ok_def texts_ok_def units_ok_def lists_ok_def names_ok_def
        ranges_ok_def alerts_ok_def MAX_ALERTS_def)
qed

definition sample_cycle :: "int \<Rightarrow> cycle_env" where
  "sample_cycle t = \<lparr>ins_step = (\<lambda>_. ST_DONE), ins_now = t, cons_ok = False, cons_now = t,
     prune_step1 = (\<lambda>_. ST_ERROR), prune_step2 = (\<lambda>_. ST_DONE), prune_now = t, cur_prepared = True,
     cur_stepped = True,
     alert_envs = (\<lambda>_. \<lparr>chk_step = (\<lambda>_. ST_ROW), chk_now = t, log_step = (\<lambda>_. ST_DONE), log_now = t,
       net = sample_net, sys = (\<lambda>_ _. 0)\<rparr>), host_name = None\<rparr>"

definition sample_wake :: "int \<Rightarrow> wake" where
  "sample_wake t = \<lparr>stop_before = False, slept = 0, stop_after = False, seen = sample_proc, cyc = sample_cycle t\<rparr>"

lemma sample_fires:
  assumes "load_1m m = Fin 1"
  shows "cycle_fires (sample_cycle t) load_config days d m empty_db = [(''load'', 300, t, Some t)]"
  using assms
  by (simp add: cycle_fires_def sample_cycle_def db_insert_def step_with_retry_eq keep_house_def db_prune_def
      db_consolidate_def watch_fires_def db_current_def empty_db_def step_fires_def alert_step_def load_config_def load_alert_def
      get_metric_value_def read_row_def select_raw_def metric_row_def eval_op_def db_alert_on_cooldown_def alert_check_def
      deliver_def run_command_def db_alert_log_fire_def Let_def bind_double_def col_double_def to_signed_def isnan_def)

theorem cooldown_respected_witness:
  "\<forall>m. \<exists>f fs. serve_fires (2 ^ 63 - 1) load_config 90 (open_handle 60) [sample_wake 400000000, sample_wake 400001000]
     \<lparr>deadline = 0, sampled = m, snapshots = statics_zero, failed_run = 0, db_now = empty_db\<rparr> = f # fs \<and>
   sorted_wrt spaced (f # fs)"
proof
  fix m
  define s where "s = \<lparr>deadline = 0, sampled = m, snapshots = statics_zero, failed_run = 0, db_now = empty_db\<rparr>"
  have days: "retention_days (2 ^ 63 - 1) load_config = 90"
    by (simp add: retention_days_def longest_days_def range_to_days_def load_config_def config_defaults_def
        strtol_def sign_split_def c_isspace_def c_isdigit_def digit_val_def to_signed_def Let_def)
  obtain st' m' where "metrics_collect (2 ^ 63 - 1) sample_proc statics_zero m = (0, st', m')" "load_1m m' = Fin 1"
    using sample_collect by blast
  then have "turn_fires (2 ^ 63 - 1) load_config 90 (open_handle 60) (sample_wake 400000000) s = [(''load'', 300, 400000000, Some 400000000)]"
    using sample_fires by (simp add: turn_fires_def sample_wake_def s_def)
  moreover have "sorted_wrt spaced (serve_fires (2 ^ 63 - 1) load_config (retention_days (2 ^ 63 - 1) load_config) (open_handle 60)
      [sample_wake 400000000, sample_wake 400001000] s)"
    by (rule cooldown_respected [OF load_config_ok])
      (simp_all add: days [unfolded load_config_def load_alert_def, simplified] clock_ok_def serve_clock_def cycle_clock_def sample_wake_def sample_cycle_def load_config_def
        load_alert_def time_ok_def s_def empty_db_def)
  ultimately show "\<exists>f fs. serve_fires (2 ^ 63 - 1) load_config 90 (open_handle 60) [sample_wake 400000000, sample_wake 400001000]
     \<lparr>deadline = 0, sampled = m, snapshots = statics_zero, failed_run = 0, db_now = empty_db\<rparr> = f # fs \<and>
   sorted_wrt spaced (f # fs)" unfolding s_def [symmetric] days by simp
qed


definition sample_host :: host_env where
  "sample_host = \<lparr>long_max = 2 ^ 63 - 1, ulong_max = 2 ^ 64 - 1, fs = \<lparr>statvfs_ok = (\<lambda>_. True), file_text = (\<lambda>_. None)\<rparr>, can_read = (\<lambda>_. False),
     toml_of = (\<lambda>_. None), open_env = all_ok, garbage = undefined\<rparr>"

definition sample_serve :: serve_env where
  "sample_serve = \<lparr>ro_ok = True,
     http_env = \<lparr>cpu_online = None, trip_type = (\<lambda>_. None), trip_temp = (\<lambda>_. None), link_dir = None, mg_started = True\<rparr>,
     seed = sample_proc, mono_start = 0, wakes = [sample_wake 400000000, sample_wake 400001000]\<rparr>"

theorem serve_no_duplicates_witness:
  "distinct (map timestamp (filter (\<lambda>r. bucket_sec r = Some 300)
    (metrics_tbl (stored (snd (run_serve sample_host sample_serve None (\<lambda>_. Missing)) ''./metrics.db'')))))"
proof -
  have c: "open_config sample_host None = Some config_defaults" "db_path config_defaults = ''./metrics.db''"
    by (simp_all add: open_config_def config_open_def sample_host_def config_defaults_def)
  have "distinct (map timestamp (filter (\<lambda>r. bucket_sec r = Some 300)
      (metrics_tbl (stored (snd (run_serve sample_host sample_serve None (\<lambda>_. Missing)) (db_path config_defaults))))))"
    by (rule serve_no_duplicates [OF c(1)])
      (auto simp: TIER_TRANSITIONS_def clock_ok_def serve_clock_def cycle_clock_def sample_serve_def sample_wake_def
        sample_cycle_def time_ok_def config_defaults_def)
  then show ?thesis unfolding c(2) .
qed

end
