(* ===== verification/History.thy ===== *)
theory History
  imports MainProps "HOL-Library.Multiset"
begin

text \<open>
  The samples over the whole life of a database: what \<open>serve\<close> and \<open>collect\<close> inserted, over any number
  of runs, against what the table still says of it. The abstract state is the history of the
  samples; \<open>summarises\<close> relates it to the table, and every operation of the daemon keeps it.
\<close>

subsection \<open>The abstract state\<close>

text \<open>How a row comes from the samples: a sample is its own row, and a row of a tier stands for the
  rows of one bucket, each finer than the tier and each made of its own samples; its columns are
  their averages.\<close>

inductive folds :: "row list \<Rightarrow> row \<Rightarrow> bool" where
  folds_sample: "row_ok r \<Longrightarrow> folds [r] r"
| folds_bucket: "list_all2 folds hs g \<Longrightarrow> g \<noteq> [] \<Longrightarrow> (bs, th) \<in> set TIER_TRANSITIONS \<Longrightarrow>
     list_all (\<lambda>r. finer bs r \<and> bucket_of bs r = unix r') g \<Longrightarrow>
     row_ok r' \<Longrightarrow> bucket_sec r' = Some bs \<Longrightarrow> cell r' = avg g \<Longrightarrow> folds (concat hs) r'"

text \<open>A table that summarises a history: the samples are dealt out to the rows, none twice, each row
  comes from its share, and a sample that went to no row is older than \<open>since\<close>, give or take one
  bucket of the coarsest tier.\<close>

definition summarises :: "int \<Rightarrow> row list \<Rightarrow> row list \<Rightarrow> bool" where
  "summarises since hist tbl =
     (list_all row_ok hist \<and>
      (\<exists>parts. list_all2 folds parts tbl \<and> mset (concat parts) \<subseteq># mset hist \<and>
        (\<forall>r \<in># mset hist - mset (concat parts). the (unix r) < since + 21600)))"

lemma folds_ok: "folds hs r \<Longrightarrow> row_ok r \<and> hs \<noteq> []"
  by (induction rule: folds.induct) (auto simp: list_all2_Cons2 neq_Nil_conv)

lemma folds_stands_for:
  assumes "folds hs r'" and "r \<in> set hs" and "row_ok r"
  shows "stands_for TIER_TRANSITIONS r' r"
  using assms
proof (induction rule: folds.induct)
  case (folds_bucket hs g bs th r')
  obtain h where h: "h \<in> set hs" "r \<in> set h" using folds_bucket.prems(1) by auto
  obtain i where i: "i < length hs" "h = hs ! i" using h(1) by (metis in_set_conv_nth)
  have "stands_for TIER_TRANSITIONS (g ! i) r"
    using list_all2_nthD [OF folds_bucket.IH i(1)] h(2) i(2) folds_bucket.prems(2) by blast
  moreover have "finer bs (g ! i)" "unix r' = bucket_of bs (g ! i)"
    using folds_bucket.hyps(3) list_all2_lengthD [OF folds_bucket.IH] i(1) by (simp_all add: list_all_length)
  ultimately show ?case
    using stands_for_tier [OF dividing_ladder folds_bucket.hyps(2) folds_bucket.prems(2)] folds_bucket.hyps(5) by blast
qed simp

text \<open>The rows of a table with their shares, as pairs.\<close>

lemma folds_pairs: "list_all (\<lambda>(h, r). folds h r) ps \<longleftrightarrow> list_all2 folds (map fst ps) (map snd ps)"
  by (induction ps) auto

lemma summarises_iff:
  "summarises since hist tbl \<longleftrightarrow> list_all row_ok hist \<and>
     (\<exists>ps. map snd ps = tbl \<and> list_all (\<lambda>(h, r). folds h r) ps \<and>
        mset (concat (map fst ps)) \<subseteq># mset hist \<and>
        (\<forall>r \<in># mset hist - mset (concat (map fst ps)). the (unix r) < since + 21600))"
  (is "_ \<longleftrightarrow> _ \<and> ?pairs")
proof -
  have "?pairs" if "list_all2 folds parts tbl" "mset (concat parts) \<subseteq># mset hist"
    "\<forall>r \<in># mset hist - mset (concat parts). the (unix r) < since + 21600" for parts
    using that folds_pairs [of "zip parts tbl"] list_all2_lengthD [OF that(1)]
    by (intro exI [of _ "zip parts tbl"]) simp
  then show ?thesis unfolding summarises_def folds_pairs by blast
qed

lemma in_left_diff: "x \<in># M - N \<Longrightarrow> x \<notin># K \<Longrightarrow> x \<in># M - (K + N)"
  by (simp add: in_diff_count not_in_iff)

lemma summarisesI:
  assumes "list_all row_ok hist" and "map snd ps = tbl" and "\<And>h r. (h, r) \<in> set ps \<Longrightarrow> folds h r"
    and "mset (concat (map fst ps)) \<subseteq># mset hist"
    and "\<And>r. r \<in># mset hist - mset (concat (map fst ps)) \<Longrightarrow> the (unix r) < since + 21600"
  shows "summarises since hist tbl"
  unfolding summarises_iff using assms by (intro conjI exI [of _ ps]) (auto simp: list_all_iff)

lemma summarisesE:
  assumes "summarises since hist tbl"
  obtains ps where "list_all row_ok hist" "map snd ps = tbl" "\<And>h r. (h, r) \<in> set ps \<Longrightarrow> folds h r"
    "mset (concat (map fst ps)) \<subseteq># mset hist"
    "\<And>r. r \<in># mset hist - mset (concat (map fst ps)) \<Longrightarrow> the (unix r) < since + 21600"
proof -
  obtain ps where "list_all row_ok hist" "map snd ps = tbl" "list_all (\<lambda>(h, r). folds h r) ps"
    "mset (concat (map fst ps)) \<subseteq># mset hist"
    "\<forall>r \<in># mset hist - mset (concat (map fst ps)). the (unix r) < since + 21600"
    using assms unfolding summarises_iff by blast
  then show thesis by (intro that [of ps]) (auto simp: list_all_iff)
qed

lemma summarises_Nil [simp]: "summarises since [] []"
  by (simp add: summarises_def)

text \<open>What a summary says of a single sample and of a single row.\<close>

lemma summarisesD:
  assumes "summarises since hist tbl"
  shows "list_all row_ok hist" and "list_all row_ok tbl"
    and "r \<in> set hist \<Longrightarrow> since + 21600 \<le> the (unix r) \<Longrightarrow> \<exists>r' \<in> set tbl. stands_for TIER_TRANSITIONS r' r"
    and "r' \<in> set tbl \<Longrightarrow> \<exists>r \<in> set hist. stands_for TIER_TRANSITIONS r' r"
proof -
  obtain ps where ok: "list_all row_ok hist" and tbl: "map snd ps = tbl"
    and folds: "\<And>h r. (h, r) \<in> set ps \<Longrightarrow> folds h r" and sub: "mset (concat (map fst ps)) \<subseteq># mset hist"
    and rest: "\<And>r. r \<in># mset hist - mset (concat (map fst ps)) \<Longrightarrow> the (unix r) < since + 21600"
    using assms by (rule summarisesE) blast
  show "list_all row_ok hist" by (rule ok)
  show "list_all row_ok tbl" using folds_ok [OF folds] by (auto simp: list_all_iff simp flip: tbl)
  have mem: "x \<in> set hist" if "(h, y) \<in> set ps" "x \<in> set h" for h x y
  proof -
    have "x \<in># mset (concat (map fst ps))" using that by force
    then have "x \<in># mset hist" using sub by (rule mset_subset_eqD [rotated])
    then show ?thesis by simp
  qed
  show "\<exists>r' \<in> set tbl. stands_for TIER_TRANSITIONS r' r" if r: "r \<in> set hist" "since + 21600 \<le> the (unix r)"
  proof -
    have "r \<in># mset (concat (map fst ps))"
      using rest [of r] r in_left_diff [of r "mset hist" "{#}" "mset (concat (map fst ps))"] by fastforce
    then obtain h y where "(h, y) \<in> set ps" "r \<in> set h" by auto
    then show ?thesis
      using folds_stands_for [OF folds] ok r(1) by (force simp: list_all_iff simp flip: tbl)
  qed
  show "\<exists>r \<in> set hist. stands_for TIER_TRANSITIONS r' r" if r': "r' \<in> set tbl"
  proof -
    obtain h where h: "(h, r') \<in> set ps" using r' by (auto simp flip: tbl)
    then obtain r where "r \<in> set h" using folds_ok [OF folds [OF h]] by (cases h) auto
    then show ?thesis
      using folds_stands_for [OF folds [OF h]] mem [OF h] ok by (auto simp: list_all_iff)
  qed
qed

lemma summarises_insert:
  assumes "summarises since hist tbl" and "row_ok r"
  shows "summarises since (hist @ [r]) (tbl @ [r])"
  using assms(1)
proof (rule summarisesE)
  fix ps
  assume ps: "list_all row_ok hist" "map snd ps = tbl" "\<And>h r. (h, r) \<in> set ps \<Longrightarrow> folds h r"
    "mset (concat (map fst ps)) \<subseteq># mset hist"
    "\<And>r. r \<in># mset hist - mset (concat (map fst ps)) \<Longrightarrow> the (unix r) < since + 21600"
  show ?thesis
    by (rule summarisesI [of _ "ps @ [([r], r)]"]) (use ps assms(2) in \<open>auto intro: folds_sample\<close>)
qed

text \<open>Grouping deals out what it groups.\<close>

lemma mset_partition:
  assumes "distinct ks" and "\<And>p. p \<in> set ps \<Longrightarrow> key p \<in> set ks"
  shows "mset (concat (map (\<lambda>k. concat (map f (filter (\<lambda>p. key p = k) ps))) ks)) = mset (concat (map f ps))"
  using assms(2)
proof (induction ps)
  case (Cons p ps)
  have pick: "mset (concat (map (\<lambda>k. (if key p = k then f p else []) @ G k) ks)) =
      (if key p \<in> set ks then mset (f p) else {#}) + mset (concat (map G ks))" for G
    using assms(1) by (induction ks) auto
  have "(\<lambda>k. concat (map f (filter (\<lambda>q. key q = k) (p # ps)))) =
      (\<lambda>k. (if key p = k then f p else []) @ concat (map f (filter (\<lambda>q. key q = k) ps)))"
    by auto
  then have "mset (concat (map (\<lambda>k. concat (map f (filter (\<lambda>q. key q = k) (p # ps)))) ks)) =
      mset (f p) + mset (concat (map (\<lambda>k. concat (map f (filter (\<lambda>q. key q = k) ps))) ks))"
    using Cons.prems by (simp only: pick) simp
  then show ?case using Cons by simp
qed (induction ks; simp)

lemma mset_concat_filter:
  "mset (concat (map f (filter (\<lambda>x. \<not> P x) xs))) + mset (concat (map f (filter P xs))) = mset (concat (map f xs))"
  by (induction xs) auto

text \<open>The row a tier makes of a group is made of what the rows of the group are made of.\<close>

lemma folds_tier_row:
  assumes tier: "(bs, th) \<in> set TIER_TRANSITIONS" and "share \<noteq> []"
    and mem: "\<And>h r. (h, r) \<in> set share \<Longrightarrow> folds h r \<and> tier_where bs (now - th) r \<and> bucket_of bs r = k"
  shows "folds (concat (map fst share)) (tier_row bs (k, map snd share))"
proof -
  obtain x y where xy: "(x, y) \<in> set share" using assms(2) by (cases share) auto
  note u = tier_row_unix [of y bs k, OF _ _ conjunct1 [OF ladder_pos [OF tier]]]
  have y: "row_ok y" "bucket_of bs y = k" using mem [OF xy] folds_ok by auto
  have "list_all2 folds (map fst share) (map snd share)"
    using mem by (auto simp: list_all2_conv_all_nth)
  then show ?thesis
    by (rule folds_bucket [OF _ _ tier])
      (use assms(2) mem u [OF y] in \<open>auto simp: list_all_iff tier_where_def\<close>)
qed

lemma summarises_tier:
  assumes "summarises since hist tbl" and tier: "(bs, th) \<in> set TIER_TRANSITIONS"
  shows "summarises since hist (tier_pass now (bs, th) tbl)"
  using assms(1)
proof (rule summarisesE)
  fix ps
  assume ok: "list_all row_ok hist" and tbl: "map snd ps = tbl" and folds: "\<And>h r. (h, r) \<in> set ps \<Longrightarrow> folds h r"
    and sub: "mset (concat (map fst ps)) \<subseteq># mset hist"
    and rest: "\<And>r. r \<in># mset hist - mset (concat (map fst ps)) \<Longrightarrow> the (unix r) < since + 21600"
  define W where "W = tier_where bs (now - th)"
  define aged where "aged = filter (W \<circ> snd) ps"
  define share where "share k = filter (\<lambda>p. bucket_of bs (snd p) = k) aged" for k
  define keys where "keys = sort (remdups (map (bucket_of bs) (filter W tbl)))"
  define new where "new = map (\<lambda>k. (concat (map fst (share k)), tier_row bs (k, map snd (share k)))) keys"
  define qs where "qs = filter (\<lambda>p. \<not> W (snd p)) ps @ new"
  have rows: "filter W tbl = map snd aged"
    by (simp add: aged_def filter_map flip: tbl)
  have "tier_rows bs (now - th) tbl = map snd new"
    by (simp add: tier_rows_def group_by_def new_def keys_def share_def rows filter_map comp_def flip: W_def)
  then have snds: "map snd qs = tier_pass now (bs, th) tbl"
    by (simp add: tier_pass_eq qs_def filter_map comp_def W_def flip: tbl)
  have "mset (concat (map fst new)) = mset (concat (map fst aged))"
    unfolding new_def map_map comp_def fst_conv share_def
    by (rule mset_partition) (force simp: keys_def rows)+
  then have same: "mset (concat (map fst qs)) = mset (concat (map fst ps))"
    using mset_concat_filter [of fst "W \<circ> snd" ps] by (simp add: qs_def aged_def)
  show ?thesis
  proof (rule summarisesI [OF ok snds])
    fix h r assume hr: "(h, r) \<in> set qs"
    show "folds h r"
    proof (cases "(h, r) \<in> set ps")
      case False
      then obtain k where k: "k \<in> set keys" "h = concat (map fst (share k))" "r = tier_row bs (k, map snd (share k))"
        using hr by (auto simp: qs_def new_def)
      have "folds x y \<and> tier_where bs (now - th) y \<and> bucket_of bs y = k" if "(x, y) \<in> set (share k)" for x y
        using that folds by (auto simp: share_def aged_def W_def)
      moreover have "share k \<noteq> []" using k(1) by (auto simp: keys_def rows share_def filter_empty_conv)
      ultimately show ?thesis unfolding k(2) k(3) using folds_tier_row [OF tier] by blast
    qed (rule folds)
  qed (use sub rest in \<open>simp_all only: same\<close>)
qed

lemma summarises_consolidate:
  assumes "summarises since hist tbl"
  shows "summarises since hist (consolidate now tbl)"
  unfolding consolidate_def by (rule fold_keeps) (auto intro: summarises_tier assms)

text \<open>The row that stands for a sample starts less than six hours before it.\<close>

lemma stands_for_start:
  assumes "stands_for TIER_TRANSITIONS r' r" and "row_ok r"
  shows "the (unix r) - 21600 < the (unix r') \<and> the (unix r') \<le> the (unix r)"
proof -
  obtain t where t: "unix r = Some t" "0 \<le> t" using assms(2) by (rule row_okE) (simp add: time_ok_def)
  have "unix r' = Some t \<or> (\<exists>(bs, th) \<in> set TIER_TRANSITIONS. unix r' = Some (bucket_start bs t))"
    using stands_for_unix [OF assms(1)] t(1) by (auto simp: bucket_of_def)
  then show ?thesis
  proof
    assume "\<exists>(bs, th) \<in> set TIER_TRANSITIONS. unix r' = Some (bucket_start bs t)"
    then obtain bs th where b: "(bs, th) \<in> set TIER_TRANSITIONS" "unix r' = Some (bucket_start bs t)" by auto
    then have "bs \<le> 21600" "0 < bs" by (auto simp: TIER_TRANSITIONS_def)
    then show ?thesis using bucket_start_bounds(2,3) [OF t(2), of bs] b(2) t(1) by simp
  qed (use t in simp)
qed

text \<open>Rows are lost only if all their samples are old.\<close>

lemma summarises_filter:
  assumes "summarises since hist tbl" and keeps: "\<And>r. row_ok r \<Longrightarrow> since \<le> the (unix r) \<Longrightarrow> P r"
  shows "summarises since hist (filter P tbl)"
  using assms(1)
proof (rule summarisesE)
  fix ps
  assume ok: "list_all row_ok hist" and tbl: "map snd ps = tbl" and folds: "\<And>h r. (h, r) \<in> set ps \<Longrightarrow> folds h r"
    and sub: "mset (concat (map fst ps)) \<subseteq># mset hist"
    and rest: "\<And>r. r \<in># mset hist - mset (concat (map fst ps)) \<Longrightarrow> the (unix r) < since + 21600"
  define kept where "kept = mset (concat (map fst (filter (P \<circ> snd) ps)))"
  define gone where "gone = mset (concat (map fst (filter (\<lambda>p. \<not> (P \<circ> snd) p) ps)))"
  have split: "gone + kept = mset (concat (map fst ps))"
    unfolding gone_def kept_def by (rule mset_concat_filter)
  have old: "the (unix x) < since + 21600" if x: "x \<in># gone" for x
  proof -
    obtain h r where hr: "(h, r) \<in> set ps" "\<not> P r" "x \<in> set h" using x by (force simp: gone_def)
    have "x \<in># mset (concat (map fst ps))" using hr by force
    then have "x \<in># mset hist" using sub by (rule mset_subset_eqD [rotated])
    then have "row_ok x" using ok by (simp add: list_all_iff)
    moreover have "row_ok r" using folds_ok [OF folds [OF hr(1)]] by simp
    ultimately show ?thesis
      using stands_for_start [OF folds_stands_for [OF folds [OF hr(1)] hr(3)]] keeps [of r] hr(2) by force
  qed
  show ?thesis
  proof (rule summarisesI [OF ok])
    show "map snd (filter (P \<circ> snd) ps) = filter P tbl" by (simp add: filter_map flip: tbl)
    show "mset (concat (map fst (filter (P \<circ> snd) ps))) \<subseteq># mset hist"
      using sub unfolding split [symmetric] kept_def [symmetric] by (rule subset_mset.trans [rotated]) simp
    show "the (unix x) < since + 21600" if x: "x \<in># mset hist - mset (concat (map fst (filter (P \<circ> snd) ps)))" for x
    proof (cases "x \<in># gone")
      case False
      then have "x \<in># mset hist - mset (concat (map fst ps))"
        using x in_left_diff unfolding split [symmetric] kept_def [symmetric] by fastforce
      then show ?thesis by (rule rest)
    qed (rule old)
  qed (use folds in auto)
qed

lemma summarises_prune:
  assumes "summarises since hist (metrics_tbl db)"
    and "time_ok (now - days * 86400)" and "now - days * 86400 \<le> since"
  shows "summarises since hist (metrics_tbl (snd (db_prune st1 st2 now days db)))"
proof -
  define P where "P = (\<lambda>r :: row. \<not> timestamp r < iso_of (now - days * 86400))"
  have keeps: "P r" if "row_ok r" "since \<le> the (unix r)" for r
    using that(1) by (rule row_okE) (use assms(2,3) that(2) in \<open>auto simp: P_def iso.fmt_less\<close>)
  have "summarises since hist (filter P (metrics_tbl db))"
    using assms(1) keeps by (rule summarises_filter)
  moreover have "metrics_tbl (snd (db_prune st1 st2 now days db)) \<in> {metrics_tbl db, filter P (metrics_tbl db)}"
    by (simp add: db_prune_def prune_metrics_def prune_alerts_def iso_cutoff_def Let_def P_def)
  ultimately show ?thesis using assms(1) by auto
qed

lemma row_ok_unix: "row_ok r \<Longrightarrow> \<exists>t. unix r = Some t \<and> 0 \<le> t"
  by (erule row_okE) (simp add: time_ok_def)

subsection \<open>The samples of a run\<close>

definition cycle_samples :: "cycle_env \<Rightarrow> db_t \<Rightarrow> metrics_t \<Rightarrow> row list" where
  "cycle_samples c d m =
     (if step_with_retry (ins_step c) = ST_DONE then [metric_row (ins_now c) (interval_sec d) m] else [])"

definition turn_samples :: "int \<Rightarrow> db_t \<Rightarrow> wake \<Rightarrow> serve_state \<Rightarrow> row list" where
  "turn_samples lmax d w s =
     (if stop_before w \<or> stop_after w \<or> slept w \<noteq> 0 then []
      else case metrics_collect lmax (seen w) (snapshots s) (sampled s) of (rc, st, m) \<Rightarrow>
        if rc \<noteq> 0 then [] else cycle_samples (cyc w) d m)"

fun serve_samples :: "int \<Rightarrow> config_t \<Rightarrow> int \<Rightarrow> db_t \<Rightarrow> wake list \<Rightarrow> serve_state \<Rightarrow> row list" where
  "serve_samples lmax cfg days d [] s = []"
| "serve_samples lmax cfg days d (w # ws) s =
     turn_samples lmax d w s @
     (if stop_before w \<or> stop_after w then []
      else serve_samples lmax cfg days d ws (fst (serve_turn lmax cfg days d w s)))"

text \<open>All that one run of \<open>serve\<close> or of \<open>collect\<close> inserts, which is nothing when it ends early.\<close>

definition serve_inserts :: "host_env \<Rightarrow> serve_env \<Rightarrow> config_t \<Rightarrow> path_state \<Rightarrow> row list" where
  "serve_inserts h e cfg before =
     (case db_open (open_env h) before (interval_seconds cfg) of (rc, d, p) \<Rightarrow>
        if rc \<noteq> 0 \<or> fst (db_open_readonly (ro_ok e) p) \<noteq> 0 \<or>
           fst (http_start (long_max h) (ulong_max h) (http_env e)) \<noteq> 0 then []
        else serve_samples (long_max h) cfg (retention_days (long_max h) cfg) d (wakes e)
               (serve_start h e cfg (stored p)))"

definition collect_inserts ::
    "host_env \<Rightarrow> environment \<Rightarrow> environment \<Rightarrow> cycle_env \<Rightarrow> config_t \<Rightarrow> path_state \<Rightarrow> row list" where
  "collect_inserts h env1 env2 c cfg before =
     (case db_open (open_env h) before (interval_seconds cfg) of (rc, d, p) \<Rightarrow>
        if rc \<noteq> 0 then []
        else case metrics_collect (long_max h) env1 statics_zero (garbage h) of (rc1, st1, m1) \<Rightarrow>
          if rc1 \<noteq> 0 then []
          else case metrics_collect (long_max h) env2 st1 m1 of (rc2, st2, m2) \<Rightarrow>
            if rc2 \<noteq> 0 then [] else cycle_samples c d m2)"

text \<open>The life of the databases of a host: runs one after the other, each with what it meets.\<close>

datatype daemon_run =
    Run_serve host_env serve_env "string option"
  | Run_collect host_env environment environment cycle_env "string option"

fun run_files :: "daemon_run \<Rightarrow> files \<Rightarrow> files" where
  "run_files (Run_serve h e arg) fl = snd (run_serve h e arg fl)"
| "run_files (Run_collect h env1 env2 c arg) fl = snd (run_collect h env1 env2 c arg fl)"

text \<open>What a run inserts into the database at \<open>P\<close>.\<close>

definition for_path :: "string \<Rightarrow> config_t option \<Rightarrow> (config_t \<Rightarrow> row list) \<Rightarrow> row list" where
  "for_path P cfg inserts = (case cfg of None \<Rightarrow> [] | Some cfg \<Rightarrow> if db_path cfg = P then inserts cfg else [])"

fun run_inserts :: "string \<Rightarrow> daemon_run \<Rightarrow> files \<Rightarrow> row list" where
  "run_inserts P (Run_serve h e arg) fl =
     for_path P (open_config h arg) (\<lambda>cfg. serve_inserts h e cfg (fl P))"
| "run_inserts P (Run_collect h env1 env2 c arg) fl =
     for_path P (open_config h arg) (\<lambda>cfg. collect_inserts h env1 env2 c cfg (fl P))"

fun life_files :: "daemon_run list \<Rightarrow> files \<Rightarrow> files" where
  "life_files [] fl = fl"
| "life_files (r # rs) fl = life_files rs (run_files r fl)"

fun life_samples :: "string \<Rightarrow> daemon_run list \<Rightarrow> files \<Rightarrow> row list" where
  "life_samples P [] fl = []"
| "life_samples P (r # rs) fl = run_inserts P r fl @ life_samples P rs (run_files r fl)"

subsection \<open>A run keeps its history\<close>

lemma watch_metrics [simp]: "metrics_tbl (watch c cfg db) = metrics_tbl db"
  by (simp add: watch_def alerts_evaluate_def split: prod.split option.split)

text \<open>The instants of a cycle: nothing is pruned that is not older than \<open>since\<close>.\<close>

definition cycle_within :: "int \<Rightarrow> int \<Rightarrow> cycle_env \<Rightarrow> bool" where
  "cycle_within since days c =
     (time_ok (ins_now c) \<and> time_ok (prune_now c - days * 86400) \<and> prune_now c - days * 86400 \<le> since)"

lemma store_cycle_summarises:
  assumes "summarises since hist (metrics_tbl db)" and "cycle_within since days c"
  shows "summarises since (hist @ cycle_samples c d m) (metrics_tbl (snd (store_cycle c cfg days d m db)))"
proof (cases "step_with_retry (ins_step c) = ST_DONE")
  case False
  then show ?thesis using assms(1) by (simp add: store_cycle_def db_insert_def cycle_samples_def)
next
  case True
  define r where "r = metric_row (ins_now c) (interval_sec d) m"
  define db1 where "db1 = db\<lparr>metrics_tbl := metrics_tbl db @ [r]\<rparr>"
  define db2 where "db2 = snd (db_consolidate (cons_ok c) (cons_now c) d db1)"
  have "row_ok r"
    using assms(2) by (intro row_okI [of "ins_now c"]) (simp_all add: r_def metric_row_def cycle_within_def)
  then have 1: "summarises since (hist @ [r]) (metrics_tbl db1)"
    using summarises_insert [OF assms(1)] by (simp add: db1_def)
  then have "summarises since (hist @ [r]) (metrics_tbl db2)"
    using summarises_consolidate by (simp add: db2_def db_consolidate_metrics)
  then have "summarises since (hist @ [r]) (metrics_tbl (keep_house c days d db1))"
    using assms(2) by (simp add: keep_house_def db2_def [symmetric] cycle_within_def summarises_prune)
  then show ?thesis
    using True by (simp add: store_cycle_def db_insert_def cycle_samples_def db1_def r_def)
qed

lemma serve_turn_summarises:
  assumes "summarises since hist (metrics_tbl (db_now s))" and "cycle_within since days (cyc w)"
  shows "summarises since (hist @ turn_samples lmax d w s) (metrics_tbl (db_now (fst (serve_turn lmax cfg days d w s))))"
  using assms(1) store_cycle_summarises [OF assms]
  by (simp add: serve_turn_def turn_samples_def Let_def split: prod.split)

lemma serve_loop_summarises:
  assumes "summarises since hist (metrics_tbl (db_now s))" and "list_all (\<lambda>w. cycle_within since days (cyc w)) ws"
  shows "summarises since (hist @ serve_samples lmax cfg days d ws s) (metrics_tbl (db_now (serve_loop lmax cfg days d ws s)))"
  using assms
proof (induction ws arbitrary: hist s)
  case (Cons w ws)
  then have "summarises since (hist @ turn_samples lmax d w s) (metrics_tbl (db_now (fst (serve_turn lmax cfg days d w s))))"
    by (simp add: serve_turn_summarises)
  from this Cons.IH [OF this] Cons.prems(2) show ?case
    unfolding serve_loop_Cons by simp
qed simp

text \<open>Opening a database leaves its rows alone, and a file that is opened is a file.\<close>

lemma db_open_stored:
  assumes "db_open res before interval = (rc, d, p)"
  shows "stored p = stored before \<and> (rc = 0 \<longrightarrow> interval_sec d = interval \<and> (\<exists>f. p = File f))"
  using assms
  by (cases before)
    (auto simp: db_open_def create_private_def open_new_def open_existing_def prepare_statements_def stored_def
      stamp_def create_schema_def set_wal_def empty_file_def Let_def split: if_splits option.splits)

text \<open>No run prunes what is not older than \<open>since\<close>.\<close>

fun run_within :: "int \<Rightarrow> daemon_run \<Rightarrow> bool" where
  "run_within since (Run_serve h e arg) =
     (case open_config h arg of
        None \<Rightarrow> True
      | Some cfg \<Rightarrow> list_all (\<lambda>w. cycle_within since (retention_days (long_max h) cfg) (cyc w)) (wakes e))"
| "run_within since (Run_collect h env1 env2 c arg) =
     (case open_config h arg of
        None \<Rightarrow> True | Some cfg \<Rightarrow> cycle_within since (retention_days (long_max h) cfg) c)"

lemma run_serve_summarises:
  assumes "summarises since hist (metrics_tbl (stored (fl P)))" and "run_within since (Run_serve h e arg)"
  shows "summarises since (hist @ run_inserts P (Run_serve h e arg) fl)
    (metrics_tbl (stored (run_files (Run_serve h e arg) fl P)))"
proof (cases "open_config h arg")
  case None
  then show ?thesis using assms(1) by (simp add: run_serve_def for_path_def)
next
  case (Some cfg)
  obtain rc d p where o: "db_open (open_env h) (fl (db_path cfg)) (interval_seconds cfg) = (rc, d, p)"
    by (cases "db_open (open_env h) (fl (db_path cfg)) (interval_seconds cfg)")
  note p = db_open_stored [OF o]
  define s where "s = serve_start h e cfg (stored p)"
  have s: "db_now s = stored p" by (simp add: s_def serve_start_def split: prod.split)
  show ?thesis
  proof (cases "db_path cfg = P")
    case False
    then show ?thesis using Some o assms(1) by (simp add: run_serve_def for_path_def Let_def)
  next
    case True
    have 0: "summarises since hist (metrics_tbl (db_now s))" using assms(1) True p s by simp
    show ?thesis
    proof (cases "rc \<noteq> 0 \<or> fst (db_open_readonly (ro_ok e) p) \<noteq> 0 \<or> fst (http_start (long_max h) (ulong_max h) (http_env e)) \<noteq> 0")
      case True
      then show ?thesis
        using Some o assms(1) p \<open>db_path cfg = P\<close> by (auto simp: run_serve_def for_path_def serve_inserts_def Let_def)
    next
      case False
      then have "stored (store db p) = db" for db using p by (auto simp: stored_store)
      then show ?thesis
        using Some o False \<open>db_path cfg = P\<close> assms(2) serve_loop_summarises [OF 0, of "retention_days (long_max h) cfg" "wakes e"]
        by (simp add: run_serve_def for_path_def serve_inserts_def s_def Let_def)
    qed
  qed
qed

lemma run_collect_summarises:
  assumes "summarises since hist (metrics_tbl (stored (fl P)))" and "run_within since (Run_collect h env1 env2 c arg)"
  shows "summarises since (hist @ run_inserts P (Run_collect h env1 env2 c arg) fl)
    (metrics_tbl (stored (run_files (Run_collect h env1 env2 c arg) fl P)))"
proof (cases "open_config h arg")
  case None
  then show ?thesis using assms(1) by (simp add: run_collect_def for_path_def)
next
  case (Some cfg)
  obtain rc d p where o: "db_open (open_env h) (fl (db_path cfg)) (interval_seconds cfg) = (rc, d, p)"
    by (cases "db_open (open_env h) (fl (db_path cfg)) (interval_seconds cfg)")
  note p = db_open_stored [OF o]
  obtain rc1 st1 m1 where 1: "metrics_collect (long_max h) env1 statics_zero (garbage h) = (rc1, st1, m1)"
    by (cases "metrics_collect (long_max h) env1 statics_zero (garbage h)")
  obtain rc2 st2 m2 where 2: "metrics_collect (long_max h) env2 st1 m1 = (rc2, st2, m2)"
    by (cases "metrics_collect (long_max h) env2 st1 m1")
  show ?thesis
  proof (cases "db_path cfg = P \<and> rc = 0 \<and> rc1 = 0 \<and> rc2 = 0")
    case False
    then show ?thesis
      using Some o 1 2 p assms(1)
      by (auto simp: run_collect_def for_path_def collect_inserts_def Let_def split: prod.split)
  next
    case True
    then have "summarises since hist (metrics_tbl (stored p))" and store: "stored (store db p) = db" for db
      using assms(1) p by (auto simp: stored_store)
    then show ?thesis
      using Some o 1 2 True assms(2) store_cycle_summarises [of since hist "stored p" "retention_days (long_max h) cfg" c]
      by (simp add: run_collect_def for_path_def collect_inserts_def Let_def split: prod.split)
        (metis snd_conv)
  qed
qed

lemma life_summarises:
  assumes "summarises since hist (metrics_tbl (stored (fl P)))" and "list_all (run_within since) runs"
  shows "summarises since (hist @ life_samples P runs fl) (metrics_tbl (stored (life_files runs fl P)))"
  using assms
proof (induction runs arbitrary: hist fl)
  case (Cons r runs)
  then have "summarises since (hist @ run_inserts P r fl) (metrics_tbl (stored (run_files r fl P)))"
    using run_serve_summarises run_collect_summarises by (cases r) auto
  then have "summarises since ((hist @ run_inserts P r fl) @ life_samples P runs (run_files r fl))
      (metrics_tbl (stored (life_files runs (run_files r fl) P)))"
    by (rule Cons.IH) (use Cons.prems(2) in simp)
  then show ?case by simp
qed simp

subsection \<open>What a range query shows\<close>

text \<open>The instant a row is shown at.\<close>

definition shown_at :: "int \<Rightarrow> int \<Rightarrow> int" where
  "shown_at bs t = (if bs \<le> 0 then t else bucket_start bs t)"

lemma shown_at_bounds:
  assumes "0 \<le> t" and "0 \<le> bs"
  shows "shown_at bs t \<le> t \<and> t - bs \<le> shown_at bs t"
  using assms bucket_start_bounds(2,3) [of t bs] by (cases "bs = 0") (auto simp: shown_at_def)

lemma query_range_times:
  assumes "list_all row_ok (metrics_tbl db)" and "time_ok (now - window)"
    and "db_query_range True now window bs db = Some rows"
  shows "set (map r_unix_time rows) =
    {shown_at bs t | t r. r \<in> set (metrics_tbl db) \<and> unix r = Some t \<and> now - window \<le> t}"
proof -
  define sel where "sel = in_range (iso_cutoff now window) (metrics_tbl db)"
  have sel: "sel = filter (\<lambda>r. now - window \<le> the (unix r)) (metrics_tbl db)"
    unfolding sel_def iso_cutoff_def by (rule in_range_instants [OF assms(1,2)])
  have u: "\<exists>t. unix r = Some t" if "r \<in> set sel" for r
    using that assms(1) by (auto simp: sel list_all_iff elim!: row_okE)
  have "set (map r_unix_time rows) = (\<lambda>r. shown_at bs (the (unix r))) ` set sel"
  proof (cases "bs \<le> 0")
    case True
    then have "rows = map read_row (map select_raw (sort_key unix sel))"
      using assms(3) by (simp add: db_query_range_def query_raw_def sel_def)
    then show ?thesis
      using True u by (force simp: image_image shown_at_def select_raw_def read_row_def Let_def intro!: image_cong)
  next
    case False
    then have rows: "rows = map read_row (map select_bucket (group_by (bucket_of bs) sel))"
      using assms(3) by (simp add: db_query_range_def query_buckets_def sel_def)
    have "map r_unix_time rows = map (\<lambda>k. case k of None \<Rightarrow> 0 | Some t \<Rightarrow> t) (map fst (group_by (bucket_of bs) sel))"
      unfolding rows map_map by (rule map_cong [OF refl]) (simp add: select_bucket_def)
    then have "set (map r_unix_time rows) = (\<lambda>r. case bucket_of bs r of None \<Rightarrow> 0 | Some t \<Rightarrow> t) ` set sel"
      by (simp only: map_fst_group_by set_map set_sort set_remdups image_image)
    also have "\<dots> = (\<lambda>r. shown_at bs (the (unix r))) ` set sel"
      using u False by (force simp: bucket_of_def shown_at_def intro!: image_cong)
    finally show ?thesis .
  qed
  also have "\<dots> = {shown_at bs t | t r. r \<in> set (metrics_tbl db) \<and> unix r = Some t \<and> now - window \<le> t}"
    using u by (force simp: sel)
  finally show ?thesis .
qed

subsection \<open>The property\<close>

lemma life_from_nothing:
  assumes "fl P = Missing" and "list_all (run_within since) runs"
  shows "summarises since (life_samples P runs fl) (metrics_tbl (stored (life_files runs fl P)))"
proof -
  have "summarises since [] (metrics_tbl (stored (fl P)))"
    using assms(1) by (simp add: stored_def empty_db_def)
  from life_summarises [of since "[]" fl P, OF this assms(2)] show ?thesis by simp
qed

text \<open>C2: The database loses and invents nothing over its whole life. Whatever runs of \<open>serve\<close> and
  \<open>collect\<close> follow each other on a host, with whatever failures, signals and jumps of the clock, the
  table that was started from nothing is made of the samples they inserted: each sample is in one
  row, its own or the average of the rows of its bucket, and in no second one; each row is made of
  samples; and a sample that is in no row is older than the retention, give or take six hours.
  The averages are those of exact arithmetic, where SQLite rounds its doubles.\<close>

theorem life_keeps_samples:
  assumes "fl P = Missing" and "list_all (run_within since) runs"
  shows "summarises since (life_samples P runs fl) (metrics_tbl (stored (life_files runs fl P)))"
  using assms by (rule life_from_nothing)

text \<open>C14: The charts show the whole history and nothing else. After any such life, whatever bucket size a
  range query over the table uses, each sample that is within the window and the retention (give or
  take six hours) has a point at most one bucket and six hours before it, and each point has a sample
  of the window in that distance after it.\<close>

theorem life_shown:
  assumes "fl P = Missing" and "list_all (run_within since) runs"
    and "time_ok (now - window)" and "0 \<le> bs"
    and "db_query_range True now window bs (stored (life_files runs fl P)) = Some rows"
  shows "(\<forall>r \<in> set (life_samples P runs fl). max since (now - window) + 21600 \<le> the (unix r) \<longrightarrow>
      (\<exists>row \<in> set rows. the (unix r) - bs - 21600 < r_unix_time row \<and> r_unix_time row \<le> the (unix r))) \<and>
    (\<forall>row \<in> set rows. \<exists>r \<in> set (life_samples P runs fl). now - window \<le> the (unix r) \<and>
      r_unix_time row \<le> the (unix r) \<and> the (unix r) < r_unix_time row + bs + 21600)"
proof -
  define hist where "hist = life_samples P runs fl"
  define tbl where "tbl = metrics_tbl (stored (life_files runs fl P))"
  have sum: "summarises since hist tbl"
    using life_from_nothing [of fl P since runs, OF assms(1,2)] by (simp add: hist_def tbl_def)
  note ok = summarisesD(1,2) [OF sum]
  have times: "r_unix_time ` set rows = {shown_at bs t | t r. r \<in> set tbl \<and> unix r = Some t \<and> now - window \<le> t}"
    using query_range_times [OF _ assms(3,5)] ok(2) by (simp add: tbl_def)
  have near: "\<exists>t t'. unix r = Some t \<and> unix r' = Some t' \<and> 0 \<le> t' \<and> t' \<le> t \<and> t - 21600 < t'"
    if "r \<in> set hist" "r' \<in> set tbl" "stands_for TIER_TRANSITIONS r' r" for r r'
    using stands_for_start [OF that(3)] that(1,2) ok by (simp add: list_all_iff) (metis option.sel row_ok_unix)
  have "\<exists>row \<in> set rows. the (unix r) - bs - 21600 < r_unix_time row \<and> r_unix_time row \<le> the (unix r)"
    if r: "r \<in> set hist" "max since (now - window) + 21600 \<le> the (unix r)" for r
  proof -
    have "since + 21600 \<le> the (unix r)" using r(2) by simp
    then obtain r' where r': "r' \<in> set tbl" "stands_for TIER_TRANSITIONS r' r"
      using summarisesD(3) [OF sum r(1)] by blast
    obtain t t' where t: "unix r = Some t" "unix r' = Some t'" "0 \<le> t'" "t' \<le> t" "t - 21600 < t'"
      using near [OF r(1) r'] by blast
    then have "now - window \<le> t'" using r(2) by simp
    then have "shown_at bs t' \<in> r_unix_time ` set rows" unfolding times using r'(1) t(2) by blast
    then obtain row where "row \<in> set rows" "r_unix_time row = shown_at bs t'" by auto
    then show ?thesis using t shown_at_bounds [OF t(3) assms(4)] by (intro bexI [of _ row]) auto
  qed
  moreover have "\<exists>r \<in> set hist. now - window \<le> the (unix r) \<and> r_unix_time row \<le> the (unix r) \<and>
      the (unix r) < r_unix_time row + bs + 21600" if row: "row \<in> set rows" for row
  proof -
    have "r_unix_time row \<in> r_unix_time ` set rows" using row by simp
    then obtain r' t' where r': "r' \<in> set tbl" "unix r' = Some t'" "now - window \<le> t'" "r_unix_time row = shown_at bs t'"
      unfolding times by auto
    obtain r where r: "r \<in> set hist" "stands_for TIER_TRANSITIONS r' r"
      using summarisesD(4) [OF sum r'(1)] by blast
    obtain t where t: "unix r = Some t" "0 \<le> t'" "t' \<le> t" "t - 21600 < t'"
      using near [OF r(1) r'(1) r(2)] r'(2) by auto
    then show ?thesis using r(1) r' shown_at_bounds [OF t(2) assms(4)] by (intro bexI [of _ r]) auto
  qed
  ultimately show ?thesis unfolding hist_def by blast
qed

definition sample_life :: "daemon_run list" where
  "sample_life =
     [Run_collect sample_host sample_proc sample_proc (sample_cycle 400000000) None,
      Run_serve sample_host sample_serve None]"

lemma sample_config: "open_config sample_host None = Some config_defaults"
  by (simp add: open_config_def config_open_def sample_host_def)

lemma sample_inserts:
  "\<exists>iv m. run_inserts ''./metrics.db'' (hd sample_life) (\<lambda>_. Missing) = [metric_row 400000000 iv m]"
proof -
  obtain st1 m1 where 1: "metrics_collect (long_max sample_host) sample_proc statics_zero (garbage sample_host) = (0, st1, m1)"
    using sample_collect by blast
  obtain st2 m2 where 2: "metrics_collect (long_max sample_host) sample_proc st1 m1 = (0, st2, m2)"
    using sample_collect by blast
  have "fst (db_open (open_env sample_host) Missing (interval_seconds config_defaults)) = 0"
    by (simp add: sample_host_def db_open_def create_private_def open_new_def prepare_statements_def all_ok_def
        create_schema_def stamp_def set_wal_def empty_file_def Let_def)
  moreover have "db_path config_defaults = ''./metrics.db''" by (simp add: config_defaults_def)
  ultimately show ?thesis
    by (auto simp: sample_life_def for_path_def sample_config collect_inserts_def 1 2 cycle_samples_def sample_cycle_def
        step_with_retry_eq split: prod.split)
qed

lemma sample_recorded:
  "\<exists>iv m. metric_row 400000000 iv m \<in> set (life_samples ''./metrics.db'' sample_life (\<lambda>_. Missing))"
proof -
  obtain iv m where "run_inserts ''./metrics.db'' (hd sample_life) (\<lambda>_. Missing) = [metric_row 400000000 iv m]"
    using sample_inserts by blast
  then have "metric_row 400000000 iv m \<in> set (life_samples ''./metrics.db'' sample_life (\<lambda>_. Missing))"
    by (simp add: sample_life_def del: run_inserts.simps)
  then show ?thesis by blast
qed

lemma sample_days: "retention_days (long_max sample_host) config_defaults = 90"
  by (simp add: retention_days_def longest_days_def range_to_days_def config_defaults_def sample_host_def
      strtol_def sign_split_def c_isspace_def c_isdigit_def digit_val_def to_signed_def Let_def)

lemma sample_within: "list_all (run_within 392225000) sample_life"
  by (simp add: sample_life_def sample_config sample_days cycle_within_def sample_cycle_def sample_serve_def sample_wake_def
      time_ok_def)

text \<open>Three samples, two of them in one bucket of five minutes, and a consolidation five days later.\<close>

definition fold_serve :: serve_env where
  "fold_serve = sample_serve\<lparr>wakes := [sample_wake 400000000, sample_wake 400000060,
     (sample_wake 400500000)\<lparr>cyc := (sample_cycle 400500000)\<lparr>cons_ok := True\<rparr>\<rparr>]\<rparr>"

lemma turn_stores:
  assumes "seen w = sample_proc" and "\<not> stop_before w" and "\<not> stop_after w" and "slept w = 0"
    and "cyc w = (sample_cycle t)\<lparr>cons_ok := b\<rparr>" and "sql_consolidate d" and "0 \<le> t" and "t < 2 ^ 40"
  shows "\<exists>m. turn_samples lmax d w s = [metric_row t (interval_sec d) m] \<and>
    metrics_tbl (db_now (fst (serve_turn lmax cfg days d w s))) =
      (if b then consolidate t else id) (metrics_tbl (db_now s) @ [metric_row t (interval_sec d) m])"
proof -
  obtain st m where mc: "metrics_collect lmax sample_proc (snapshots s) (sampled s) = (0, st, m)"
    using sample_collect by blast
  obtain sql where built: "build_consolidate_sql CONSOLIDATE_SQL_SIZE t = Some sql"
    using assms(7,8) by (simp add: build_consolidate_sql_fits)
  show ?thesis
    using assms(1-6) mc built
    by (intro exI [of _ m]) (simp add: turn_samples_def serve_turn_def store_cycle_def cycle_samples_def sample_cycle_def db_insert_def
      step_with_retry_eq keep_house_def db_consolidate_def db_prune_def prune_metrics_def prune_alerts_def Let_def)
qed

lemma fold_three:
  fixes m1 m2 m3 :: metrics_t
  defines "h1 \<equiv> metric_row 400000000 60 m1" and "h2 \<equiv> metric_row 400000060 60 m2"
    and "h3 \<equiv> metric_row 400500000 60 m3"
  shows "consolidate 400500000 [h1, h2, h3] = [h3, tier_row 300 (Some 399999900, [h1, h2])]"
proof -
  have u: "unix h1 = Some 400000000" "unix h2 = Some 400000060" "unix h3 = Some 400500000"
    by (rule unix_iso; simp add: h1_def h2_def h3_def metric_row_def time_ok_def)+
  have b: "bucket_sec h1 = Some 60" "bucket_sec h2 = Some 60" "bucket_sec h3 = Some 60"
    by (simp_all add: h1_def h2_def h3_def metric_row_def)
  have "row_ok h1" by (rule row_okI [of 400000000]) (simp_all add: h1_def metric_row_def time_ok_def)
  then have r: "unix (tier_row 300 (Some 399999900, [h1, h2])) = Some 399999900"
    by (rule tier_row_unix) (simp_all add: bucket_of_def u bucket_start_def c_div_nonneg)
  show ?thesis
    by (simp add: consolidate_def TIER_TRANSITIONS_def tier_pass_eq tier_rows_def tier_where_def aged_def finer_def
        bucket_of_def bucket_start_def c_div_nonneg group_by_def u b r)
qed

lemma fresh_open:
  "\<exists>d p. db_open (open_env sample_host) Missing (interval_seconds config_defaults) = (0, d, p) \<and>
     sql_consolidate d \<and> interval_sec d = 60 \<and> (\<exists>f. p = File f) \<and> stored p = empty_db"
  by (auto simp: sample_host_def db_open_def create_private_def open_new_def prepare_statements_def all_ok_def
      create_schema_def stamp_def set_wal_def empty_file_def config_defaults_def stored_def Let_def)

lemma three_turns:
  assumes d: "sql_consolidate d" "interval_sec d = 60" and s0: "metrics_tbl (db_now s0) = []"
  shows "\<exists>m1 m2 m3. let h1 = metric_row 400000000 60 m1; h2 = metric_row 400000060 60 m2; h3 = metric_row 400500000 60 m3 in
    serve_samples lmax cfg days d (wakes fold_serve) s0 = [h1, h2, h3] \<and>
    metrics_tbl (db_now (serve_loop lmax cfg days d (wakes fold_serve) s0)) = consolidate 400500000 [h1, h2, h3]"
proof -
  define turn where "turn w s = fst (serve_turn lmax cfg days d w s)" for w s
  define w1 where "w1 = sample_wake 400000000"
  define w2 where "w2 = sample_wake 400000060"
  define w3 where "w3 = (sample_wake 400500000)\<lparr>cyc := (sample_cycle 400500000)\<lparr>cons_ok := True\<rparr>\<rparr>"
  note w = w1_def w2_def w3_def sample_wake_def
  have same: "sample_cycle t = (sample_cycle t)\<lparr>cons_ok := False\<rparr>" for t by (simp add: sample_cycle_def)
  obtain m1 where 1: "turn_samples lmax d w1 s0 = [metric_row 400000000 60 m1]"
    "metrics_tbl (db_now (turn w1 s0)) = [metric_row 400000000 60 m1]"
    using turn_stores [of w1 False 400000000 d lmax s0 cfg days] d same s0 by (auto simp: w turn_def)
  obtain m2 where 2: "turn_samples lmax d w2 (turn w1 s0) = [metric_row 400000060 60 m2]"
    "metrics_tbl (db_now (turn w2 (turn w1 s0))) = [metric_row 400000000 60 m1, metric_row 400000060 60 m2]"
    using turn_stores [of w2 False 400000060 d lmax "turn w1 s0" cfg days] d same 1 by (auto simp: w turn_def)
  obtain m3 where 3: "turn_samples lmax d w3 (turn w2 (turn w1 s0)) = [metric_row 400500000 60 m3]"
    "metrics_tbl (db_now (turn w3 (turn w2 (turn w1 s0)))) =
       consolidate 400500000 [metric_row 400000000 60 m1, metric_row 400000060 60 m2, metric_row 400500000 60 m3]"
    using turn_stores [of w3 True 400500000 d lmax "turn w2 (turn w1 s0)" cfg days] d 2 by (auto simp: w turn_def)
  have wakes: "wakes fold_serve = [w1, w2, w3]" by (simp add: fold_serve_def w)
  have run: "\<not> stop_before w1" "\<not> stop_after w1" "\<not> stop_before w2" "\<not> stop_after w2" "\<not> stop_before w3" "\<not> stop_after w3"
    by (simp_all add: w)
  have "serve_loop lmax cfg days d [w1, w2, w3] s0 = turn w3 (turn w2 (turn w1 s0))"
    by (simp only: serve_loop_Cons run turn_def simp_thms if_False serve_loop.simps)
  then show ?thesis
    using 1(1) 2(1) 3 run unfolding wakes Let_def
    by (intro exI [of _ m1] exI [of _ m2] exI [of _ m3]) (simp add: turn_def del: serve_loop.simps)
qed

theorem life_keeps_samples_witness:
  "\<exists>h1 h2 h3 r. life_samples ''./metrics.db'' [Run_serve sample_host fold_serve None] (\<lambda>_. Missing) = [h1, h2, h3] \<and>
     metrics_tbl (stored (life_files [Run_serve sample_host fold_serve None] (\<lambda>_. Missing) ''./metrics.db'')) = [h3, r] \<and>
     bucket_sec r = Some 300 \<and> summarises 392724000 [h1, h2, h3] [h3, r]"
proof -
  obtain d p where o: "db_open (open_env sample_host) Missing (interval_seconds config_defaults) = (0, d, p)"
    and d: "sql_consolidate d" "interval_sec d = 60" and p: "\<exists>f. p = File f" "stored p = empty_db"
    using fresh_open by blast
  have path: "db_path config_defaults = ''./metrics.db''" by (simp add: config_defaults_def)
  have up: "fst (db_open_readonly (ro_ok fold_serve) p) = 0" "fst (http_start l u (http_env fold_serve)) = 0" for l u
    using p(1) by (auto simp: db_open_readonly_def http_start_def fold_serve_def sample_serve_def)
  have s0: "metrics_tbl (db_now (serve_start sample_host fold_serve config_defaults (stored p))) = []"
    using p(2) by (simp add: serve_start_def empty_db_def split: prod.split)
  obtain m1 m2 m3 where m: "let h1 = metric_row 400000000 60 m1; h2 = metric_row 400000060 60 m2; h3 = metric_row 400500000 60 m3 in
    serve_samples (long_max sample_host) config_defaults 90 d (wakes fold_serve)
      (serve_start sample_host fold_serve config_defaults (stored p)) = [h1, h2, h3] \<and>
    metrics_tbl (db_now (serve_loop (long_max sample_host) config_defaults 90 d (wakes fold_serve)
      (serve_start sample_host fold_serve config_defaults (stored p)))) = consolidate 400500000 [h1, h2, h3]"
    using three_turns [OF d s0] by blast
  define h1 where "h1 = metric_row 400000000 60 m1"
  define h2 where "h2 = metric_row 400000060 60 m2"
  define h3 where "h3 = metric_row 400500000 60 m3"
  define r where "r = tier_row 300 (Some 399999900, [h1, h2])"
  have hist: "life_samples ''./metrics.db'' [Run_serve sample_host fold_serve None] (\<lambda>_. Missing) = [h1, h2, h3]"
    using m [unfolded Let_def] by (simp add: for_path_def sample_config path serve_inserts_def o up sample_days h1_def h2_def h3_def)
  have tbl: "metrics_tbl (stored (life_files [Run_serve sample_host fold_serve None] (\<lambda>_. Missing) ''./metrics.db'')) = [h3, r]"
    using p(1) m [unfolded Let_def] fold_three [of m1 m2 m3]
    by (auto simp: run_serve_def sample_config path o up sample_days stored_store Let_def h1_def h2_def h3_def r_def)
  have "summarises 392724000 (life_samples ''./metrics.db'' [Run_serve sample_host fold_serve None] (\<lambda>_. Missing))
     (metrics_tbl (stored (life_files [Run_serve sample_host fold_serve None] (\<lambda>_. Missing) ''./metrics.db'')))"
    by (rule life_keeps_samples)
      (simp_all add: sample_config sample_days cycle_within_def sample_cycle_def fold_serve_def sample_wake_def time_ok_def)
  then show ?thesis
    unfolding hist tbl by (intro exI [of _ h1] exI [of _ h2] exI [of _ h3] exI [of _ r]) (simp add: hist tbl r_def)
qed

theorem life_shown_witness:
  "\<exists>row \<in> set (the (db_query_range True 400001000 86400 60
      (stored (life_files sample_life (\<lambda>_. Missing) ''./metrics.db'')))).
    399978340 < r_unix_time row \<and> r_unix_time row \<le> 400000000"
proof -
  obtain iv m where "metric_row 400000000 iv m \<in> set (life_samples ''./metrics.db'' sample_life (\<lambda>_. Missing))"
    using sample_recorded by blast
  moreover have "unix (metric_row 400000000 iv m) = Some 400000000"
    by (rule unix_iso) (simp_all add: metric_row_def time_ok_def)
  ultimately show ?thesis
    using life_shown [of "\<lambda>_. Missing" "''./metrics.db''" 392225000 sample_life 400001000 86400 60, OF refl sample_within]
    by (fastforce simp: time_ok_def db_query_range_def)
qed

end
