(* ===== verification/DbCmd.thy ===== *)
theory DbCmd
  imports CDouble Db
begin

text \<open>
  \<open>src/db_cmd.c\<close>: \<open>minimoni db info\<close>, which describes a database file, and \<open>minimoni db exec\<close>,
  which runs the statements of an SQL text one after the other. What SQLite answers is an argument:
  the results of the queries of \<open>db info\<close>, and for \<open>db exec\<close> what each piece of the text is once
  prepared. A connection is the database on disk and the transaction that may be open on it.
\<close>

subsection \<open>Sizes, durations and labels\<close>

definition KB :: int where "KB = 1024"
definition MB :: int where "MB = KB * 1024"
definition GB :: int where "GB = MB * 1024"

text \<open>\<open>printf ("%.Pf")\<close>: the exact value rounded to \<open>P\<close> decimals.\<close>

definition fixed_digits :: "nat \<Rightarrow> nat \<Rightarrow> string" where
  "fixed_digits P n =
     (if P = 0 then show_nat n else show_nat (n div 10 ^ P) @ ''.'' @ pad_nat P (n mod 10 ^ P))"

definition fmt_f :: "nat \<Rightarrow> double \<Rightarrow> string" where
  "fmt_f P x =
     (case x of
        Fin q \<Rightarrow> (if q < 0 then ''-'' else []) @ fixed_digits P (nat (round_half_even (\<bar>q\<bar> * 10 ^ P)))
      | PInf \<Rightarrow> ''inf'' | NInf \<Rightarrow> ''-inf'' | NaN \<Rightarrow> ''nan'')"

definition size_text :: "int \<Rightarrow> string" where
  "size_text bytes =
     (if bytes \<ge> GB then fmt_f 1 (dbl_of_int bytes div dbl_of_int GB) @ '' GB''
      else if bytes \<ge> MB then fmt_f 1 (dbl_of_int bytes div dbl_of_int MB) @ '' MB''
      else if bytes \<ge> KB then fmt_f 1 (dbl_of_int bytes div dbl_of_int KB) @ '' KB''
      else show_int bytes @ '' bytes'')"

definition format_size :: "int \<Rightarrow> nat \<Rightarrow> string" where
  "format_size bytes cap = fst (snprintf cap (size_text bytes))"

definition file_size :: "int option \<Rightarrow> int" where
  "file_size st = (case st of None \<Rightarrow> - 1 | Some n \<Rightarrow> n)"

text \<open>What \<open>strftime\<close> makes of the local time and of its zone.\<close>

definition format_timestamp :: "string \<times> string \<Rightarrow> nat \<Rightarrow> string" where
  "format_timestamp local cap =
     (case local of (ts, tz) \<Rightarrow>
        fst (snprintf cap (ts @ '' '' @ (if tz = [] \<or> tz = ''GMT'' then ''UTC'' else tz))))"

definition duration_text :: "double \<Rightarrow> string" where
  "duration_text seconds =
     (if seconds < Fin 0 then ''0 seconds''
      else if seconds < Fin 60 then fmt_f 0 seconds @ '' seconds''
      else if seconds < Fin 3600 then fmt_f 0 (seconds div Fin 60) @ '' minutes''
      else if seconds < Fin 86400 then fmt_f 1 (seconds div Fin 3600) @ '' hours''
      else if seconds < Fin (86400 * 365) then fmt_f 1 (seconds div Fin 86400) @ '' days''
      else fmt_f 2 (seconds div Fin (86400 * 36525 / 100)) @ '' years'')"

definition format_duration :: "double \<Rightarrow> nat \<Rightarrow> string" where
  "format_duration seconds cap = fst (snprintf cap (duration_text seconds))"

definition hex_digit_upper :: "nat \<Rightarrow> char" where
  "hex_digit_upper d = ''0123456789ABCDEF'' ! d"

fun show_hex :: "nat \<Rightarrow> string" where
  "show_hex n = (if n < 16 then [hex_digit_upper n] else show_hex (n div 16) @ [hex_digit_upper (n mod 16)])"

declare show_hex.simps [simp del]

definition format_application_id :: "int \<Rightarrow> int \<Rightarrow> nat \<Rightarrow> string" where
  "format_application_id app_id version cap =
     fst (snprintf cap
       (if app_id = MINIMONI_APPLICATION_ID then ''moni v'' @ show_int version
        else ''0x'' @ show_hex (nat (app_id mod 2 ^ 32)) @ '' (not a minimoni database)''))"

definition format_bucket_label :: "int \<Rightarrow> nat \<Rightarrow> string" where
  "format_bucket_label b cap =
     fst (snprintf cap
       (if b < 60 then show_int b @ ''s''
        else if b < 3600 then show_int (c_div b 60) @ ''m''
        else if b < 86400 then show_int (c_div b 3600) @ ''h''
        else show_int (c_div b 86400) @ ''d''))"

text \<open>\<open>%5ld\<close> and \<open>%3s\<close>.\<close>

definition pad_left :: "nat \<Rightarrow> string \<Rightarrow> string" where
  "pad_left w s = replicate (w - length s) CHR '' '' @ s"

subsection \<open>\<open>minimoni db info\<close>\<close>

text \<open>The answer to a query of one row: it was not prepared, gave no row, or gave one. \<open>db info\<close> asks for
  integers, reals and the presence of a table; the text of the query tells them apart.\<close>

datatype 'a scalar = Not_prepared | Not_a_row | One_row 'a

definition query_scalar_int :: "int scalar \<Rightarrow> int" where
  "query_scalar_int a = (case a of One_row v \<Rightarrow> v | _ \<Rightarrow> - 1)"

definition query_scalar_double :: "double scalar \<Rightarrow> double" where
  "query_scalar_double a = (case a of One_row v \<Rightarrow> v | _ \<Rightarrow> Fin (- 1))"

definition table_exists :: "unit scalar \<Rightarrow> bool" where
  "table_exists a = (case a of One_row _ \<Rightarrow> True | _ \<Rightarrow> False)"

text \<open>What the file system, the zone and the queries answer.\<close>

record info_env =
  stat_size :: "string \<Rightarrow> int option"
  opened_ro :: bool
  local_time :: "int \<Rightarrow> string \<times> string"
  q_int :: "string \<Rightarrow> int scalar"
  q_real :: "string \<Rightarrow> double scalar"
  q_table :: "string \<Rightarrow> unit scalar"
  q_tiers :: "(int option \<times> int) list option"
  q_last_fire :: "(int \<times> string option) scalar"

definition SPAN_QUERY :: string where
  "SPAN_QUERY = ''SELECT (julianday(MAX(timestamp)) - julianday(MIN(timestamp))) * 86400.0 FROM metrics''"

definition epoch_query :: "string \<Rightarrow> string" where
  "epoch_query end_of = ''SELECT CAST(strftime('' @ [CHR 0x27] @ ''%s'' @ [CHR 0x27] @ '', '' @ end_of @ ''(timestamp)) AS INTEGER) FROM metrics''"

definition line :: "string \<Rightarrow> string" where
  "line s = s @ [NEWLINE]"

definition size_extras :: "int \<Rightarrow> int \<Rightarrow> string" where
  "size_extras wal shm =
     (let e = (if wal \<ge> 0 then fst (snprintf 128 (''+ '' @ format_size wal 32 @ '' WAL'')) else [])
      in if shm \<ge> 0
         then e @ fst (snprintf (128 - length e) ((if wal \<ge> 0 then '', '' else ''+ '') @ format_size shm 32 @ '' SHM''))
         else e)"

definition info_header :: "string \<Rightarrow> int \<Rightarrow> int \<Rightarrow> int \<Rightarrow> string" where
  "info_header db_path db_size wal shm =
     line (''File:           '' @ db_path) @
     line (''Size on disk:   '' @ format_size db_size 32 @
       (if wal \<ge> 0 \<or> shm \<ge> 0 then ''  ('' @ size_extras wal shm @ '')'' else []))"

definition info_span :: "info_env \<Rightarrow> string" where
  "info_span e =
     (let oldest = query_scalar_int (q_int e (epoch_query ''MIN''));
          newest = query_scalar_int (q_int e (epoch_query ''MAX''));
          span = query_scalar_double (q_real e SPAN_QUERY)
      in if oldest \<ge> 0 \<and> newest \<ge> 0
         then line (''  Oldest:       '' @ format_timestamp (local_time e oldest) 48) @
              line (''  Newest:       '' @ format_timestamp (local_time e newest) 48) @
              (if span \<ge> Fin 0 then line (''  Time span:    '' @ format_duration span 32) else [])
         else [])"

definition tier_line :: "int option \<times> int \<Rightarrow> string" where
  "tier_line bn =
     (case bn of (b, n) \<Rightarrow>
        line (''  '' @ (case b of None \<Rightarrow> ''NULL'' | Some s \<Rightarrow> pad_left 3 (format_bucket_label s 24)) @ '': '' @
          pad_left 5 (show_int n) @ '' '' @ (if n = 1 then ''row'' else ''rows'')))"

definition info_tiers :: "info_env \<Rightarrow> int \<Rightarrow> int \<Rightarrow> string" where
  "info_tiers e ver row_count =
     (if ver < 1 then line ''Tier distribution:  no tiered data (schema v0)''
      else if row_count > 0
      then line ''Tier distribution (only buckets with rows shown):'' @
           (case q_tiers e of None \<Rightarrow> [] | Some tiers \<Rightarrow> concat (map tier_line tiers))
      else [])"

definition info_alerts :: "info_env \<Rightarrow> string" where
  "info_alerts e =
     (if table_exists (q_table e ''alert_log'')
      then let alert_count = query_scalar_int (q_int e ''SELECT COUNT(*) FROM alert_log'')
           in line ''Alert log:'' @ line (''  Rows:         '' @ show_int alert_count) @
              (if alert_count > 0
               then (case q_last_fire e of
                       One_row (epoch, who) \<Rightarrow>
                         line (''  Most recent:  '' @ format_timestamp (local_time e epoch) 48 @ '' ('' @
                           (case who of Some w \<Rightarrow> w | None \<Rightarrow> ''?'') @ '')'')
                     | _ \<Rightarrow> [])
               else [])
      else [])"

definition info_body :: "info_env \<Rightarrow> int \<Rightarrow> string" where
  "info_body e ver =
     line [] @
     (if \<not> table_exists (q_table e ''metrics'') then line ''Metrics:        no metrics table''
      else let row_count = query_scalar_int (q_int e ''SELECT COUNT(*) FROM metrics'')
           in line ''Metrics:'' @
              line (''  Total rows:   '' @ show_int (if row_count < 0 then 0 else row_count)) @
              (if row_count > 0 then info_span e else []) @ line [] @
              info_tiers e ver row_count @ line [] @ info_alerts e)"

text \<open>The exit status and what is printed.\<close>

definition db_cmd_info :: "info_env \<Rightarrow> string \<Rightarrow> int \<times> string" where
  "db_cmd_info e db_path =
     (let db_size = file_size (stat_size e db_path);
          wal = file_size (stat_size e (fst (snprintf 1024 (db_path @ ''-wal''))));
          shm = file_size (stat_size e (fst (snprintf 1024 (db_path @ ''-shm''))))
      in if db_size < 0 then (1, [])
         else if \<not> opened_ro e then (1, [])
         else let appid = query_scalar_int (q_int e ''PRAGMA application_id'');
                  ver = query_scalar_int (q_int e ''PRAGMA user_version'')
              in (0, info_header db_path db_size wal shm @
                     line (''Format:         '' @ format_application_id appid ver 64) @
                     (if appid \<noteq> MINIMONI_APPLICATION_ID then [] else info_body e ver)))"

subsection \<open>\<open>minimoni db exec\<close>\<close>

text \<open>A value of a result: the text of an integer, a real or a text is SQLite's own.\<close>

datatype sql_value = V_null | V_blob "nat list" | V_text "string option"

definition print_value :: "sql_value \<Rightarrow> string" where
  "print_value v =
     (case v of
        V_null \<Rightarrow> ''NULL''
      | V_blob bs \<Rightarrow> ''X'' @ [CHR 0x27] @
          concat (map (\<lambda>b. [hex_digit_upper (b div 16), hex_digit_upper (b mod 16)]) bs) @ [CHR 0x27]
      | V_text t \<Rightarrow> (case t of Some s \<Rightarrow> s | None \<Rightarrow> []))"

definition print_row :: "sql_value list \<Rightarrow> string" where
  "print_row vs = join [CHR 0x09] (map print_value vs) @ [NEWLINE]"

text \<open>A connection: the database on disk, and the transaction that is open, if one is.\<close>

record 'd conn =
  saved :: 'd
  open_tx :: "'d option"

definition current_db :: "'d conn \<Rightarrow> 'd" where
  "current_db c = (case open_tx c of None \<Rightarrow> saved c | Some d \<Rightarrow> d)"

text \<open>What a statement does: \<open>BEGIN\<close> and \<open>COMMIT\<close>, which may fail, and any other one, a function of
  the bound value and the database to the database, the rows, and whether the last step was
  \<open>SQLITE_DONE\<close>. A statement that fails leaves the database as it was before it.\<close>

datatype 'd action =
    Act_begin bool
  | Act_commit bool
  | Act_run "string option \<Rightarrow> 'd \<Rightarrow> 'd \<times> sql_value list list \<times> bool"

text \<open>A piece of the text as \<open>sqlite3_prepare_v2\<close> gives it on the database of that moment: not SQL,
  only blanks and comments, or a statement with its number of parameters.\<close>

datatype 'd prepared = Unreadable | Blank | Statement nat "'d action"

type_synonym 'd script = "('d \<Rightarrow> 'd prepared) list"

definition run_statement ::
    "(string option \<Rightarrow> 'd \<Rightarrow> 'd \<times> sql_value list list \<times> bool) \<Rightarrow> string option \<Rightarrow> 'd conn \<Rightarrow>
     'd conn \<times> sql_value list list \<times> bool" where
  "run_statement f v c =
     (case f v (current_db c) of (d, rows, done) \<Rightarrow>
        (if \<not> done then c
         else case open_tx c of None \<Rightarrow> c\<lparr>saved := d\<rparr> | Some _ \<Rightarrow> c\<lparr>open_tx := Some d\<rparr>, rows, done))"

fun run_action :: "'d action \<Rightarrow> string option \<Rightarrow> 'd conn \<Rightarrow> 'd conn \<times> sql_value list list \<times> bool" where
  "run_action (Act_begin ok) v c =
     (if ok \<and> open_tx c = None then (c\<lparr>open_tx := Some (saved c)\<rparr>, [], True) else (c, [], False))"
| "run_action (Act_commit ok) v c =
     (case open_tx c of
        None \<Rightarrow> (c, [], False)
      | Some d \<Rightarrow> if ok then (c\<lparr>saved := d, open_tx := None\<rparr>, [], True) else (c, [], False))"
| "run_action (Act_run f) v c = run_statement f v c"

text \<open>The loop over the pieces: the status, what is printed, and the connection.\<close>

fun exec_loop :: "'d script \<Rightarrow> string option \<Rightarrow> 'd conn \<Rightarrow> int \<times> string \<times> 'd conn" where
  "exec_loop [] value c = (0, [], c)"
| "exec_loop (p # ps) value c =
     (case p (current_db c) of
        Unreadable \<Rightarrow> (1, [], c)
      | Blank \<Rightarrow> exec_loop ps value c
      | Statement params a \<Rightarrow>
          if params > 1 \<or> (params = 1 \<and> value = None) then (1, [], c)
          else (case run_action a (if params = 1 then value else None) c of
                  (c', rows, done) \<Rightarrow>
                    let text = concat (map print_row rows)
                    in if \<not> done then (1, text, c')
                       else (case exec_loop ps value c' of (rc, text', c'') \<Rightarrow> (rc, text @ text', c''))))"

text \<open>Closing the connection drops a transaction still open.\<close>

definition db_cmd_exec :: "bool \<Rightarrow> 'd script \<Rightarrow> string option \<Rightarrow> 'd \<Rightarrow> int \<times> string \<times> 'd" where
  "db_cmd_exec opened script value d =
     (if \<not> opened then (2, [], d)
      else case exec_loop script value \<lparr>saved = d, open_tx = None\<rparr> of (rc, text, c) \<Rightarrow> (rc, text, saved c))"

subsection \<open>A transaction is all or nothing\<close>

definition runs_only :: "('d \<Rightarrow> 'd prepared) \<Rightarrow> bool" where
  "runs_only p = (\<forall>d n a. p d = Statement n a \<longrightarrow> (\<exists>f. a = Act_run f))"

text \<open>What a piece makes of the database when nothing is in between, and what a script makes of it;
  nothing, if a piece is not SQL, has no value for its parameter, or fails.\<close>

definition piece_effect :: "('d \<Rightarrow> 'd prepared) \<Rightarrow> string option \<Rightarrow> 'd \<Rightarrow> 'd option" where
  "piece_effect p v d =
     (case p d of
        Unreadable \<Rightarrow> None
      | Blank \<Rightarrow> Some d
      | Statement n a \<Rightarrow>
          (case a of
             Act_run f \<Rightarrow>
               (case f (if n = 1 then v else None) d of (d', rows, fin) \<Rightarrow>
                  if fin \<and> (n = 0 \<or> n = 1 \<and> v \<noteq> None) then Some d' else None)
           | _ \<Rightarrow> None))"

fun script_effect :: "'d script \<Rightarrow> string option \<Rightarrow> 'd \<Rightarrow> 'd option" where
  "script_effect [] v d = Some d"
| "script_effect (p # ps) v d = Option.bind (piece_effect p v d) (script_effect ps v)"

text \<open>In a transaction a statement works on the open database and leaves the saved one.\<close>

lemma run_statement_tx:
  "run_statement f v \<lparr>saved = s, open_tx = Some d\<rparr> =
     (case f v d of (d', rows, fin) \<Rightarrow> (\<lparr>saved = s, open_tx = Some (if fin then d' else d)\<rparr>, rows, fin))"
  by (auto simp: run_statement_def current_db_def split: prod.split)

lemma exec_loop_tx:
  assumes "exec_loop (ps @ [\<lambda>_. Statement 0 (Act_commit ok)]) v \<lparr>saved = s, open_tx = Some d\<rparr> = (rc, tx, c)"
    and "list_all runs_only ps"
  shows "(rc, saved c) = (if ok then case script_effect ps v d of None \<Rightarrow> (1, s) | Some d' \<Rightarrow> (0, d') else (1, s))"
  using assms
proof (induction ps arbitrary: d rc tx)
  case Nil
  then show ?case by (auto split: if_splits)
next
  case (Cons p ps)
  show ?case
  proof (cases "p d")
    case (Statement n a)
    then obtain f where a: "a = Act_run f" using Cons.prems(2) unfolding list.pred_inject runs_only_def by blast
    obtain d1 rows fin where f: "f (if n = 1 then v else None) d = (d1, rows, fin)"
      by (cases "f (if n = 1 then v else None) d")
    show ?thesis
    proof (cases "n > 1 \<or> (n = 1 \<and> v = None) \<or> \<not> fin")
      case True
      then have "piece_effect p v d = None" using Statement a f by (auto simp: piece_effect_def)
      then show ?thesis
        using True Cons.prems(1) Statement a f
        by (auto simp: current_db_def run_statement_tx Let_def split: if_splits)
    next
      case False
      then have "piece_effect p v d = Some d1" using Statement a f by (auto simp: piece_effect_def)
      moreover obtain tx1 where
        "exec_loop (ps @ [\<lambda>_. Statement 0 (Act_commit ok)]) v \<lparr>saved = s, open_tx = Some d1\<rparr> = (rc, tx1, c)"
        using False Cons.prems(1) Statement a f
        by (auto simp: current_db_def run_statement_tx Let_def split: if_splits prod.splits)
      ultimately show ?thesis using Cons.IH [of d1] Cons.prems(2) by simp
    qed
  qed (use Cons.prems Cons.IH [of d] in \<open>auto simp: current_db_def piece_effect_def\<close>)
qed

text \<open>C12: A script in a transaction is all or nothing. When \<open>db exec\<close> runs a \<open>BEGIN\<close>, any statements and
  a \<open>COMMIT\<close>, it returns 0 exactly when the file was opened, every piece ran in turn and both of
  them went through, and the database is then what all the statements made of it, one after the
  other; in every other case it returns 1, or 2 for a file it cannot open, and the database is the
  one it was, whichever piece was not SQL, had no value for its parameter, or failed.\<close>

theorem db_exec_atomic:
  assumes "list_all runs_only ps"
    and "db_cmd_exec opened ([\<lambda>_. Statement 0 (Act_begin b)] @ ps @ [\<lambda>_. Statement 0 (Act_commit ok)]) v d = (rc, text, d')"
  shows "(rc, d') =
    (if \<not> opened then (2, d)
     else if \<not> b \<or> \<not> ok then (1, d)
     else case script_effect ps v d of None \<Rightarrow> (1, d) | Some all_done \<Rightarrow> (0, all_done))"
proof -
  obtain rc1 text1 c1 where e: "exec_loop (ps @ [\<lambda>_. Statement 0 (Act_commit ok)]) v \<lparr>saved = d, open_tx = Some d\<rparr> = (rc1, text1, c1)"
    by (cases "exec_loop (ps @ [\<lambda>_. Statement 0 (Act_commit ok)]) v \<lparr>saved = d, open_tx = Some d\<rparr>")
  show ?thesis
    using exec_loop_tx [OF e assms(1)] assms(2) e
    by (auto simp: db_cmd_exec_def split: if_splits option.splits)
qed

text \<open>A script that goes through, and one whose last piece is not SQL.\<close>

theorem db_exec_atomic_witness:
  "(let script = (\<lambda>ps. [\<lambda>_. Statement 0 (Act_begin True)] @ ps @ [\<lambda>_. Statement 0 (Act_commit True)]);
       add = (\<lambda>d. Statement 0 (Act_run (\<lambda>_ d. (d + 1, [], True))))
   in snd (snd (db_cmd_exec True (script [add, add]) None (5 :: int))) = 7 \<and>
      snd (snd (db_cmd_exec True (script [add, \<lambda>_. Unreadable]) None (5 :: int))) = 5)"
proof -
  define script where "script = (\<lambda>ps :: int script. [\<lambda>_. Statement 0 (Act_begin True)] @ ps @ [\<lambda>_. Statement 0 (Act_commit True)])"
  define add where "add = (\<lambda>d :: int. Statement 0 (Act_run (\<lambda>_ d. (d + 1 :: int, [], True))))"
  have run: "list_all runs_only ps \<Longrightarrow> snd (snd (db_cmd_exec True (script ps) None d)) =
      (case script_effect ps None d of None \<Rightarrow> d | Some d' \<Rightarrow> d')" for ps d
    using db_exec_atomic [of ps True True True None d "fst (db_cmd_exec True (script ps) None d)"
        "fst (snd (db_cmd_exec True (script ps) None d))" "snd (snd (db_cmd_exec True (script ps) None d))"]
    by (simp add: script_def split: option.splits)
  have "snd (snd (db_cmd_exec True (script [add, add]) None 5)) = 7"
    by (subst run) (simp_all add: runs_only_def add_def piece_effect_def)
  moreover have "snd (snd (db_cmd_exec True (script [add, \<lambda>_. Unreadable]) None 5)) = 5"
    by (subst run) (simp_all add: runs_only_def add_def piece_effect_def)
  ultimately show ?thesis by (simp add: script_def add_def Let_def)
qed

end
