(* ===== verification/MigSchema.thy ===== *)
theory MigSchema
  imports DbCmd "HOL-Library.Multiset"
begin

text \<open>
  \<open>src/migrate/migrations.c\<close>: the schemas of the earlier versions, the fingerprint that recognises
  them, and the two migration scripts. A script is the list of its statements; its text is what they
  render to, and its effect is that of \<open>minimoni db exec\<close> (DbCmd) on the statements, one after the
  other in a transaction. An old database is its tables with their columns, its indexes, and the
  rows of \<open>metrics\<close> as values by column name.
\<close>

subsection \<open>Old databases\<close>

datatype sql_cell = C_null | C_int int | C_real double | C_text string

text \<open>Name, declared type, and whether it is \<open>NOT NULL\<close>.\<close>

type_synonym column = "string \<times> string \<times> nat"

record old_db =
  o_version :: int
  o_tables :: "(string \<times> column list) list"
  o_indexes :: "(string \<times> string \<times> string list) list"
  o_rows :: "(string \<Rightarrow> sql_cell) list"

definition table_cols :: "string \<Rightarrow> old_db \<Rightarrow> column list" where
  "table_cols t db = (case map_of (o_tables db) t of None \<Rightarrow> [] | Some cs \<Rightarrow> cs)"

definition set_table_cols :: "string \<Rightarrow> column list \<Rightarrow> old_db \<Rightarrow> old_db" where
  "set_table_cols t cs db = db\<lparr>o_tables := map (\<lambda>(n, old). (n, if n = t then cs else old)) (o_tables db)\<rparr>"

definition col_names :: "column list \<Rightarrow> string list" where
  "col_names cs = map fst cs"

subsection \<open>The fingerprint\<close>

definition col_text :: "column \<Rightarrow> string" where
  "col_text c = (case c of (n, t, nn) \<Rightarrow> n @ '':'' @ t @ '':'' @ show_nat nn)"

definition ascii_lower :: "char \<Rightarrow> char" where
  "ascii_lower c = (if 65 \<le> code c \<and> code c \<le> 90 then char_of (code c + 32) else c)"

text \<open>\<open>name LIKE 'sqlite_%'\<close>.\<close>

definition like_sqlite :: "string \<Rightarrow> bool" where
  "like_sqlite s = (map ascii_lower (take 6 s) = ''sqlite'' \<and> 7 \<le> length s)"

definition table_line :: "string \<times> column list \<Rightarrow> string" where
  "table_line tc = (case tc of (n, cs) \<Rightarrow> ''table:'' @ n @ '':'' @ join '','' (map col_text (sort_key fst cs)))"

definition index_line :: "string \<times> string \<times> string list \<Rightarrow> string" where
  "index_line i = (case i of (n, t, cs) \<Rightarrow> ''index:'' @ n @ '':'' @ t @ '':'' @ join '','' cs)"

text \<open>What \<open>db exec\<close> prints for \<open>SCHEMA_QUERY\<close>: one line per row, in order.\<close>

definition schema_lines :: "old_db \<Rightarrow> string list" where
  "schema_lines db =
     sort (map table_line (filter (\<lambda>(n, _). \<not> like_sqlite n) (o_tables db)) @
           map index_line (filter (\<lambda>(n, _). \<not> like_sqlite n) (o_indexes db)))"

definition fingerprint :: "old_db \<Rightarrow> string" where
  "fingerprint db = concat (map (\<lambda>l. l @ [NEWLINE]) (schema_lines db))"

definition nl :: string where "nl = [NEWLINE]"

definition V0_SCHEMA_FINGERPRINT :: string where
  "V0_SCHEMA_FINGERPRINT =
    ''index:idx_alert_log_name:alert_log:alert_name'' @ nl @
    ''index:idx_metrics_ts:metrics:timestamp'' @ nl @
    ''table:alert_log:alert_name:TEXT:1,fired_at:TEXT:1'' @ nl @
    ''table:metrics:cpu_idle_percent:REAL:0,cpu_system_percent:REAL:0,'' @
    ''cpu_user_percent:REAL:0,disk_free_gb:REAL:0,disk_percent:REAL:0,'' @
    ''disk_total_gb:REAL:0,disk_used_gb:REAL:0,load_15m:REAL:0,load_1m:REAL:0,'' @
    ''load_5m:REAL:0,mem_available_mb:REAL:0,mem_percent:REAL:0,mem_total_mb:REAL:0,'' @
    ''mem_used_mb:REAL:0,net_rx_bytes:INTEGER:0,net_tx_bytes:INTEGER:0,'' @
    ''temp_celsius:REAL:0,timestamp:TEXT:1,uptime_seconds:REAL:0'' @ nl"

definition V1_SCHEMA_FINGERPRINT :: string where
  "V1_SCHEMA_FINGERPRINT =
    ''index:idx_alert_log_name:alert_log:alert_name'' @ nl @
    ''index:idx_metrics_ts:metrics:timestamp'' @ nl @
    ''table:alert_log:alert_name:TEXT:1,fired_at:TEXT:1'' @ nl @
    ''table:metrics:bucket_sec:INTEGER:0,cpu_idle_percent:REAL:0,cpu_system_percent:REAL:0,'' @
    ''cpu_user_percent:REAL:0,disk_free_gb:REAL:0,disk_percent:REAL:0,disk_total_gb:REAL:0,'' @
    ''disk_used_gb:REAL:0,load_15m:REAL:0,load_1m:REAL:0,load_5m:REAL:0,'' @
    ''mem_available_mb:REAL:0,mem_percent:REAL:0,mem_total_mb:REAL:0,mem_used_mb:REAL:0,'' @
    ''net_rx_bps:REAL:0,net_tx_bps:REAL:0,temp_celsius:REAL:0,timestamp:TEXT:1,'' @
    ''uptime_seconds:REAL:0'' @ nl"

subsection \<open>The scripts\<close>

datatype change =
    Add_column string string
  | Drop_column string
  | Rename_column string string
  | Update_rates
  | Set_version nat

definition rates_sql :: string where
  "rates_sql =
    ''WITH ordered AS ('' @
    ''  SELECT rowid,'' @
    ''    net_rx_bytes - LAG(net_rx_bytes) OVER w AS rx_diff,'' @
    ''    net_tx_bytes - LAG(net_tx_bytes) OVER w AS tx_diff,'' @
    ''    strftime('%s', timestamp) - strftime('%s', LAG(timestamp) OVER w) AS dt'' @
    ''  FROM metrics WINDOW w AS (ORDER BY timestamp)'' @
    '')'' @
    ''UPDATE metrics SET'' @
    ''  net_rx_bps = CASE'' @
    ''    WHEN o.rx_diff IS NULL OR o.rx_diff < 0 OR o.dt IS NULL OR o.dt <= 0 THEN NULL'' @
    ''    ELSE CAST(o.rx_diff AS REAL) / o.dt END,'' @
    ''  net_tx_bps = CASE'' @
    ''    WHEN o.tx_diff IS NULL OR o.tx_diff < 0 OR o.dt IS NULL OR o.dt <= 0 THEN NULL'' @
    ''    ELSE CAST(o.tx_diff AS REAL) / o.dt END'' @
    ''  FROM ordered o WHERE metrics.rowid = o.rowid;''"

fun change_sql :: "change \<Rightarrow> string" where
  "change_sql (Add_column n t) = ''ALTER TABLE metrics ADD COLUMN '' @ n @ '' '' @ t @ '';''"
| "change_sql (Drop_column n) = ''ALTER TABLE metrics DROP COLUMN '' @ n @ '';''"
| "change_sql (Rename_column a b) = ''ALTER TABLE metrics RENAME COLUMN '' @ a @ '' TO '' @ b @ '';''"
| "change_sql Update_rates = rates_sql"
| "change_sql (Set_version v) = ''PRAGMA user_version = '' @ show_nat v @ '';''"

definition script_sql :: "change list \<Rightarrow> string" where
  "script_sql cs = ''BEGIN;'' @ concat (map change_sql cs) @ ''COMMIT;''"

definition SCRIPT_V0_TO_V1 :: "change list" where
  "SCRIPT_V0_TO_V1 =
     [Add_column ''bucket_sec'' ''INTEGER'', Add_column ''net_rx_bps'' ''REAL'', Add_column ''net_tx_bps'' ''REAL'',
      Update_rates, Drop_column ''net_rx_bytes'', Drop_column ''net_tx_bytes'', Set_version 1]"

definition SCRIPT_V1_TO_V2 :: "change list" where
  "SCRIPT_V1_TO_V2 =
     [Add_column ''swap_total_mb'' ''REAL'', Add_column ''swap_free_mb'' ''REAL'', Add_column ''swap_in_bps'' ''REAL'',
      Add_column ''swap_out_bps'' ''REAL'', Drop_column ''mem_used_mb'', Drop_column ''mem_percent'',
      Drop_column ''disk_used_gb'', Drop_column ''disk_percent'',
      Rename_column ''disk_free_gb'' ''disk_available_gb'', Set_version 2]"

text \<open>The rates of the first script: the rows in the order of their timestamps, each with the one before
  it; a missing difference, a counter that went back or no time between the two gives NULL.\<close>

definition num_of :: "sql_cell \<Rightarrow> rat option" where
  "num_of c = (case c of C_int n \<Rightarrow> Some (of_int n) | C_real (Fin q) \<Rightarrow> Some q | _ \<Rightarrow> None)"

definition unix_cell :: "sql_cell \<Rightarrow> int option" where
  "unix_cell c = (case c of C_text s \<Rightarrow> unix_of s | _ \<Rightarrow> None)"

definition text_cell :: "sql_cell \<Rightarrow> string" where
  "text_cell c = (case c of C_text s \<Rightarrow> s | _ \<Rightarrow> [])"

definition rate_of :: "sql_cell \<Rightarrow> sql_cell \<Rightarrow> sql_cell \<Rightarrow> sql_cell \<Rightarrow> sql_cell" where
  "rate_of cur prev cur_ts prev_ts =
     (case (num_of cur, num_of prev, unix_cell cur_ts, unix_cell prev_ts) of
        (Some a, Some b, Some t, Some u) \<Rightarrow>
          if a - b < 0 \<or> t - u \<le> 0 then C_null else C_real (Fin ((a - b) / of_int (t - u)))
      | _ \<Rightarrow> C_null)"

definition set_rates :: "(string \<Rightarrow> sql_cell) \<Rightarrow> (string \<Rightarrow> sql_cell) \<Rightarrow> string \<Rightarrow> sql_cell" where
  "set_rates prev r =
     r(''net_rx_bps'' := rate_of (r ''net_rx_bytes'') (prev ''net_rx_bytes'') (r ''timestamp'') (prev ''timestamp''),
       ''net_tx_bps'' := rate_of (r ''net_tx_bytes'') (prev ''net_tx_bytes'') (r ''timestamp'') (prev ''timestamp''))"

text \<open>The rows by timestamp with their position, and for each position its predecessor (none: all NULL).\<close>

definition by_time :: "(string \<Rightarrow> sql_cell) list \<Rightarrow> (nat \<times> (string \<Rightarrow> sql_cell)) list" where
  "by_time rows = sort_key (\<lambda>(_, r). text_cell (r ''timestamp'')) (List.enumerate 0 rows)"

fun predecessor :: "nat \<Rightarrow> (string \<Rightarrow> sql_cell) \<Rightarrow> (nat \<times> (string \<Rightarrow> sql_cell)) list \<Rightarrow> (string \<Rightarrow> sql_cell)" where
  "predecessor i prev [] = (\<lambda>_. C_null)"
| "predecessor i prev ((j, r) # rest) = (if i = j then prev else predecessor i r rest)"

definition update_rates :: "(string \<Rightarrow> sql_cell) list \<Rightarrow> (string \<Rightarrow> sql_cell) list" where
  "update_rates rows =
     map (\<lambda>(i, r). set_rates (predecessor i (\<lambda>_. C_null) (by_time rows)) r) (List.enumerate 0 rows)"

text \<open>One statement, or \<open>None\<close> when it fails: a column that is there already, or is not there, or that
  an index uses.\<close>

definition indexed :: "string \<Rightarrow> old_db \<Rightarrow> bool" where
  "indexed n db = list_ex (\<lambda>(_, t, cs). t = ''metrics'' \<and> n \<in> set cs) (o_indexes db)"

fun apply_change :: "change \<Rightarrow> old_db \<Rightarrow> old_db option" where
  "apply_change (Add_column n t) db =
     (let cs = table_cols ''metrics'' db
      in if n \<in> set (col_names cs) then None
         else Some (set_table_cols ''metrics'' (cs @ [(n, t, 0)]) db
           \<lparr>o_rows := map (\<lambda>r. r(n := C_null)) (o_rows db)\<rparr>))"
| "apply_change (Drop_column n) db =
     (let cs = table_cols ''metrics'' db
      in if n \<notin> set (col_names cs) \<or> indexed n db then None
         else Some (set_table_cols ''metrics'' (filter (\<lambda>(m, _). m \<noteq> n) cs) db
           \<lparr>o_rows := map (\<lambda>r. r(n := C_null)) (o_rows db)\<rparr>))"
| "apply_change (Rename_column a b) db =
     (let cs = table_cols ''metrics'' db
      in if a \<notin> set (col_names cs) \<or> b \<in> set (col_names cs) then None
         else Some (set_table_cols ''metrics'' (map (\<lambda>(m, t). (if m = a then b else m, t)) cs) db
           \<lparr>o_rows := map (\<lambda>r. r(b := r a, a := C_null)) (o_rows db),
            o_indexes := map (\<lambda>(i, t, ns). (i, t, if t = ''metrics'' then map (\<lambda>m. if m = a then b else m) ns else ns))
              (o_indexes db)\<rparr>))"
| "apply_change Update_rates db =
     (if list_all (\<lambda>n. n \<in> set (col_names (table_cols ''metrics'' db)))
           [''timestamp'', ''net_rx_bytes'', ''net_tx_bytes'', ''net_rx_bps'', ''net_tx_bps'']
      then Some (db\<lparr>o_rows := update_rates (o_rows db)\<rparr>) else None)"
| "apply_change (Set_version v) db = Some (db\<lparr>o_version := int v\<rparr>)"

text \<open>The script as \<open>db exec\<close> runs it.\<close>

definition change_piece :: "change \<Rightarrow> old_db \<Rightarrow> old_db prepared" where
  "change_piece c db =
     Statement 0 (Act_run (\<lambda>_ d. case apply_change c d of None \<Rightarrow> (d, [], False) | Some d' \<Rightarrow> (d', [], True)))"

definition migration_script :: "change list \<Rightarrow> old_db script" where
  "migration_script cs =
     [\<lambda>_. Statement 0 (Act_begin True)] @ map change_piece cs @ [\<lambda>_. Statement 0 (Act_commit True)]"

subsection \<open>The table of migrations\<close>

record migration_t =
  from_version :: int
  to_version :: int
  fingerprint_of :: string
  script_text :: string

definition MIGRATIONS :: "migration_t list" where
  "MIGRATIONS =
     [\<lparr>from_version = 0, to_version = 1, fingerprint_of = V0_SCHEMA_FINGERPRINT, script_text = script_sql SCRIPT_V0_TO_V1\<rparr>,
      \<lparr>from_version = 1, to_version = 2, fingerprint_of = V1_SCHEMA_FINGERPRINT, script_text = script_sql SCRIPT_V1_TO_V2\<rparr>]"

definition migrations_latest_version :: int where
  "migrations_latest_version = (if MIGRATIONS = [] then 0 else to_version (last MIGRATIONS))"

definition migrations_find :: "int \<Rightarrow> migration_t option" where
  "migrations_find from = find (\<lambda>m. from_version m = from) MIGRATIONS"

end
