(* ===== verification/MigSchemaProps.thy ===== *)
theory MigSchemaProps
  imports MigSchema
begin

text \<open>
  The chain of migrations, from the schema of v0.1 to the one the daemon creates. A schema is
  described up to the order of its tables, indexes and columns, as the fingerprint sees it; each
  statement of a script takes one such schema to another, and the rows are followed through.
\<close>

subsection \<open>Canonical schemas\<close>

definition V0_COLS :: "column list" where
  "V0_COLS =
     map (\<lambda>n. (n, ''REAL'', 0)) [''cpu_idle_percent'', ''cpu_system_percent'', ''cpu_user_percent'', ''disk_free_gb'',
       ''disk_percent'', ''disk_total_gb'', ''disk_used_gb'', ''load_15m'', ''load_1m'', ''load_5m'', ''mem_available_mb'',
       ''mem_percent'', ''mem_total_mb'', ''mem_used_mb''] @
     [(''net_rx_bytes'', ''INTEGER'', 0), (''net_tx_bytes'', ''INTEGER'', 0), (''temp_celsius'', ''REAL'', 0),
      (''timestamp'', ''TEXT'', 1), (''uptime_seconds'', ''REAL'', 0)]"

definition V1_COLS :: "column list" where
  "V1_COLS =
     (''bucket_sec'', ''INTEGER'', 0) #
     map (\<lambda>n. (n, ''REAL'', 0)) [''cpu_idle_percent'', ''cpu_system_percent'', ''cpu_user_percent'', ''disk_free_gb'',
       ''disk_percent'', ''disk_total_gb'', ''disk_used_gb'', ''load_15m'', ''load_1m'', ''load_5m'', ''mem_available_mb'',
       ''mem_percent'', ''mem_total_mb'', ''mem_used_mb'', ''net_rx_bps'', ''net_tx_bps'', ''temp_celsius''] @
     [(''timestamp'', ''TEXT'', 1), (''uptime_seconds'', ''REAL'', 0)]"

definition ALERT_COLS :: "column list" where
  "ALERT_COLS = [(''alert_name'', ''TEXT'', 1), (''fired_at'', ''TEXT'', 1)]"

definition INDEXES :: "(string \<times> string \<times> string list) list" where
  "INDEXES = [(''idx_alert_log_name'', ''alert_log'', [''alert_name'']), (''idx_metrics_ts'', ''metrics'', [''timestamp''])]"

text \<open>The two tables and their indexes, in any order and with their columns in any order.\<close>

definition has_schema :: "column list \<Rightarrow> old_db \<Rightarrow> bool" where
  "has_schema cs db =
     (mset (map fst (o_tables db)) = mset [''alert_log'', ''metrics''] \<and> mset (table_cols ''metrics'' db) = mset cs \<and>
      mset (table_cols ''alert_log'' db) = mset ALERT_COLS \<and> mset (o_indexes db) = mset INDEXES)"

lemma filter_key: "k \<in> set zs \<Longrightarrow> distinct (map f zs) \<Longrightarrow> filter (\<lambda>x. f k = f x) zs = [k]"
proof (induction zs)
  case (Cons z zs)
  show ?case
  proof (cases "k = z")
    case True
    then have "f k \<notin> f ` set zs" using Cons.prems(2) by simp
    then have "filter (\<lambda>x. f k = f x) zs = []" by (auto simp: filter_empty_conv)
    then show ?thesis using True by simp
  next
    case False
    then have k: "k \<in> set zs" using Cons.prems(1) by simp
    then have "f k \<in> f ` set zs" by simp
    then have "f k \<noteq> f z" using Cons.prems(2) by (metis distinct.simps(2) list.set_map list.simps(9))
    then show ?thesis using Cons.IH [OF k] Cons.prems(2) by simp
  qed
qed simp

lemma sort_key_unique:
  assumes "mset xs = mset ys" and "distinct (map f ys)" and "sorted (map f ys)"
  shows "sort_key f xs = ys"
proof (rule properties_for_sort_key)
  show "mset ys = mset xs" using assms(1) by simp
  show "sorted (map f ys)" by (rule assms(3))
  have d: "distinct (map f xs)" using assms(1,2) by (metis mset_eq_imp_distinct_iff mset_map)
  fix k assume k: "k \<in> set ys"
  have "k \<in> set xs" using k assms(1) by (metis set_mset_mset)
  then show "filter (\<lambda>x. f k = f x) ys = filter (\<lambda>x. f k = f x) xs"
    using filter_key [OF k assms(2)] filter_key [OF _ d] by simp
qed

lemma two_tables:
  assumes "mset (map fst ts) = mset [a, b]"
  shows "\<exists>x y. mset ts = mset [(a, x), (b, y)] \<and> (a \<noteq> b \<longrightarrow> map_of ts a = Some x \<and> map_of ts b = Some y)"
proof -
  have "length ts = 2" using assms by (metis length_map mset_eq_length numeral_2_eq_2 list.size(3,4) One_nat_def add.commute plus_1_eq_Suc)
  then obtain p q where ts: "ts = [p, q]" by (auto simp: numeral_2_eq_2 length_Suc_conv)
  then have "fst p = a \<and> fst q = b \<or> fst p = b \<and> fst q = a" using assms by (auto simp: add_eq_conv_diff)
  then show ?thesis using ts by (cases p; cases q) (auto simp: add_mset_commute)
qed

lemma v0_sorted: "sorted (map fst V0_COLS) \<and> distinct (map fst V0_COLS)"
  by (simp add: V0_COLS_def)

lemma v1_sorted: "sorted (map fst V1_COLS) \<and> distinct (map fst V1_COLS)"
  by (simp add: V1_COLS_def)

lemma alert_sorted: "sorted (map fst ALERT_COLS) \<and> distinct (map fst ALERT_COLS)"
  by (simp add: ALERT_COLS_def)

lemma fingerprint_schema:
  assumes "has_schema cs db" and "sorted (map fst cs) \<and> distinct (map fst cs)"
  shows "fingerprint db = concat (map (\<lambda>l. l @ [NEWLINE])
    (map index_line INDEXES @ [table_line (''alert_log'', ALERT_COLS), table_line (''metrics'', cs)]))"
proof -
  obtain x y where t: "mset (o_tables db) = mset [(''alert_log'', x), (''metrics'', y)]"
    "map_of (o_tables db) ''alert_log'' = Some x" "map_of (o_tables db) ''metrics'' = Some y"
    using two_tables [of "o_tables db" "''alert_log''" "''metrics''"] assms(1) by (auto simp: has_schema_def)
  then have xy: "mset x = mset ALERT_COLS" "mset y = mset cs"
    using assms(1) by (simp_all add: has_schema_def table_cols_def)
  have sorted: "sort_key fst x = ALERT_COLS" "sort_key fst y = cs" "sort_key fst ALERT_COLS = ALERT_COLS" "sort_key fst cs = cs"
    using sort_key_unique [OF xy(1)] sort_key_unique [OF xy(2)] sort_key_unique [OF refl] alert_sorted assms(2) by auto
  define ls where "ls = map index_line INDEXES @ [table_line (''alert_log'', ALERT_COLS), table_line (''metrics'', cs)]"
  have i: "set (o_indexes db) = set INDEXES"
    using assms(1) mset_eq_setD unfolding has_schema_def by blast
  have "filter (\<lambda>(n, _). \<not> like_sqlite n) (o_tables db) = o_tables db"
    using arg_cong [OF t(1), of set_mset] by (intro filter_True) (auto simp: like_sqlite_def ascii_lower_def)
  moreover have "filter (\<lambda>(n, _). \<not> like_sqlite n) (o_indexes db) = o_indexes db"
    using i by (intro filter_True) (auto simp: INDEXES_def like_sqlite_def ascii_lower_def)
  moreover have "mset (map table_line (o_tables db)) = {#table_line (''alert_log'', ALERT_COLS), table_line (''metrics'', cs)#}"
    unfolding mset_map t(1) by (simp add: table_line_def sorted)
  moreover have "mset (map index_line (o_indexes db)) = mset (map index_line INDEXES)"
    using assms(1) by (simp only: has_schema_def mset_map)
  ultimately have "schema_lines db = sort ls"
    unfolding schema_lines_def by (intro properties_for_sort) (simp_all add: ls_def)
  moreover have "sorted ls"
    unfolding ls_def table_line_def by (simp add: INDEXES_def index_line_def less_eq_list_code)
  ultimately have "schema_lines db = ls" by (simp add: sorted_sort_id)
  then show ?thesis by (simp add: fingerprint_def ls_def)
qed

lemma show_one: "show_nat (Suc 0) = ''1''" "show_nat 0 = ''0''"
  by (subst show_nat.simps; simp add: digit_char_def)+

lemma fingerprint_v0: "has_schema V0_COLS db \<Longrightarrow> fingerprint db = V0_SCHEMA_FINGERPRINT"
  unfolding fingerprint_schema [OF _ v0_sorted]
  using sort_key_unique [OF refl v0_sorted [THEN conjunct2] v0_sorted [THEN conjunct1]]
    sort_key_unique [OF refl alert_sorted [THEN conjunct2] alert_sorted [THEN conjunct1]]
  by (simp add: table_line_def)
    (simp add: V0_COLS_def ALERT_COLS_def INDEXES_def index_line_def col_text_def V0_SCHEMA_FINGERPRINT_def nl_def show_one)

lemma fingerprint_v1: "has_schema V1_COLS db \<Longrightarrow> fingerprint db = V1_SCHEMA_FINGERPRINT"
  unfolding fingerprint_schema [OF _ v1_sorted]
  using sort_key_unique [OF refl v1_sorted [THEN conjunct2] v1_sorted [THEN conjunct1]]
    sort_key_unique [OF refl alert_sorted [THEN conjunct2] alert_sorted [THEN conjunct1]]
  by (simp add: table_line_def)
    (simp add: V1_COLS_def ALERT_COLS_def INDEXES_def index_line_def col_text_def V1_SCHEMA_FINGERPRINT_def nl_def show_one)

subsection \<open>What a statement does to a schema\<close>

lemma has_schema_mset: "mset cs = mset ds \<Longrightarrow> has_schema cs db = has_schema ds db"
  by (simp add: has_schema_def)

lemma has_schema_table: "has_schema cs db \<Longrightarrow> \<exists>x. map_of (o_tables db) ''metrics'' = Some x"
  using two_tables [of "o_tables db" "''alert_log''" "''metrics''"] by (auto simp: has_schema_def)

lemma has_schema_indexes: "has_schema cs db \<Longrightarrow> set (o_indexes db) = set INDEXES"
  unfolding has_schema_def using mset_eq_setD by blast

lemma map_of_set_cols:
  "map_of (map (\<lambda>(n, old). (n, if n = t then cs else old)) ts) u =
     (if u = t then (case map_of ts u of None \<Rightarrow> None | Some _ \<Rightarrow> Some cs) else map_of ts u)"
  by (induction ts) auto

lemma names_set_cols [simp]: "map fst (o_tables (set_table_cols t cs db)) = map fst (o_tables db)"
  by (simp add: set_table_cols_def case_prod_beta' comp_def)

lemma table_cols_set:
  "table_cols u (set_table_cols t cs db) =
     (if u = t then (if map_of (o_tables db) t = None then [] else cs) else table_cols u db)"
  by (auto simp: table_cols_def set_table_cols_def map_of_set_cols split: option.split)

lemma has_schema_set:
  assumes "has_schema cs db"
  shows "has_schema ds (set_table_cols ''metrics'' ds db)"
  using assms has_schema_table [OF assms]
  unfolding has_schema_def names_set_cols table_cols_set by (auto simp: set_table_cols_def)

lemma has_schema_set_mset:
  assumes "has_schema cs db" and "mset ds' = mset ds"
  shows "has_schema ds (set_table_cols ''metrics'' ds' db)"
  using has_schema_set [OF assms(1), of ds'] has_schema_mset [OF assms(2)] by simp

lemma has_schema_update [simp]:
  "has_schema cs (db\<lparr>o_rows := rs\<rparr>) = has_schema cs db" "has_schema cs (db\<lparr>o_version := v\<rparr>) = has_schema cs db"
  by (simp_all add: has_schema_def table_cols_def)

lemma has_schema_same_indexes:
  "ix = o_indexes d \<Longrightarrow> has_schema cs (d\<lparr>o_rows := rs, o_indexes := ix\<rparr>) = has_schema cs d"
  by (simp add: has_schema_def table_cols_def)

lemma set_table_cols_rest [simp]:
  "o_rows (set_table_cols t cs db) = o_rows db" "o_version (set_table_cols t cs db) = o_version db"
  "o_indexes (set_table_cols t cs db) = o_indexes db"
  by (simp_all add: set_table_cols_def)

lemma schema_names: "has_schema cs db \<Longrightarrow> set (table_cols ''metrics'' db) = set cs"
  unfolding has_schema_def using mset_eq_setD by blast

lemma apply_add:
  assumes "has_schema cs db" and "n \<notin> fst ` set cs"
  shows "\<exists>db'. apply_change (Add_column n t) db = Some db' \<and> has_schema (cs @ [(n, t, 0)]) db' \<and>
    o_rows db' = map (\<lambda>r. r(n := C_null)) (o_rows db) \<and> o_version db' = o_version db"
proof -
  have "mset (table_cols ''metrics'' db @ [(n, t, 0)]) = mset (cs @ [(n, t, 0)])"
    using assms(1) by (simp add: has_schema_def)
  then show ?thesis
    using assms(2) schema_names [OF assms(1)] has_schema_set_mset [OF assms(1)] by (simp add: Let_def col_names_def)
qed

lemma apply_drop:
  assumes "has_schema cs db" and "n \<in> fst ` set cs" and "n \<noteq> ''timestamp''"
  shows "\<exists>db'. apply_change (Drop_column n) db = Some db' \<and> has_schema (filter (\<lambda>(m, _). m \<noteq> n) cs) db' \<and>
    o_rows db' = map (\<lambda>r. r(n := C_null)) (o_rows db) \<and> o_version db' = o_version db"
proof -
  have "\<not> indexed n db"
    using has_schema_indexes [OF assms(1)] assms(3) by (auto simp: indexed_def list_ex_iff INDEXES_def)
  moreover have "mset (filter (\<lambda>(m, _). m \<noteq> n) (table_cols ''metrics'' db)) = mset (filter (\<lambda>(m, _). m \<noteq> n) cs)"
    using assms(1) by (simp add: has_schema_def mset_filter)
  ultimately show ?thesis
    using assms(2) schema_names [OF assms(1)] has_schema_set_mset [OF assms(1)] by (simp add: Let_def col_names_def)
qed

lemma apply_rename:
  assumes "has_schema cs db" and "a \<in> fst ` set cs" and "b \<notin> fst ` set cs" and "a \<noteq> ''timestamp''"
  shows "\<exists>db'. apply_change (Rename_column a b) db = Some db' \<and>
    has_schema (map (\<lambda>(m, t). (if m = a then b else m, t)) cs) db' \<and>
    o_rows db' = map (\<lambda>r. r(b := r a, a := C_null)) (o_rows db) \<and> o_version db' = o_version db"
proof -
  define ix where "ix = map (\<lambda>(i, t, ns). (i, t, if t = ''metrics'' then map (\<lambda>m. if m = a then b else m) ns else ns)) (o_indexes db)"
  have "ix = o_indexes db"
    unfolding ix_def
  proof (rule map_idI)
    fix x assume "x \<in> set (o_indexes db)"
    then have "x \<in> set INDEXES" using has_schema_indexes [OF assms(1)] by blast
    then have "x = (''idx_alert_log_name'', ''alert_log'', [''alert_name'']) \<or> x = (''idx_metrics_ts'', ''metrics'', [''timestamp''])"
      by (simp add: INDEXES_def)
    then show "(case x of (i, t, ns) \<Rightarrow> (i, t, if t = ''metrics'' then map (\<lambda>m. if m = a then b else m) ns else ns)) = x"
      using assms(4) by (elim disjE) simp_all
  qed
  moreover have "mset (map (\<lambda>(m, t). (if m = a then b else m, t)) (table_cols ''metrics'' db)) =
      mset (map (\<lambda>(m, t). (if m = a then b else m, t)) cs)"
    using assms(1) by (simp only: has_schema_def mset_map)
  then have "has_schema (map (\<lambda>(m, t). (if m = a then b else m, t)) cs)
      (set_table_cols ''metrics'' (map (\<lambda>(m, t). (if m = a then b else m, t)) (table_cols ''metrics'' db)) db)"
    by (rule has_schema_set_mset [OF assms(1)])
  moreover have "a \<in> set (col_names (table_cols ''metrics'' db))" "b \<notin> set (col_names (table_cols ''metrics'' db))"
    using assms(2,3) schema_names [OF assms(1)] by (simp_all add: col_names_def)
  ultimately show ?thesis
    unfolding apply_change.simps Let_def ix_def [symmetric] by (simp add: has_schema_same_indexes)
qed

subsection \<open>The script as a transaction\<close>

fun apply_all :: "change list \<Rightarrow> old_db \<Rightarrow> old_db option" where
  "apply_all [] db = Some db"
| "apply_all (c # cs) db = (case apply_change c db of None \<Rightarrow> None | Some db' \<Rightarrow> apply_all cs db')"

lemma exec_changes:
  assumes "apply_all cs d = Some d'"
  shows "exec_loop (map change_piece cs @ [\<lambda>_. Statement 0 (Act_commit True)]) v \<lparr>saved = d0, open_tx = Some d\<rparr> =
    (0, [], \<lparr>saved = d', open_tx = None\<rparr>)"
  using assms
proof (induction cs arbitrary: d)
  case (Cons c cs)
  then obtain d1 where "apply_change c d = Some d1" "apply_all cs d1 = Some d'" by (auto split: option.splits)
  then show ?case
    using Cons.IH by (simp add: change_piece_def current_db_def run_statement_def)
qed simp

lemma exec_migration:
  "apply_all cs d = Some d' \<Longrightarrow> db_cmd_exec True (migration_script cs) v d = (0, [], d')"
  using exec_changes [of cs d d' v d] by (simp add: db_cmd_exec_def migration_script_def)

subsection \<open>The two migrations\<close>

text \<open>The columns \<open>db.c\<close> creates (\<open>SQL_CREATE\<close>).\<close>

definition SQL_CREATE_COLS :: "column list" where
  "SQL_CREATE_COLS =
     (''timestamp'', ''TEXT'', 1) #
     map (\<lambda>n. (n, ''REAL'', 0)) [''load_1m'', ''load_5m'', ''load_15m'', ''cpu_user_percent'', ''cpu_system_percent'',
       ''cpu_idle_percent'', ''mem_total_mb'', ''mem_available_mb'', ''disk_total_gb'', ''disk_available_gb'',
       ''temp_celsius'', ''net_rx_bps'', ''net_tx_bps'', ''uptime_seconds''] @
     [(''bucket_sec'', ''INTEGER'', 0)] @
     map (\<lambda>n. (n, ''REAL'', 0)) [''swap_total_mb'', ''swap_free_mb'', ''swap_in_bps'', ''swap_out_bps'']"

lemma apply_rates:
  assumes "has_schema cs db" and "{''timestamp'', ''net_rx_bytes'', ''net_tx_bytes'', ''net_rx_bps'', ''net_tx_bps''} \<subseteq> fst ` set cs"
  shows "apply_change Update_rates db = Some (db\<lparr>o_rows := update_rates (o_rows db)\<rparr>)"
  using assms schema_names [OF assms(1)] by (simp add: col_names_def)

definition v0_rows :: "(string \<Rightarrow> sql_cell) list \<Rightarrow> (string \<Rightarrow> sql_cell) list" where
  "v0_rows rows = update_rates (map (\<lambda>r. r(''bucket_sec'' := C_null, ''net_rx_bps'' := C_null, ''net_tx_bps'' := C_null)) rows)"

lemma script_v0_v1:
  assumes "has_schema V0_COLS db"
  shows "\<exists>db'. apply_all SCRIPT_V0_TO_V1 db = Some db' \<and> has_schema V1_COLS db' \<and> o_version db' = 1 \<and>
    o_rows db' = map (\<lambda>r. r(''net_rx_bytes'' := C_null, ''net_tx_bytes'' := C_null)) (v0_rows (o_rows db))"
proof -
  define c1 where "c1 = V0_COLS @ [(''bucket_sec'', ''INTEGER'', 0)]"
  define c2 where "c2 = c1 @ [(''net_rx_bps'', ''REAL'', 0)]"
  define c3 where "c3 = c2 @ [(''net_tx_bps'', ''REAL'', 0)]"
  define c4 where "c4 = filter (\<lambda>(m, _). m \<noteq> ''net_rx_bytes'') c3"
  define c5 where "c5 = filter (\<lambda>(m, _). m \<noteq> ''net_tx_bytes'') c4"
  note cols = c1_def c2_def c3_def c4_def c5_def V0_COLS_def
  obtain d1 where 1: "apply_change (Add_column ''bucket_sec'' ''INTEGER'') db = Some d1" "has_schema c1 d1"
    "o_rows d1 = map (\<lambda>r. r(''bucket_sec'' := C_null)) (o_rows db)"
    using apply_add [OF assms, of "''bucket_sec''" "''INTEGER''"] by (auto simp: cols)
  obtain d2 where 2: "apply_change (Add_column ''net_rx_bps'' ''REAL'') d1 = Some d2" "has_schema c2 d2"
    "o_rows d2 = map (\<lambda>r. r(''net_rx_bps'' := C_null)) (o_rows d1)"
    using apply_add [OF 1(2), of "''net_rx_bps''" "''REAL''"] by (auto simp: cols)
  obtain d3 where 3: "apply_change (Add_column ''net_tx_bps'' ''REAL'') d2 = Some d3" "has_schema c3 d3"
    "o_rows d3 = map (\<lambda>r. r(''net_tx_bps'' := C_null)) (o_rows d2)"
    using apply_add [OF 2(2), of "''net_tx_bps''" "''REAL''"] by (auto simp: cols)
  define d4 where "d4 = d3\<lparr>o_rows := update_rates (o_rows d3)\<rparr>"
  have 4: "apply_change Update_rates d3 = Some d4" "has_schema c3 d4"
    using apply_rates [OF 3(2)] 3(2) by (simp_all add: d4_def cols)
  obtain d5 where 5: "apply_change (Drop_column ''net_rx_bytes'') d4 = Some d5" "has_schema c4 d5"
    "o_rows d5 = map (\<lambda>r. r(''net_rx_bytes'' := C_null)) (o_rows d4)"
    using apply_drop [OF 4(2), of "''net_rx_bytes''"] by (auto simp: cols)
  obtain d6 where 6: "apply_change (Drop_column ''net_tx_bytes'') d5 = Some d6" "has_schema c5 d6"
    "o_rows d6 = map (\<lambda>r. r(''net_tx_bytes'' := C_null)) (o_rows d5)"
    using apply_drop [OF 5(2), of "''net_tx_bytes''"] by (auto simp: cols)
  have "mset c5 = mset V1_COLS" by (simp add: cols V1_COLS_def add_mset_commute)
  then have "has_schema V1_COLS d6" using 6(2) has_schema_mset by blast
  moreover have "o_rows d6 = map (\<lambda>r. r(''net_rx_bytes'' := C_null, ''net_tx_bytes'' := C_null)) (v0_rows (o_rows db))"
    by (simp add: 6(3) 5(3) d4_def 3(3) 2(3) 1(3) v0_rows_def comp_def)
  ultimately show ?thesis
    by (simp add: SCRIPT_V0_TO_V1_def 1(1) 2(1) 3(1) 4(1) 5(1) 6(1) del: apply_change.simps(1-4))
qed


lemma script_v1_v2:
  assumes "has_schema V1_COLS db"
  shows "\<exists>db'. apply_all SCRIPT_V1_TO_V2 db = Some db' \<and> has_schema SQL_CREATE_COLS db' \<and> o_version db' = 2 \<and>
    o_rows db' = map (\<lambda>r. (fold (\<lambda>n r. r(n := C_null)) [''swap_total_mb'', ''swap_free_mb'', ''swap_in_bps'', ''swap_out_bps'',
      ''mem_used_mb'', ''mem_percent'', ''disk_used_gb'', ''disk_percent''] r)
      (''disk_available_gb'' := r ''disk_free_gb'', ''disk_free_gb'' := C_null)) (o_rows db)"
proof -
  define c1 where "c1 = V1_COLS @ [(''swap_total_mb'', ''REAL'', 0)]"
  define c2 where "c2 = c1 @ [(''swap_free_mb'', ''REAL'', 0)]"
  define c3 where "c3 = c2 @ [(''swap_in_bps'', ''REAL'', 0)]"
  define c4 where "c4 = c3 @ [(''swap_out_bps'', ''REAL'', 0)]"
  define c5 where "c5 = filter (\<lambda>(m, _). m \<noteq> ''mem_used_mb'') c4"
  define c6 where "c6 = filter (\<lambda>(m, _). m \<noteq> ''mem_percent'') c5"
  define c7 where "c7 = filter (\<lambda>(m, _). m \<noteq> ''disk_used_gb'') c6"
  define c8 where "c8 = filter (\<lambda>(m, _). m \<noteq> ''disk_percent'') c7"
  define c9 where "c9 = map (\<lambda>(m, t). (if m = ''disk_free_gb'' then ''disk_available_gb'' else m, t)) c8"
  note cols = c1_def c2_def c3_def c4_def c5_def c6_def c7_def c8_def c9_def V1_COLS_def
  obtain d1 where 1: "apply_change (Add_column ''swap_total_mb'' ''REAL'') db = Some d1" "has_schema c1 d1"
    "o_rows d1 = map (\<lambda>r. r(''swap_total_mb'' := C_null)) (o_rows db)"
    using apply_add [OF assms, of "''swap_total_mb''" "''REAL''"] by (auto simp: cols)
  obtain d2 where 2: "apply_change (Add_column ''swap_free_mb'' ''REAL'') d1 = Some d2" "has_schema c2 d2"
    "o_rows d2 = map (\<lambda>r. r(''swap_free_mb'' := C_null)) (o_rows d1)"
    using apply_add [OF 1(2), of "''swap_free_mb''" "''REAL''"] by (auto simp: cols)
  obtain d3 where 3: "apply_change (Add_column ''swap_in_bps'' ''REAL'') d2 = Some d3" "has_schema c3 d3"
    "o_rows d3 = map (\<lambda>r. r(''swap_in_bps'' := C_null)) (o_rows d2)"
    using apply_add [OF 2(2), of "''swap_in_bps''" "''REAL''"] by (auto simp: cols)
  obtain d4 where 4: "apply_change (Add_column ''swap_out_bps'' ''REAL'') d3 = Some d4" "has_schema c4 d4"
    "o_rows d4 = map (\<lambda>r. r(''swap_out_bps'' := C_null)) (o_rows d3)"
    using apply_add [OF 3(2), of "''swap_out_bps''" "''REAL''"] by (auto simp: cols)
  obtain d5 where 5: "apply_change (Drop_column ''mem_used_mb'') d4 = Some d5" "has_schema c5 d5"
    "o_rows d5 = map (\<lambda>r. r(''mem_used_mb'' := C_null)) (o_rows d4)"
    using apply_drop [OF 4(2), of "''mem_used_mb''"] by (auto simp: cols)
  obtain d6 where 6: "apply_change (Drop_column ''mem_percent'') d5 = Some d6" "has_schema c6 d6"
    "o_rows d6 = map (\<lambda>r. r(''mem_percent'' := C_null)) (o_rows d5)"
    using apply_drop [OF 5(2), of "''mem_percent''"] by (auto simp: cols)
  obtain d7 where 7: "apply_change (Drop_column ''disk_used_gb'') d6 = Some d7" "has_schema c7 d7"
    "o_rows d7 = map (\<lambda>r. r(''disk_used_gb'' := C_null)) (o_rows d6)"
    using apply_drop [OF 6(2), of "''disk_used_gb''"] by (auto simp: cols)
  obtain d8 where 8: "apply_change (Drop_column ''disk_percent'') d7 = Some d8" "has_schema c8 d8"
    "o_rows d8 = map (\<lambda>r. r(''disk_percent'' := C_null)) (o_rows d7)"
    using apply_drop [OF 7(2), of "''disk_percent''"] by (auto simp: cols)
  obtain d9 where 9: "apply_change (Rename_column ''disk_free_gb'' ''disk_available_gb'') d8 = Some d9" "has_schema c9 d9"
    "o_rows d9 = map (\<lambda>r. r(''disk_available_gb'' := r ''disk_free_gb'', ''disk_free_gb'' := C_null)) (o_rows d8)"
    using apply_rename [OF 8(2), of "''disk_free_gb''" "''disk_available_gb''"] by (auto simp: cols)
  have "mset c9 = mset SQL_CREATE_COLS" by (simp add: cols SQL_CREATE_COLS_def add_mset_commute)
  then have "has_schema SQL_CREATE_COLS d9" using 9(2) has_schema_mset by blast
  then show ?thesis
    by (simp add: SCRIPT_V1_TO_V2_def 1(1) 2(1) 3(1) 4(1) 5(1) 6(1) 7(1) 8(1) 9(1) del: apply_change.simps(1-4))
      (simp add: 1(3) 2(3) 3(3) 4(3) 5(3) 6(3) 7(3) 8(3) 9(3) comp_def)
qed

lemma length_update_rates [simp]: "length (update_rates rows) = length rows"
  by (simp add: update_rates_def)

lemma update_rates_nth:
  "i < length rows \<Longrightarrow> update_rates rows ! i = set_rates (predecessor i (\<lambda>_. C_null) (by_time rows)) (rows ! i)"
  by (simp add: update_rates_def nth_enumerate_eq)

lemma update_rates_other:
  "n \<noteq> ''net_rx_bps'' \<Longrightarrow> n \<noteq> ''net_tx_bps'' \<Longrightarrow> map (\<lambda>r. r n) (update_rates rows) = map (\<lambda>r. r n) rows"
  by (rule nth_equalityI) (simp_all add: update_rates_nth set_rates_def)

text \<open>The columns the samples keep through both migrations.\<close>

definition KEPT :: "string list" where
  "KEPT = [''timestamp'', ''load_1m'', ''load_5m'', ''load_15m'', ''cpu_user_percent'', ''cpu_system_percent'',
     ''cpu_idle_percent'', ''mem_total_mb'', ''mem_available_mb'', ''disk_total_gb'', ''temp_celsius'', ''uptime_seconds'']"

definition column :: "string \<Rightarrow> old_db \<Rightarrow> sql_cell list" where
  "column n db = map (\<lambda>r. r n) (o_rows db)"

text \<open>C9: The chain of migrations leads from a canonical v0 database to the schema the daemon creates. In
  whatever order the tables, indexes and columns stand, a v0 database has the v0 fingerprint, the
  first script runs through \<open>db exec\<close> with status 0, its result has the v1 fingerprint that guards
  the second one, and the second one gives the columns of \<open>SQL_CREATE\<close> and the version \<open>db_open\<close>
  asks for. No sample is lost, the columns that stay keep their values, and the free disk space
  becomes the available one.\<close>

theorem migration_chain:
  assumes "has_schema V0_COLS db"
  shows "\<exists>db1 db2. fingerprint db = V0_SCHEMA_FINGERPRINT \<and>
    db_cmd_exec True (migration_script SCRIPT_V0_TO_V1) None db = (0, [], db1) \<and>
    fingerprint db1 = V1_SCHEMA_FINGERPRINT \<and>
    db_cmd_exec True (migration_script SCRIPT_V1_TO_V2) None db1 = (0, [], db2) \<and>
    has_schema SQL_CREATE_COLS db2 \<and> o_version db2 = MINIMONI_SCHEMA_VERSION \<and>
    length (o_rows db2) = length (o_rows db) \<and> (\<forall>n \<in> set KEPT. column n db2 = column n db) \<and>
    column ''disk_available_gb'' db2 = column ''disk_free_gb'' db"
proof -
  obtain db1 where 1: "apply_all SCRIPT_V0_TO_V1 db = Some db1" "has_schema V1_COLS db1"
    "o_rows db1 = map (\<lambda>r. r(''net_rx_bytes'' := C_null, ''net_tx_bytes'' := C_null)) (v0_rows (o_rows db))"
    using script_v0_v1 [OF assms] by blast
  obtain db2 where 2: "apply_all SCRIPT_V1_TO_V2 db1 = Some db2" "has_schema SQL_CREATE_COLS db2" "o_version db2 = 2"
    and rows2: "o_rows db2 = map (\<lambda>r. (fold (\<lambda>n r. r(n := C_null)) [''swap_total_mb'', ''swap_free_mb'', ''swap_in_bps'', ''swap_out_bps'',
      ''mem_used_mb'', ''mem_percent'', ''disk_used_gb'', ''disk_percent''] r)
      (''disk_available_gb'' := r ''disk_free_gb'', ''disk_free_gb'' := C_null)) (o_rows db1)"
    using script_v1_v2 [OF 1(2)] by blast
  have c2: "column n db2 = column n db1" if "n \<in> set KEPT" for n
  proof -
    have "list_all (\<lambda>m. n \<noteq> m) [''swap_total_mb'', ''swap_free_mb'', ''swap_in_bps'', ''swap_out_bps'', ''mem_used_mb'',
        ''mem_percent'', ''disk_used_gb'', ''disk_percent'', ''disk_available_gb'', ''disk_free_gb'']"
      using that by (auto simp: KEPT_def)
    then show ?thesis unfolding column_def rows2 by (simp add: comp_def)
  qed
  have d2: "column ''disk_available_gb'' db2 = column ''disk_free_gb'' db1"
    unfolding column_def rows2 by simp
  have c1: "column n db1 = column n db" if "n \<in> set (''disk_free_gb'' # KEPT)" for n
  proof -
    have n: "n \<noteq> ''net_rx_bytes''" "n \<noteq> ''net_tx_bytes''" "n \<noteq> ''net_rx_bps''" "n \<noteq> ''net_tx_bps''" "n \<noteq> ''bucket_sec''"
      using that by (auto simp: KEPT_def)
    then have "column n db1 = map (\<lambda>r. r n) (v0_rows (o_rows db))" by (simp add: column_def 1(3) comp_def)
    also have "\<dots> = column n db" unfolding v0_rows_def update_rates_other [OF n(3,4)] using n by (simp add: column_def comp_def)
    finally show ?thesis .
  qed
  have "length (o_rows db2) = length (o_rows db)" by (simp add: rows2 1(3) v0_rows_def)
  then show ?thesis
    using exec_migration [OF 1(1)] exec_migration [OF 2(1)] fingerprint_v0 [OF assms] fingerprint_v1 [OF 1(2)] 2(2,3)
      c1 c2 d2 by (intro exI [of _ db1] exI [of _ db2]) (simp add: MINIMONI_SCHEMA_VERSION_def)
qed

text \<open>A v0 database with its columns as v0.1 created them.\<close>

definition sample_v0 :: old_db where
  "sample_v0 = \<lparr>o_version = 0, o_tables = [(''metrics'', rev V0_COLS), (''alert_log'', ALERT_COLS)],
     o_indexes = rev INDEXES,
     o_rows = [\<lambda>n. if n = ''timestamp'' then C_text (iso_of 100) else if n = ''net_rx_bytes'' then C_int 50
                 else if n = ''net_tx_bytes'' then C_int 7 else C_null,
               \<lambda>n. if n = ''timestamp'' then C_text (iso_of 110) else if n = ''net_rx_bytes'' then C_int 90
                 else if n = ''net_tx_bytes'' then C_int 2 else C_null]\<rparr>"

lemma sample_v0_schema: "has_schema V0_COLS sample_v0"
  by (simp add: has_schema_def sample_v0_def table_cols_def add_mset_commute)

theorem migration_chain_witness:
  "\<exists>db1. db_cmd_exec True (migration_script SCRIPT_V0_TO_V1) None sample_v0 = (0, [], db1) \<and>
    fingerprint db1 = V1_SCHEMA_FINGERPRINT"
  using migration_chain [OF sample_v0_schema] by blast

lemma insort_key_map: "insort_key f (g x) (map g xs) = map g (insort_key (\<lambda>y. f (g y)) x xs)"
  by (induction xs) simp_all

lemma sort_key_map': "sort_key f (map g xs) = map g (sort_key (\<lambda>y. f (g y)) xs)"
  by (induction xs) (simp_all add: insort_key_map)

lemma by_time_map:
  assumes "\<And>r. f r ''timestamp'' = r ''timestamp''"
  shows "by_time (map f rows) = map (\<lambda>(i, r). (i, f r)) (by_time rows)"
proof -
  have "List.enumerate 0 (map f rows) = map (\<lambda>(i, r). (i, f r)) (List.enumerate 0 rows)"
    by (rule nth_equalityI) (simp_all add: nth_enumerate_eq)
  then show ?thesis
    unfolding by_time_def by (simp add: sort_key_map' case_prod_beta' assms)
qed

lemma predecessor_nth:
  "k < length L \<Longrightarrow> distinct (map fst L) \<Longrightarrow>
   predecessor (fst (L ! k)) p L = (if k = 0 then p else snd (L ! (k - 1)))"
proof (induction L arbitrary: k p)
  case (Cons x L)
  obtain a r where x: "x = (a, r)" by (cases x)
  show ?case
  proof (cases k)
    case 0
    then show ?thesis by (simp add: x)
  next
    case (Suc j)
    then have j: "j < length L" "distinct (map fst L)" using Cons.prems by simp_all
    have "fst (L ! j) \<in> fst ` set L" using nth_mem [OF j(1)] by (rule imageI)
    then have "fst (L ! j) \<noteq> a" using Cons.prems(2) x by auto
    then have "predecessor (fst (L ! j)) p (x # L) = (if j = 0 then r else snd (L ! (j - 1)))"
      using Cons.IH [OF j, of r] by (simp add: x)
    then show ?thesis by (cases j) (simp_all add: Suc x)
  qed
qed simp

lemma by_time_distinct: "distinct (map fst (by_time rows))"
proof -
  have "mset (by_time rows) = mset (List.enumerate 0 rows)" by (simp add: by_time_def)
  then have "mset (map fst (by_time rows)) = mset (map fst (List.enumerate 0 rows))" by (simp only: mset_map)
  then show ?thesis by (metis mset_eq_imp_distinct_iff map_fst_enumerate distinct_upt)
qed

lemma by_time_nth:
  assumes "k < length rows"
  shows "k < length (by_time rows)" and "fst (by_time rows ! k) < length rows"
    and "snd (by_time rows ! k) = rows ! fst (by_time rows ! k)"
proof -
  show len: "k < length (by_time rows)" using assms by (simp add: by_time_def)
  have "by_time rows ! k \<in> set (List.enumerate 0 rows)"
    using nth_mem [OF len] by (simp add: by_time_def)
  then show "fst (by_time rows ! k) < length rows" "snd (by_time rows ! k) = rows ! fst (by_time rows ! k)"
    by (auto simp: in_set_enumerate_eq)
qed

text \<open>After the first script a row has the rates of its counters and of those of the row before it.\<close>

lemma migrated_rate_of:
  assumes "has_schema V0_COLS db" and "db_cmd_exec True (migration_script SCRIPT_V0_TO_V1) None db = (rc, shown, db1)"
    and "k < length (o_rows db)"
  shows "let ordered = by_time (o_rows db); i = fst (ordered ! k); r = o_rows db ! i;
      prev = (if k = 0 then (\<lambda>_. C_null) else o_rows db ! fst (ordered ! (k - 1)))
    in i < length (o_rows db) \<and>
      (o_rows db1 ! i) ''net_rx_bps'' = rate_of (r ''net_rx_bytes'') (prev ''net_rx_bytes'') (r ''timestamp'') (prev ''timestamp'') \<and>
      (o_rows db1 ! i) ''net_tx_bps'' = rate_of (r ''net_tx_bytes'') (prev ''net_tx_bytes'') (r ''timestamp'') (prev ''timestamp'')"
proof -
  define f where "f = (\<lambda>r. r(''bucket_sec'' := C_null, ''net_rx_bps'' := C_null, ''net_tx_bps'' := C_null :: sql_cell))"
  define rows where "rows = o_rows db"
  define L where "L = by_time rows"
  define i where "i = fst (L ! k)"
  have ts: "f r ''timestamp'' = r ''timestamp''" for r by (simp add: f_def)
  obtain db1' where s: "apply_all SCRIPT_V0_TO_V1 db = Some db1'"
    "o_rows db1' = map (\<lambda>r. r(''net_rx_bytes'' := C_null, ''net_tx_bytes'' := C_null)) (v0_rows rows)"
    using script_v0_v1 [OF assms(1)] unfolding rows_def by blast
  have "db1' = db1" using exec_migration [OF s(1), of None] assms(2) by simp
  then have db1: "o_rows db1 = map (\<lambda>r. r(''net_rx_bytes'' := C_null, ''net_tx_bytes'' := C_null)) (update_rates (map f rows))"
    using s(2) by (simp add: v0_rows_def f_def)
  have k: "k < length L" "i < length rows" "snd (L ! k) = rows ! i"
    using by_time_nth [of k rows] assms(3) by (simp_all add: L_def i_def rows_def)
  have km: "k - 1 < length L" "snd (L ! (k - 1)) = rows ! fst (L ! (k - 1))"
    using by_time_nth [of "k - 1" rows] assms(3) by (simp_all add: L_def rows_def)
  have m: "by_time (map f rows) = map (\<lambda>(i, r). (i, f r)) L"
    unfolding L_def by (rule by_time_map) (rule ts)
  have "distinct (map fst (map (\<lambda>(i, r). (i, f r)) L))" using by_time_distinct [of "map f rows"] unfolding m .
  then have "predecessor (fst (map (\<lambda>(i, r). (i, f r)) L ! k)) (\<lambda>_. C_null) (map (\<lambda>(i, r). (i, f r)) L) =
      (if k = 0 then (\<lambda>_. C_null) else snd (map (\<lambda>(i, r). (i, f r)) L ! (k - 1)))"
    using k(1) by (intro predecessor_nth) simp_all
  then have prev: "predecessor i (\<lambda>_. C_null) (by_time (map f rows)) =
      (if k = 0 then (\<lambda>_. C_null) else f (rows ! fst (L ! (k - 1))))"
    using k(1) km by (simp add: m i_def case_prod_beta')
  have "o_rows db1 ! i = (set_rates (if k = 0 then (\<lambda>_. C_null) else f (rows ! fst (L ! (k - 1)))) (f (rows ! i)))
      (''net_rx_bytes'' := C_null, ''net_tx_bytes'' := C_null)"
    using k(2) by (simp add: db1 update_rates_nth prev)
  then show ?thesis
    using k(2) unfolding rows_def [symmetric] L_def [symmetric] Let_def i_def [symmetric]
    by (simp add: set_rates_def f_def)
qed

text \<open>The rate of a counter, from a row and the one before it in time: what the counter grew by, over
  the seconds between them; NULL when a value is missing, the counter went back, or no time has passed.\<close>

definition is_rate :: "string \<Rightarrow> (string \<Rightarrow> sql_cell) \<Rightarrow> (string \<Rightarrow> sql_cell) \<Rightarrow> sql_cell \<Rightarrow> bool" where
  "is_rate counter prev cur rate =
     (if \<exists>a b t u. num_of (cur counter) = Some a \<and> num_of (prev counter) = Some b \<and>
           unix_cell (cur ''timestamp'') = Some t \<and> unix_cell (prev ''timestamp'') = Some u \<and> b \<le> a \<and> u < t
      then \<exists>v. rate = C_real (Fin v) \<and> 0 \<le> v \<and>
           v = (the (num_of (cur counter)) - the (num_of (prev counter))) /
               of_int (the (unix_cell (cur ''timestamp'')) - the (unix_cell (prev ''timestamp'')))
      else rate = C_null)"

lemma is_rate_rate_of:
  "is_rate counter prev cur (rate_of (cur counter) (prev counter) (cur ''timestamp'') (prev ''timestamp''))"
  by (auto simp: is_rate_def rate_of_def split: option.splits)

lemma rate_of_nothing: "rate_of a C_null t u = C_null"
  by (simp add: rate_of_def num_of_def split: option.split)

lemma by_time_order:
  "set (map fst (by_time rows)) = {..<length rows}" "length (by_time rows) = length rows"
  "sorted (map (\<lambda>i. text_cell ((rows ! i) ''timestamp'')) (map fst (by_time rows)))"
proof -
  have m: "mset (by_time rows) = mset (List.enumerate 0 rows)" by (simp add: by_time_def)
  then have "mset (map fst (by_time rows)) = mset (map fst (List.enumerate 0 rows))" by (simp only: mset_map)
  then have "set (map fst (by_time rows)) = set (map fst (List.enumerate 0 rows))" by (metis set_mset_mset)
  then show "set (map fst (by_time rows)) = {..<length rows}" by (simp add: map_fst_enumerate lessThan_atLeast0)
  show len: "length (by_time rows) = length rows" by (simp add: by_time_def)
  have "map (\<lambda>i. text_cell ((rows ! i) ''timestamp'')) (map fst (by_time rows)) =
      map (\<lambda>(_, r). text_cell (r ''timestamp'')) (by_time rows)"
    by (rule nth_equalityI) (use by_time_nth(3) in \<open>auto simp: len case_prod_beta'\<close>)
  then show "sorted (map (\<lambda>i. text_cell ((rows ! i) ''timestamp'')) (map fst (by_time rows)))"
    by (simp only: by_time_def sorted_sort_key)
qed

text \<open>C26: The network rates of a v0 database are rebuilt the way the daemon measures them: in an order of
  the rows by timestamp, the first one has no rates, and every other one has, for what was received
  and for what was sent, the growth of the counter since the row before it over the seconds between
  them; NULL if the counter went back, no time has passed, or a value is missing. A rate is never
  negative. (The quotient is exact here, where SQLite rounds it to a double.)\<close>

theorem migrated_rates:
  assumes "has_schema V0_COLS db" and "db_cmd_exec True (migration_script SCRIPT_V0_TO_V1) None db = (rc, shown, db1)"
  shows "\<exists>ord. distinct ord \<and> set ord = {..<length (o_rows db)} \<and>
    sorted (map (\<lambda>i. text_cell ((o_rows db ! i) ''timestamp'')) ord) \<and>
    (\<forall>(counter, rate) \<in> {(''net_rx_bytes'', ''net_rx_bps''), (''net_tx_bytes'', ''net_tx_bps'')}.
       \<forall>k < length (o_rows db).
         if k = 0 then (o_rows db1 ! (ord ! k)) rate = C_null
         else is_rate counter (o_rows db ! (ord ! (k - 1))) (o_rows db ! (ord ! k)) ((o_rows db1 ! (ord ! k)) rate))"
proof -
  define ord where "ord = map fst (by_time (o_rows db))"
  have nth: "ord ! k = fst (by_time (o_rows db) ! k)" if "k < length (o_rows db)" for k
    using that by_time_order(2) by (simp add: ord_def)
  have "if k = 0 then (o_rows db1 ! (ord ! k)) rate = C_null
      else is_rate counter (o_rows db ! (ord ! (k - 1))) (o_rows db ! (ord ! k)) ((o_rows db1 ! (ord ! k)) rate)"
    if k: "k < length (o_rows db)"
      and c: "(counter, rate) \<in> {(''net_rx_bytes'', ''net_rx_bps''), (''net_tx_bytes'', ''net_tx_bps'')}" for k counter rate
  proof -
    have "k - 1 < length (o_rows db)" using k by simp
    note n = nth [OF k] nth [OF this, unfolded One_nat_def]
    show ?thesis
      using migrated_rate_of [OF assms k] c
      by (auto simp: Let_def n [symmetric] rate_of_nothing is_rate_rate_of)
  qed
  then have rates: "\<forall>(counter, rate) \<in> {(''net_rx_bytes'', ''net_rx_bps''), (''net_tx_bytes'', ''net_tx_bps'')}.
      \<forall>k < length (o_rows db).
        if k = 0 then (o_rows db1 ! (ord ! k)) rate = C_null
        else is_rate counter (o_rows db ! (ord ! (k - 1))) (o_rows db ! (ord ! k)) ((o_rows db1 ! (ord ! k)) rate)"
    by blast
  show ?thesis
    by (intro exI [of _ ord] conjI rates)
      (simp_all only: ord_def by_time_distinct by_time_order)
qed

text \<open>Two rows ten seconds apart: the first counter grew by 40, the second went back.\<close>

theorem migrated_rates_witness:
  "\<exists>db1. db_cmd_exec True (migration_script SCRIPT_V0_TO_V1) None sample_v0 = (0, [], db1) \<and>
    (o_rows db1 ! 1) ''net_rx_bps'' = C_real (Fin 4) \<and> (o_rows db1 ! 1) ''net_tx_bps'' = C_null"
proof -
  obtain db1 where s: "apply_all SCRIPT_V0_TO_V1 sample_v0 = Some db1"
    using script_v0_v1 [OF sample_v0_schema] by blast
  note e = exec_migration [OF s, of None]
  define a b where "a = o_rows sample_v0 ! 0" and "b = o_rows sample_v0 ! 1"
  have rows: "o_rows sample_v0 = [a, b]" by (simp add: a_def b_def sample_v0_def)
  have ok: "time_ok 100" "time_ok 110" by (simp_all add: time_ok_def)
  have less: "iso_of 100 < iso_of 110" using iso.fmt_less ok by simp
  have ts: "a ''timestamp'' = C_text (iso_of 100)" "b ''timestamp'' = C_text (iso_of 110)"
    by (simp_all add: a_def b_def sample_v0_def)
  obtain ord where ord: "distinct ord" "set ord = {..<length [a, b]}"
      "sorted (map (\<lambda>i. text_cell (([a, b] ! i) ''timestamp'')) ord)"
    and all: "\<forall>(counter, rate) \<in> {(''net_rx_bytes'', ''net_rx_bps''), (''net_tx_bytes'', ''net_tx_bps'')}.
       \<forall>k < length [a, b].
         if k = 0 then (o_rows db1 ! (ord ! k)) rate = C_null
         else is_rate counter ([a, b] ! (ord ! (k - 1))) ([a, b] ! (ord ! k)) ((o_rows db1 ! (ord ! k)) rate)"
    using migrated_rates [OF sample_v0_schema e] unfolding rows by blast
  have rates: "is_rate counter ([a, b] ! (ord ! 0)) ([a, b] ! (ord ! 1)) ((o_rows db1 ! (ord ! 1)) rate)"
    if "(counter, rate) \<in> {(''net_rx_bytes'', ''net_rx_bps''), (''net_tx_bytes'', ''net_tx_bps'')}" for counter rate
    using bspec [OF all that] by (auto dest: spec [of _ 1])
  have len: "length ord = 2" using distinct_card [OF ord(1)] unfolding ord(2) by simp
  then obtain x y where xy: "ord = [x, y]" by (auto simp: length_Suc_conv numeral_2_eq_2)
  then have "x = 0 \<and> y = 1"
    using ord less by (auto simp: ts text_cell_def lessThan_Suc doubleton_eq_iff)
  then have "is_rate ''net_rx_bytes'' a b ((o_rows db1 ! 1) ''net_rx_bps'')" "is_rate ''net_tx_bytes'' a b ((o_rows db1 ! 1) ''net_tx_bps'')"
    using rates xy by auto
  then show ?thesis
    using e ok by (intro exI [of _ db1])
      (simp add: is_rate_def a_def b_def sample_v0_def num_of_def unix_cell_def iso.parse_fmt)
qed

end
