(* ===== verification/MigExec.thy ===== *)
theory MigExec
  imports CLib
begin

text \<open>
  \<open>src/migrate/exec.c\<close>: running \<open>minimoni db exec\<close> in a child process and keeping the beginning of
  what it prints. Each pipe is the text the child still has to deliver; how \<open>poll\<close> and \<open>read\<close> hand
  it over is an argument.
\<close>

subsection \<open>Reading the two pipes\<close>

text \<open>\<open>sink_t\<close>: what is kept of a stream, in a buffer of \<open>room\<close> bytes.\<close>

record sink_t =
  room :: nat
  kept :: string

text \<open>One read, of which \<open>read\<close> returns at most \<open>k\<close> bytes: the stream and the sink afterwards, or
  \<open>None\<close> at the end of the stream or on an error (\<open>k = 0\<close>).\<close>

definition sink_read :: "nat \<Rightarrow> string \<Rightarrow> sink_t \<Rightarrow> (string \<times> sink_t) option" where
  "sink_read k pending s =
     (let keep = length (kept s) + 1 < room s;
          want = (if keep then room s - 1 - length (kept s) else 1024);
          got = take (min k want) pending
      in if got = [] then None
         else Some (drop (min k want) pending, if keep then s\<lparr>kept := kept s @ got\<rparr> else s))"

text \<open>What \<open>poll\<close> reports: interrupted, failed, or for each stream whether it has events, and then how
  much a read of it gives.\<close>

datatype poll_result = Interrupted | Poll_failed | Events "nat option" "nat option"

text \<open>A stream: still polled, what is left of it, and its sink.\<close>

type_synonym stream = "bool \<times> string \<times> sink_t"

definition stream_event :: "nat option \<Rightarrow> stream \<Rightarrow> stream" where
  "stream_event ev st =
     (case st of (polled, pending, s) \<Rightarrow>
        (case ev of
           None \<Rightarrow> st
         | Some k \<Rightarrow>
             if \<not> polled then st
             else (case sink_read k pending s of
                     None \<Rightarrow> (False, pending, s)
                   | Some (pending', s') \<Rightarrow> (True, pending', s'))))"

text \<open>The loop, over what \<open>poll\<close> reports each time.\<close>

fun drain_both :: "poll_result list \<Rightarrow> stream \<Rightarrow> stream \<Rightarrow> stream \<times> stream" where
  "drain_both [] a b = (a, b)"
| "drain_both (p # ps) a b =
     (if \<not> fst a \<and> \<not> fst b then (a, b)
      else case p of
             Interrupted \<Rightarrow> drain_both ps a b
           | Poll_failed \<Rightarrow> (a, b)
           | Events x y \<Rightarrow> drain_both ps (stream_event x a) (stream_event y b))"

subsection \<open>The child\<close>

datatype child_end = Wait_failed | Exited int | Killed

text \<open>What happens to one call: whether the pipes and the process could be made, what the child prints
  on each of its outputs, how the reads go, and how it ends.\<close>

record call_env =
  out_pipe_ok :: bool
  err_pipe_ok :: bool
  fork_ok :: bool
  child_out :: string
  child_err :: string
  polls :: "poll_result list"
  ended :: child_end

text \<open>The arguments of the child after the program's name.\<close>

definition child_args :: "string \<Rightarrow> string \<Rightarrow> string option \<Rightarrow> string list" where
  "child_args db_path q value =
     [''db'', ''exec'', db_path, q] @ (case value of None \<Rightarrow> [] | Some v \<Rightarrow> [v])"

definition exit_code :: "child_end \<Rightarrow> int" where
  "exit_code e =
     (case e of
        Wait_failed \<Rightarrow> - 1
      | Killed \<Rightarrow> - 3
      | Exited rc \<Rightarrow> if rc = 127 then - 2 else rc)"

text \<open>The result and the two buffers.\<close>

definition migrate_exec :: "call_env \<Rightarrow> nat \<Rightarrow> nat \<Rightarrow> int \<times> string \<times> string" where
  "migrate_exec e out_size err_size =
     (if \<not> out_pipe_ok e \<or> \<not> err_pipe_ok e \<or> \<not> fork_ok e then (- 1, [], [])
      else case drain_both (polls e) (True, child_out e, \<lparr>room = out_size, kept = []\<rparr>)
                  (True, child_err e, \<lparr>room = err_size, kept = []\<rparr>) of
             ((_, _, s), (_, _, t)) \<Rightarrow> (exit_code (ended e), kept s, kept t))"

subsection \<open>What is kept\<close>

text \<open>After any reads, the sink has the beginning of what was read.\<close>

definition stream_inv :: "string \<Rightarrow> nat \<Rightarrow> stream \<Rightarrow> bool" where
  "stream_inv whole n st =
     (case st of (polled, pending, s) \<Rightarrow>
        room s = n \<and> (\<exists>got. whole = got @ pending \<and> kept s = take (n - 1) got))"

lemma sink_read_inv:
  assumes "sink_read k pending s = Some (pending', s')" and "stream_inv whole n (True, pending, s)"
  shows "stream_inv whole n (True, pending', s')"
proof -
  obtain got where w: "whole = got @ pending" and k: "kept s = take (n - 1) got" and r: "room s = n"
    using assms(2) by (auto simp: stream_inv_def)
  define want where "want = (if length (kept s) + 1 < n then n - 1 - length (kept s) else 1024)"
  define new where "new = take (min k want) pending"
  have p: "pending' = drop (min k want) pending" and s': "s' = (if length (kept s) + 1 < n then s\<lparr>kept := kept s @ new\<rparr> else s)"
    using assms(1) r by (auto simp: sink_read_def Let_def want_def new_def split: if_splits)
  have "whole = (got @ new) @ pending'" by (simp add: w p new_def)
  moreover have "room s' = n" using s' r by simp
  moreover have "kept s' = take (n - 1) (got @ new)"
  proof (cases "length (kept s) + 1 < n")
    case True
    then have "length got < n - 1" using k by (cases "length got < n - 1") simp_all
    then have "kept s = got" and "length new \<le> n - 1 - length got"
      using k True by (simp_all add: new_def want_def)
    then show ?thesis using s' True by simp
  next
    case False
    then have "n - 1 \<le> length got" using k by simp
    then show ?thesis using s' False k by simp
  qed
  ultimately show ?thesis by (auto simp: stream_inv_def)
qed

lemma stream_event_inv: "stream_inv whole n st \<Longrightarrow> stream_inv whole n (stream_event ev st)"
proof -
  assume inv: "stream_inv whole n st"
  obtain polled pending s where st: "st = (polled, pending, s)" by (cases st)
  show ?thesis
  proof (cases "ev = None \<or> \<not> polled")
    case True
    then show ?thesis using inv st by (auto simp: stream_event_def split: option.split)
  next
    case False
    then obtain k where k: "ev = Some k" and polled by auto
    then show ?thesis
      using inv st sink_read_inv [of k pending s _ _ whole n]
      by (auto simp: stream_event_def stream_inv_def split: option.split)
  qed
qed

lemma drain_both_inv:
  "stream_inv w n a \<Longrightarrow> stream_inv v m b \<Longrightarrow>
   stream_inv w n (fst (drain_both ps a b)) \<and> stream_inv v m (snd (drain_both ps a b))"
  by (induction ps a b rule: drain_both.induct) (auto split: poll_result.split simp: stream_event_inv)

definition read_out :: "call_env \<Rightarrow> nat \<Rightarrow> nat \<Rightarrow> bool" where
  "read_out e n m =
     (case drain_both (polls e) (True, child_out e, \<lparr>room = n, kept = []\<rparr>) (True, child_err e, \<lparr>room = m, kept = []\<rparr>) of
        ((_, p, _), (_, q, _)) \<Rightarrow> p = [] \<and> q = [])"

text \<open>C27: What \<open>migrate_exec\<close> keeps of the child does not depend on how the two pipes are read: whatever
  the sizes of the reads, their interleaving and the interruptions, once both have been read out
  each buffer has exactly the beginning of what the child printed there, as much as fits with the
  terminating zero, and the rest was taken off the pipe.\<close>

theorem migrate_exec_keeps:
  assumes "out_pipe_ok e" and "err_pipe_ok e" and "fork_ok e" and "read_out e n m"
  shows "migrate_exec e n m = (exit_code (ended e), take (n - 1) (child_out e), take (m - 1) (child_err e))"
proof -
  define a where "a = (True, child_out e, \<lparr>room = n, kept = []\<rparr>)"
  define b where "b = (True, child_err e, \<lparr>room = m, kept = []\<rparr>)"
  obtain p q s p' q' t where d: "drain_both (polls e) a b = ((p, q, s), (p', q', t))"
    by (metis prod.collapse)
  have "stream_inv (child_out e) n a" "stream_inv (child_err e) m b"
    by (simp_all add: stream_inv_def a_def b_def)
  then have "stream_inv (child_out e) n (p, q, s)" "stream_inv (child_err e) m (p', q', t)"
    using drain_both_inv [of "child_out e" n a "child_err e" m b "polls e"] d by simp_all
  moreover have "q = []" "q' = []" using assms(4) d by (simp_all add: read_out_def a_def b_def)
  ultimately show ?thesis
    using assms(1-3) d by (simp add: migrate_exec_def a_def b_def stream_inv_def)
qed

theorem migrate_exec_keeps_witness:
  "migrate_exec \<lparr>out_pipe_ok = True, err_pipe_ok = True, fork_ok = True, child_out = ''12345'', child_err = ''no'',
     polls = [Events (Some 3) None, Interrupted, Events (Some 9) (Some 1), Events (Some 9) (Some 9)],
     ended = Exited 0\<rparr> 5 64 = (0, ''1234'', ''no'')"
proof -
  define e where "e = \<lparr>out_pipe_ok = True, err_pipe_ok = True, fork_ok = True, child_out = ''12345'', child_err = ''no'',
     polls = [Events (Some 3) None, Interrupted, Events (Some 9) (Some 1), Events (Some 9) (Some 9)],
     ended = Exited 0\<rparr>"
  have "read_out e 5 64"
    by (simp add: read_out_def e_def stream_event_def sink_read_def Let_def)
  then show ?thesis
    using migrate_exec_keeps [of e 5 64] unfolding e_def [symmetric] by (simp add: e_def exit_code_def)
qed

end
