(* ===== verification/Migrate.thy ===== *)
theory Migrate
  imports MigSchema MigExec Consolidate
begin

text \<open>
  The driver of \<open>minimoni-migrate\<close>: \<open>src/migrate/preflight.c\<close>, \<open>snapshot.c\<close>, \<open>consolidate.c\<close> and
  \<open>main.c\<close>. The file system maps a path to the database in the file, of any type \<open>'d\<close>; a file SQLite
  keeps beside a database is a path like any other. \<open>minimoni db exec\<close> on a database is an argument,
  a function of the path, the SQL text, the value and the files.
\<close>

subsection \<open>The outside\<close>

type_synonym 'd disk = "string \<Rightarrow> 'd option"

text \<open>The result of \<open>migrate_exec\<close>: its return value and the text kept of the child's output.\<close>

type_synonym reply = "int \<times> string"

record 'd mig_env =
  db_exec :: "string \<Rightarrow> string \<Rightarrow> string option \<Rightarrow> 'd disk \<Rightarrow> reply \<times> 'd disk"
  stat_fails :: bool
  unlink_fails :: "string \<Rightarrow> bool"
  create_fails :: "string \<Rightarrow> bool"
  rename_fails :: bool
  empty_file_db :: 'd
  process_id :: int
  clock :: "nat \<Rightarrow> int"
  malloc_fails :: bool

definition fit_text :: "nat \<Rightarrow> string \<Rightarrow> string option" where
  "fit_text n s = (if length s < n then Some s else None)"

subsection \<open>Checks before anything is written\<close>

definition MONI_APPLICATION_ID :: int where "MONI_APPLICATION_ID = 1836019305"

definition chomp :: "string \<Rightarrow> string" where
  "chomp s = (if s \<noteq> [] \<and> last s = NEWLINE then butlast s else s)"

text \<open>The output of one query without its newline, or \<open>None\<close> when it failed.\<close>

definition read_scalar :: "'d mig_env \<Rightarrow> string \<Rightarrow> string \<Rightarrow> 'd disk \<Rightarrow> string option \<times> 'd disk" where
  "read_scalar env db q disk =
     (case db_exec env db q None disk of ((rc, shown), disk') \<Rightarrow>
        (if rc = 0 then Some (chomp shown) else None, disk'))"

definition COUNT_TIMESTAMP :: string where
  "COUNT_TIMESTAMP = ''SELECT COUNT(*) FROM pragma_table_info('metrics') WHERE name='timestamp'' @ [CHR 0x27]"

text \<open>The version, or \<open>None\<close> when the database is refused.\<close>

definition migrate_preflight :: "int \<Rightarrow> 'd mig_env \<Rightarrow> string \<Rightarrow> 'd disk \<Rightarrow> int option \<times> 'd disk" where
  "migrate_preflight lmax env db disk =
     (case read_scalar env db ''PRAGMA integrity_check'' disk of (a, disk) \<Rightarrow>
      if a \<noteq> Some ''ok'' then (None, disk)
      else case read_scalar env db ''PRAGMA application_id'' disk of (b, disk) \<Rightarrow>
      case b of None \<Rightarrow> (None, disk) | Some app \<Rightarrow>
      if fst (strtol lmax app) \<noteq> MONI_APPLICATION_ID then (None, disk)
      else case read_scalar env db COUNT_TIMESTAMP disk of (c, disk) \<Rightarrow>
      case c of None \<Rightarrow> (None, disk) | Some n \<Rightarrow>
      if fst (strtol lmax n) \<noteq> 1 then (None, disk)
      else case read_scalar env db ''PRAGMA user_version'' disk of (v, disk) \<Rightarrow>
      case v of None \<Rightarrow> (None, disk) | Some v \<Rightarrow> (Some (to_signed 32 (fst (strtol lmax v))), disk))"

definition SCHEMA_QUERY :: string where
  "SCHEMA_QUERY =
    ''SELECT 'table:' || sm.name || ':' || ('' @
    ''  SELECT group_concat(ti.name || ':' || ti.type || ':' || ti.'' @ [CHR 0x22] @ ''notnull'' @ [CHR 0x22] @ '','' @
    ''                      ',' ORDER BY ti.name)'' @
    ''  FROM pragma_table_info(sm.name) ti)'' @
    '' FROM sqlite_master sm WHERE sm.type = 'table' AND sm.name NOT LIKE 'sqlite_%' '' @
    ''UNION ALL '' @
    ''SELECT 'index:' || sm.name || ':' || sm.tbl_name || ':' || ('' @
    ''  SELECT group_concat(ii.name, ',' ORDER BY ii.seqno)'' @
    ''  FROM pragma_index_info(sm.name) ii)'' @
    '' FROM sqlite_master sm WHERE sm.type = 'index' AND sm.name NOT LIKE 'sqlite_%' '' @
    ''ORDER BY 1''"

definition verify_schema :: "'d mig_env \<Rightarrow> string \<Rightarrow> string \<Rightarrow> 'd disk \<Rightarrow> bool \<times> 'd disk" where
  "verify_schema env db expected disk =
     (case db_exec env db SCHEMA_QUERY None disk of ((rc, shown), disk') \<Rightarrow> (rc = 0 \<and> shown = expected, disk'))"

subsection \<open>Copies\<close>

definition remove_file :: "'d mig_env \<Rightarrow> string \<Rightarrow> 'd disk \<Rightarrow> bool \<times> 'd disk" where
  "remove_file env p disk = (if unlink_fails env p then (False, disk) else (True, disk(p := None)))"

definition SUFFIXES :: "string list" where
  "SUFFIXES = [''-journal'', ''-wal'', ''-shm'']"

fun remove_each :: "'d mig_env \<Rightarrow> string \<Rightarrow> string list \<Rightarrow> 'd disk \<Rightarrow> bool \<times> 'd disk" where
  "remove_each env path [] disk = (True, disk)"
| "remove_each env path (s # ss) disk =
     (case fit_text 1100 (path @ s) of
        None \<Rightarrow> (False, disk)
      | Some side \<Rightarrow>
          (case remove_file env side disk of (ok, disk') \<Rightarrow>
             if ok then remove_each env path ss disk' else (False, disk')))"

definition remove_sidecars :: "'d mig_env \<Rightarrow> string \<Rightarrow> 'd disk \<Rightarrow> bool \<times> 'd disk" where
  "remove_sidecars env path disk = remove_each env path SUFFIXES disk"

text \<open>An \<open>unlink\<close> whose result is not looked at.\<close>

definition try_remove :: "'d mig_env \<Rightarrow> string \<Rightarrow> 'd disk \<Rightarrow> 'd disk" where
  "try_remove env p disk = snd (remove_file env p disk)"

definition VACUUM_INTO :: string where "VACUUM_INTO = ''VACUUM INTO ?1''"

text \<open>0 or 1, and the files.\<close>

definition migrate_snapshot :: "'d mig_env \<Rightarrow> string \<Rightarrow> string \<Rightarrow> 'd disk \<Rightarrow> int \<times> 'd disk" where
  "migrate_snapshot env source dst disk =
     (case fit_text 1100 (dst @ ''.tmp'') of
        None \<Rightarrow> (1, disk)
      | Some tmp \<Rightarrow>
          (case remove_file env tmp disk of (ok1, disk) \<Rightarrow>
           if \<not> ok1 then (1, disk)
           else case remove_sidecars env tmp disk of (ok2, disk) \<Rightarrow>
           if \<not> ok2 then (1, disk)
           else if create_fails env tmp then (1, disk)
           else case db_exec env source VACUUM_INTO (Some tmp) (disk(tmp \<mapsto> empty_file_db env)) of ((rc, _), disk) \<Rightarrow>
           if rc \<noteq> 0 then (1, try_remove env tmp disk)
           else case remove_sidecars env dst disk of (ok3, disk) \<Rightarrow>
           if \<not> ok3 then (1, try_remove env tmp disk)
           else if rename_fails env then (1, try_remove env tmp disk)
           else (0, disk(dst := disk tmp, tmp := None))))"

subsection \<open>Compaction\<close>

text \<open>The ladder of this program, a copy of the daemon's.\<close>

definition MIG_TIER_TRANSITIONS :: "(int \<times> int) list" where
  "MIG_TIER_TRANSITIONS =
     [(5, 2 * 3600), (30, 12 * 3600), (300, 5 * 86400), (3600, 60 * 86400), (21600, 365 * 86400)]"

definition MIG_CONSOLIDATE_SQL_SIZE :: int where "MIG_CONSOLIDATE_SQL_SIZE = 8192"

definition mig_build_consolidate_sql :: "int \<Rightarrow> int \<Rightarrow> string option" where
  "mig_build_consolidate_sql capacity now =
     append_all capacity []
       ([''BEGIN IMMEDIATE;''] @
        map (\<lambda>(bs, threshold). tier_sql bs (now - threshold)) MIG_TIER_TRANSITIONS @ [''COMMIT;''])"

fun consolidate_passes :: "'d mig_env \<Rightarrow> string \<Rightarrow> nat \<Rightarrow> nat \<Rightarrow> 'd disk \<Rightarrow> int \<times> 'd disk" where
  "consolidate_passes env db i 0 disk = (0, disk)"
| "consolidate_passes env db i (Suc k) disk =
     (case mig_build_consolidate_sql MIG_CONSOLIDATE_SQL_SIZE (clock env i) of
        None \<Rightarrow> (2, disk)
      | Some q \<Rightarrow>
          (case db_exec env db q None disk of ((rc, _), disk') \<Rightarrow>
             if rc \<noteq> 0 then (2, disk') else consolidate_passes env db (i + 1) k disk'))"

definition migrate_consolidate_and_vacuum :: "'d mig_env \<Rightarrow> string \<Rightarrow> 'd disk \<Rightarrow> int \<times> 'd disk" where
  "migrate_consolidate_and_vacuum env db disk =
     (if malloc_fails env then (2, disk)
      else case consolidate_passes env db 0 (length MIG_TIER_TRANSITIONS + 3) disk of (rc, disk) \<Rightarrow>
        if rc \<noteq> 0 then (rc, disk)
        else case db_exec env db ''VACUUM'' None disk of ((rc, _), disk) \<Rightarrow> (if rc \<noteq> 0 then 2 else 0, disk))"

subsection \<open>The run\<close>

text \<open>The \<open>status:\<close> line a dry run prints.\<close>

datatype status = Absent | Up_to_date | Migration_pending | Blocked

text \<open>The path, with its WAL and SHM files, gone; failures are ignored.\<close>

definition remove_db_with_sidecars :: "'d mig_env \<Rightarrow> string \<Rightarrow> 'd disk \<Rightarrow> 'd disk" where
  "remove_db_with_sidecars env path disk =
     try_remove env (fst (snprintf 1100 (path @ ''-shm'')))
       (try_remove env (fst (snprintf 1100 (path @ ''-wal''))) (try_remove env path disk))"

lemma migrations_find_step: "migrations_find v = Some m \<Longrightarrow> from_version m = v \<and> v < to_version m"
  by (auto simp: migrations_find_def MIGRATIONS_def split: if_splits)

text \<open>The loop over the migrations: 0 or 2, the migration that failed, and the files.\<close>

function apply_migrations :: "'d mig_env \<Rightarrow> string \<Rightarrow> int \<Rightarrow> 'd disk \<Rightarrow> int \<times> migration_t option \<times> 'd disk" where
  "apply_migrations env target current disk =
     (if \<not> current < migrations_latest_version then (0, None, disk)
      else case migrations_find current of
             None \<Rightarrow> (2, None, disk)
           | Some m \<Rightarrow>
               (case db_exec env target (script_text m) None disk of ((rc, _), disk') \<Rightarrow>
                  if rc \<noteq> 0 then (2, Some m, disk')
                  else apply_migrations env target (to_version m) disk'))"
  by pat_completeness auto
termination
  by (relation "measure (\<lambda>(env, target, current, disk). nat (migrations_latest_version - current))")
    (auto dest: migrations_find_step)

declare apply_migrations.simps [simp del]

definition backup_name :: "string \<Rightarrow> int \<Rightarrow> string" where
  "backup_name db version = db @ ''.backup-pre-migrate-v'' @ show_int version"

definition dry_name :: "'d mig_env \<Rightarrow> string \<Rightarrow> string" where
  "dry_name env db = db @ ''.dry-run-'' @ show_int (process_id env)"

text \<open>What a run ends with: the exit status, the \<open>status:\<close> line, the snapshot that is named to the user
  when a step failed, and the files.\<close>

type_synonym 'd outcome = "int \<times> status option \<times> string option \<times> 'd disk"

definition dry_status :: "bool \<Rightarrow> status \<Rightarrow> status option" where
  "dry_status dry_run s = (if dry_run then Some s else None)"

definition rehearse :: "'d mig_env \<Rightarrow> string \<Rightarrow> int \<Rightarrow> 'd disk \<Rightarrow> 'd outcome" where
  "rehearse env db current disk =
     (case fit_text 1024 (dry_name env db) of
        None \<Rightarrow> (1, Some Blocked, None, disk)
      | Some dry_path \<Rightarrow>
          (case migrate_snapshot env db dry_path (remove_db_with_sidecars env dry_path disk) of (rc, disk) \<Rightarrow>
             if rc \<noteq> 0 then (1, Some Blocked, None, disk)
             else case apply_migrations env dry_path current disk of (rc_apply, _, disk) \<Rightarrow>
               let disk = remove_db_with_sidecars env dry_path disk
               in if rc_apply = 0 then (0, Some Migration_pending, None, disk)
                  else (1, Some Blocked, None, disk)))"

definition migrate_in_place :: "'d mig_env \<Rightarrow> string \<Rightarrow> bool \<Rightarrow> int \<Rightarrow> 'd disk \<Rightarrow> 'd outcome" where
  "migrate_in_place env db do_backup current disk =
     (case apply_migrations env db current disk of (rc_apply, failed, disk) \<Rightarrow>
        if rc_apply \<noteq> 0
        then (rc_apply, None,
              case failed of None \<Rightarrow> None
                           | Some m \<Rightarrow> if do_backup then Some (backup_name db (from_version m)) else None, disk)
        else case migrate_consolidate_and_vacuum env db disk of (rc_compact, disk) \<Rightarrow> (rc_compact, None, None, disk))"

definition backed_up :: "'d mig_env \<Rightarrow> string \<Rightarrow> int \<Rightarrow> 'd disk \<Rightarrow> int \<times> 'd disk" where
  "backed_up env db current disk =
     (case fit_text 1024 (backup_name db current) of
        None \<Rightarrow> (3, disk)
      | Some backup_path \<Rightarrow>
          (case migrate_snapshot env db backup_path disk of (rc, disk) \<Rightarrow> (if rc \<noteq> 0 then 3 else 0, disk)))"

definition source_ok :: "'d mig_env \<Rightarrow> string \<Rightarrow> bool \<Rightarrow> int \<Rightarrow> 'd disk \<Rightarrow> bool \<times> 'd disk" where
  "source_ok env db force current disk =
     (if force then (True, disk)
      else case migrations_find current of
             None \<Rightarrow> (True, disk)
           | Some m \<Rightarrow> verify_schema env db (fingerprint_of m) disk)"

definition do_migrate ::
    "int \<Rightarrow> 'd mig_env \<Rightarrow> string \<Rightarrow> bool \<Rightarrow> bool \<Rightarrow> bool \<Rightarrow> 'd disk \<Rightarrow> 'd outcome" where
  "do_migrate lmax env db do_backup dry_run force disk =
     (if disk db = None \<and> \<not> stat_fails env then (0, dry_status dry_run Absent, None, disk)
      else case migrate_preflight lmax env db disk of (version, disk) \<Rightarrow>
      case version of
        None \<Rightarrow> (1, dry_status dry_run Blocked, None, disk)
      | Some current \<Rightarrow>
          if current = migrations_latest_version then (0, dry_status dry_run Up_to_date, None, disk)
          else if current > migrations_latest_version then (1, dry_status dry_run Blocked, None, disk)
          else case source_ok env db force current disk of (ok, disk) \<Rightarrow>
            if \<not> ok then (1, dry_status dry_run Blocked, None, disk)
            else if dry_run then rehearse env db current disk
            else if do_backup
            then (case backed_up env db current disk of (rc, disk) \<Rightarrow>
                    if rc \<noteq> 0 then (rc, None, None, disk)
                    else migrate_in_place env db do_backup current disk)
            else migrate_in_place env db do_backup current disk)"

subsection \<open>The command line\<close>

record mig_opts =
  opt_backup :: bool
  opt_dry_run :: bool
  opt_force :: bool
  opt_use :: "string option"
  opt_db :: "string option"

datatype mig_command = M_help | M_version | M_refused | M_run mig_opts

definition opts_default :: mig_opts where
  "opts_default = \<lparr>opt_backup = True, opt_dry_run = False, opt_force = False, opt_use = None, opt_db = None\<rparr>"

text \<open>After the loop: the path is required, and \<open>--force\<close> needs the backup.\<close>

definition check_opts :: "mig_opts \<Rightarrow> mig_command" where
  "check_opts opts =
     (if opt_db opts = None then M_refused
      else if opt_force opts \<and> \<not> opt_backup opts then M_refused else M_run opts)"

fun mig_args :: "string list \<Rightarrow> mig_opts \<Rightarrow> mig_command" where
  "mig_args [] opts = check_opts opts"
| "mig_args (a # rest) opts =
     (if a = ''--help'' \<or> a = ''-h'' then M_help
      else if a = ''--version'' then M_version
      else if a = ''--no-backup'' then mig_args rest (opts\<lparr>opt_backup := False\<rparr>)
      else if a = ''--dry-run'' then mig_args rest (opts\<lparr>opt_dry_run := True\<rparr>)
      else if a = ''--force'' then mig_args rest (opts\<lparr>opt_force := True\<rparr>)
      else if a = ''--use''
      then (case rest of [] \<Rightarrow> M_refused | p # rest' \<Rightarrow> mig_args rest' (opts\<lparr>opt_use := Some p\<rparr>))
      else if ch0 a = CHR ''-'' then M_refused
      else if opt_db opts \<noteq> None then M_refused
      else mig_args rest (opts\<lparr>opt_db := Some a\<rparr>))"

text \<open>\<open>dirname\<close>.\<close>

definition strip_slashes :: "string \<Rightarrow> string" where
  "strip_slashes s = rev (dropWhile (\<lambda>c. c = CHR ''/'') (rev s))"

definition dirname :: "string \<Rightarrow> string" where
  "dirname s =
     (let t = strip_slashes s; d = rev (dropWhile (\<lambda>c. c \<noteq> CHR ''/'') (rev t))
      in if s = [] then ''.''
         else if t = [] then ''/''
         else if d = [] then ''.''
         else if strip_slashes d = [] then ''/'' else strip_slashes d)"

text \<open>\<open>runnable\<close>: \<open>stat\<close> finds the file and its owner may execute it.\<close>

definition resolve_minimoni_exec :: "(string \<Rightarrow> bool) \<Rightarrow> string \<Rightarrow> string option \<Rightarrow> nat \<Rightarrow> string" where
  "resolve_minimoni_exec runnable argv0 cli_value colocated_size =
     (case cli_value of
        Some p \<Rightarrow> p
      | None \<Rightarrow>
          (case fit_text 1024 argv0 of
             None \<Rightarrow> ''minimoni''
           | Some copy \<Rightarrow>
               (case fit_text colocated_size (dirname copy @ ''/minimoni'') of
                  None \<Rightarrow> ''minimoni''
                | Some colocated \<Rightarrow> if runnable colocated then colocated else ''minimoni'')))"

text \<open>The exit status, the \<open>status:\<close> line and the files; \<open>env_of\<close> is the outside for the binary found.\<close>

definition migrate_main ::
    "int \<Rightarrow> (string \<Rightarrow> bool) \<Rightarrow> (string \<Rightarrow> 'd mig_env) \<Rightarrow> string \<Rightarrow> string list \<Rightarrow> 'd disk \<Rightarrow> 'd outcome" where
  "migrate_main lmax runnable env_of argv0 args disk =
     (case mig_args args opts_default of
        M_help \<Rightarrow> (0, None, None, disk)
      | M_version \<Rightarrow> (0, None, None, disk)
      | M_refused \<Rightarrow> (1, None, None, disk)
      | M_run opts \<Rightarrow>
          do_migrate lmax (env_of (resolve_minimoni_exec runnable argv0 (opt_use opts) 1024)) (the (opt_db opts))
            (opt_backup opts) (opt_dry_run opts) (opt_force opts) disk)"

end
