(* ===== verification/MigProps.thy ===== *)
theory MigProps
  imports Migrate
begin

text \<open>
  What a run of \<open>minimoni-migrate\<close> promises of the files (\<open>Migrate\<close>): a refused run and a rehearsal leave
  the database alone, and one that changes it leaves a backup. The locale \<open>exec_child\<close> is what the driver
  relies on of \<open>db exec\<close>; it is interpreted here on \<open>model_env\<close>, and in \<open>Upgrade\<close> on the scripts.
\<close>

subsection \<open>What \<open>db exec\<close> may touch\<close>

definition sides :: "string \<Rightarrow> string set" where
  "sides p = (\<lambda>s. p @ s) ` set SUFFIXES"

definition touched :: "string \<Rightarrow> string option \<Rightarrow> string set" where
  "touched p v = insert p (sides p) \<union> (case v of None \<Rightarrow> {} | Some t \<Rightarrow> insert t (sides t))"

text \<open>The queries that read only; \<open>VACUUM INTO\<close> reads the database it copies.\<close>

definition READS :: "string set" where
  "READS = {''PRAGMA integrity_check'', ''PRAGMA application_id'', COUNT_TIMESTAMP, ''PRAGMA user_version'',
     SCHEMA_QUERY, VACUUM_INTO}"

subsection \<open>Files removed\<close>

lemma remove_file_other: "r \<noteq> p \<Longrightarrow> snd (remove_file env p disk) r = disk r"
  by (simp add: remove_file_def)

lemma try_remove_other: "r \<noteq> p \<Longrightarrow> try_remove env p disk r = disk r"
  by (simp add: try_remove_def remove_file_other)

lemma remove_each_other: "r \<notin> (\<lambda>s. p @ s) ` set ss \<Longrightarrow> snd (remove_each env p ss disk) r = disk r"
proof (induction ss arbitrary: disk)
  case (Cons s ss)
  then show ?case
    using remove_file_other [of r "p @ s" env disk]
    by (auto simp: fit_text_def split: option.split prod.split if_splits)
qed simp

lemma remove_sidecars_other: "r \<notin> sides p \<Longrightarrow> snd (remove_sidecars env p disk) r = disk r"
  by (simp add: remove_sidecars_def sides_def remove_each_other)

lemma sides_iff: "r \<in> sides p \<longleftrightarrow> r = p @ ''-journal'' \<or> r = p @ ''-wal'' \<or> r = p @ ''-shm''"
  by (auto simp: sides_def SUFFIXES_def)

text \<open>A snapshot leaves the source alone; when it succeeds the copy is the source, and when it fails an
  earlier copy is still there.\<close>

definition apart :: "string \<Rightarrow> string \<Rightarrow> bool" where
  "apart src dst =
     (src \<notin> insert dst (sides dst) \<union> insert (dst @ ''.tmp'') (sides (dst @ ''.tmp'')) \<and> dst \<notin> sides src)"

lemma names_apart: "apart db (backup_name db v)" "apart db (dry_name env db)"
  "backup_name db v \<notin> touched db None" "db \<notin> touched (dry_name env db) None"
  by (auto simp: apart_def backup_name_def dry_name_def touched_def sides_iff)

lemma apply_migrations_status:
  "fst (apply_migrations env target current disk) \<in> {0, 2}"
proof (induction env target current disk rule: apply_migrations.induct)
  case (1 env target current disk)
  then show ?case by (subst apply_migrations.simps) (auto split: option.split prod.split)
qed

lemma consolidate_passes_status: "fst (consolidate_passes env db i k disk) \<in> {0, 2}"
  by (induction k arbitrary: i disk) (auto split: option.split prod.split)

lemma migrate_in_place_status:
  "fst (migrate_in_place env db do_backup current disk) \<in> {0, 2}"
proof -
  obtain ra failed d where a: "apply_migrations env db current disk = (ra, failed, d)"
    by (cases "apply_migrations env db current disk")
  have "fst (migrate_consolidate_and_vacuum env db d) \<in> {0, 2}"
    using consolidate_passes_status [of env db 0 "length MIG_TIER_TRANSITIONS + 3" d]
    by (auto simp: migrate_consolidate_and_vacuum_def split: prod.split)
  then show ?thesis
    using apply_migrations_status [of env db current disk] a by (auto simp: migrate_in_place_def split: prod.split)
qed

text \<open>A call touches the database, the file named by its value and what SQLite keeps beside them; a
  query that reads leaves the database as it is; \<open>VACUUM INTO\<close> leaves its source, and when it succeeds
  copies it.\<close>

locale exec_child =
  fixes env :: "'d mig_env"
  assumes exec_other: "r \<notin> touched p v \<Longrightarrow> snd (db_exec env p q v disk) r = disk r"
    and exec_read: "q \<in> READS \<Longrightarrow> snd (db_exec env p q None disk) p = disk p"
    and exec_source: "p \<notin> insert t (sides t) \<Longrightarrow> snd (db_exec env p VACUUM_INTO (Some t) disk) p = disk p"
    and exec_copy: "p \<notin> insert t (sides t) \<Longrightarrow> fst (fst (db_exec env p VACUUM_INTO (Some t) disk)) = 0 \<Longrightarrow>
      snd (db_exec env p VACUUM_INTO (Some t) disk) t = disk p"
begin

text \<open>Queries that read leave the database alone.\<close>

lemma read_scalar_disk: "q \<in> READS \<Longrightarrow> snd (read_scalar env db q disk) db = disk db"
  using exec_read [of q db disk] by (auto simp: read_scalar_def split: prod.split)

lemma migrate_preflight_disk:
  shows "snd (migrate_preflight lmax env db disk) db = disk db"
proof -
  have r: "snd (read_scalar env db q disk') db = disk' db" if "q \<in> READS" for q disk'
    by (rule read_scalar_disk [OF that])
  obtain a d1 where 1: "read_scalar env db ''PRAGMA integrity_check'' disk = (a, d1)" by (cases "read_scalar env db ''PRAGMA integrity_check'' disk")
  obtain b d2 where 2: "read_scalar env db ''PRAGMA application_id'' d1 = (b, d2)" by (cases "read_scalar env db ''PRAGMA application_id'' d1")
  obtain c d3 where 3: "read_scalar env db COUNT_TIMESTAMP d2 = (c, d3)" by (cases "read_scalar env db COUNT_TIMESTAMP d2")
  obtain v d4 where 4: "read_scalar env db ''PRAGMA user_version'' d3 = (v, d4)" by (cases "read_scalar env db ''PRAGMA user_version'' d3")
  have "d1 db = disk db" "d2 db = disk db" "d3 db = disk db" "d4 db = disk db"
    using r [of "''PRAGMA integrity_check''" disk] r [of "''PRAGMA application_id''" d1] r [of COUNT_TIMESTAMP d2]
      r [of "''PRAGMA user_version''" d3] 1 2 3 4 by (simp_all add: READS_def)
  then show ?thesis
    by (simp add: migrate_preflight_def 1 2 3 4 split: option.split)
qed

lemma source_ok_disk:
  shows "snd (source_ok env db force current disk) db = disk db"
  using exec_read [of SCHEMA_QUERY db disk]
  by (auto simp: source_ok_def verify_schema_def READS_def split: option.split prod.split)

text \<open>Copies.\<close>

lemma migrate_snapshot_spec:
  assumes "migrate_snapshot env src dst disk = (rc, disk')" and "apart src dst"
  shows "disk' src = disk src" and "rc = 0 \<Longrightarrow> disk' dst = disk src" and "rc \<noteq> 0 \<Longrightarrow> disk' dst = disk dst"
proof -
  define tmp where "tmp = dst @ ''.tmp''"
  define d1 where "d1 = snd (remove_file env tmp disk)"
  define d2 where "d2 = snd (remove_sidecars env tmp d1)"
  define d3 where "d3 = d2(tmp \<mapsto> empty_file_db env)"
  define d4 where "d4 = snd (db_exec env src VACUUM_INTO (Some tmp) d3)"
  define d5 where "d5 = snd (remove_sidecars env dst d4)"
  have src: "src \<noteq> tmp" "src \<notin> sides tmp" "src \<notin> sides dst" "src \<noteq> dst" "src \<notin> insert tmp (sides tmp)"
    using assms(2) by (auto simp: apart_def tmp_def)
  have dst: "dst \<noteq> tmp" "dst \<notin> sides tmp" "dst \<notin> sides dst" "tmp \<notin> sides dst"
    by (auto simp: sides_iff tmp_def)
  have "dst \<notin> touched src (Some tmp)"
    using dst(1,2) src(4) assms(2) by (auto simp: touched_def apart_def)
  then have at_dst: "d4 dst = disk dst" "d5 dst = disk dst" "d1 dst = disk dst" "d2 dst = disk dst"
    using dst exec_other
    by (simp_all add: d1_def d2_def d3_def d4_def d5_def remove_file_other remove_sidecars_other)
  have at_src: "d1 src = disk src" "d2 src = disk src" "d4 src = disk src" "d5 src = disk src"
    using src exec_source [OF src(5)]
    by (simp_all add: d1_def d2_def d3_def d4_def d5_def remove_file_other remove_sidecars_other)
  have tmp: "d5 tmp = disk src" if "fst (fst (db_exec env src VACUUM_INTO (Some tmp) d3)) = 0"
    using exec_copy [OF src(5) that] dst(4) src at_src
    by (simp add: d5_def d4_def d3_def remove_sidecars_other)
  have "(rc, disk') \<in> {(1, disk), (1, d1), (1, d2), (1, try_remove env tmp d4), (1, try_remove env tmp d5)} \<or>
      (rc, disk') = (0, d5(dst := d5 tmp, tmp := None)) \<and> fst (fst (db_exec env src VACUUM_INTO (Some tmp) d3)) = 0"
    using assms(1)
    by (auto simp: migrate_snapshot_def fit_text_def Let_def d1_def d2_def d3_def d4_def d5_def
        simp flip: tmp_def split: prod.splits if_splits)
  then show "disk' src = disk src" "rc = 0 \<Longrightarrow> disk' dst = disk src" "rc \<noteq> 0 \<Longrightarrow> disk' dst = disk dst"
    using at_src at_dst src dst tmp by (auto simp: try_remove_other)
qed

end

subsection \<open>Steps on one database\<close>

lemma apply_migrations_other:
  assumes "exec_child env" and "r \<notin> touched target None"
  shows "snd (snd (apply_migrations env target current disk)) r = disk r"
  using assms
proof (induction env target current disk rule: apply_migrations.induct)
  case (1 env target current disk)
  show ?case
  proof (cases "current < migrations_latest_version \<and> migrations_find current \<noteq> None")
    case True
    then obtain m where m: "migrations_find current = Some m" by blast
    obtain rc shown disk' where e: "db_exec env target (script_text m) None disk = ((rc, shown), disk')"
      by (metis prod.collapse)
    have "disk' r = disk r" using exec_child.exec_other [OF 1(2,3), of "script_text m" disk] e by simp
    then show ?thesis
      using 1(1) [OF _ m e [symmetric] refl] 1(2,3) True m e by (subst apply_migrations.simps) auto
  next
    case False
    then show ?thesis by (subst apply_migrations.simps) (auto split: option.split)
  qed
qed

context exec_child
begin

lemma migrations_other: "r \<notin> touched target None \<Longrightarrow> snd (snd (apply_migrations env target current disk)) r = disk r"
  by (rule apply_migrations_other [OF exec_child_axioms])

lemma consolidate_passes_other:
  assumes "r \<notin> touched db None"
  shows "snd (consolidate_passes env db i k disk) r = disk r"
proof (induction k arbitrary: i disk)
  case (Suc k)
  show ?case
    using Suc.IH exec_other [OF assms]
    by (auto split: option.split prod.split) (metis snd_conv)+
qed simp

lemma compaction_other:
  assumes "r \<notin> touched db None"
  shows "snd (migrate_consolidate_and_vacuum env db disk) r = disk r"
proof -
  obtain rc d where c: "consolidate_passes env db 0 (length MIG_TIER_TRANSITIONS + 3) disk = (rc, d)"
    by (cases "consolidate_passes env db 0 (length MIG_TIER_TRANSITIONS + 3) disk")
  have "d r = disk r" using consolidate_passes_other [OF assms] c by (metis snd_conv)
  moreover have "snd (db_exec env db ''VACUUM'' None d) r = d r" by (rule exec_other [OF assms])
  ultimately show ?thesis
    by (auto simp: migrate_consolidate_and_vacuum_def c split: prod.split)
qed

lemma migrate_in_place_other:
  assumes "r \<notin> touched db None"
    and "migrate_in_place env db do_backup current disk = (rc, st, hint, disk')"
  shows "disk' r = disk r"
proof -
  obtain ra failed d where a: "apply_migrations env db current disk = (ra, failed, d)"
    by (cases "apply_migrations env db current disk")
  have "d r = disk r" using migrations_other [OF assms(1), of current disk] a by simp
  then show ?thesis
    using compaction_other [OF assms(1), of d] assms(2) by (auto simp: migrate_in_place_def a split: if_splits prod.splits)
qed

text \<open>A run, up to the choice between rehearsing, migrating with and without a backup.\<close>

lemma do_migrate_cases:
  assumes "do_migrate lmax env db do_backup dry_run force disk = (rc, st, hint, disk')"
  shows "(disk' db = disk db \<and> rc \<in> {0, 1}) \<or>
    (\<exists>current d. d db = disk db \<and> current < migrations_latest_version \<and>
      (if dry_run then rehearse env db current d = (rc, st, hint, disk')
       else if do_backup
       then (\<exists>d1 rb. backed_up env db current d = (rb, d1) \<and>
          (if rb \<noteq> 0 then rc = rb \<and> disk' = d1 else migrate_in_place env db True current d1 = (rc, st, hint, disk')))
       else migrate_in_place env db False current d = (rc, st, hint, disk')))"
proof (cases "disk db = None \<and> \<not> stat_fails env")
  case True
  then show ?thesis using assms(1) by (auto simp: do_migrate_def)
next
  case False
  obtain version d1 where p: "migrate_preflight lmax env db disk = (version, d1)"
    by (cases "migrate_preflight lmax env db disk")
  have d1: "d1 db = disk db" using migrate_preflight_disk [of lmax db disk] p by simp
  show ?thesis
  proof (cases "\<exists>current. version = Some current \<and> current < migrations_latest_version")
    case False
    then have "disk' = d1 \<and> rc \<in> {0, 1}"
      using assms(1) p \<open>\<not> (disk db = None \<and> \<not> stat_fails env)\<close>
      by (auto simp: do_migrate_def split: option.splits if_splits)
    then show ?thesis using d1 by simp
  next
    case True
    then obtain current where v: "version = Some current" "current < migrations_latest_version" by blast
    obtain ok d2 where s: "source_ok env db force current d1 = (ok, d2)" by (cases "source_ok env db force current d1")
    have d2: "d2 db = disk db" using source_ok_disk [of db force current d1] s d1 by simp
    show ?thesis
    proof (cases ok)
      case False
      then have "disk' = d2 \<and> rc = 1" using assms(1) p v s \<open>\<not> (disk db = None \<and> \<not> stat_fails env)\<close>
        by (auto simp: do_migrate_def)
      then show ?thesis using d2 by simp
    next
      case True
      have "do_migrate lmax env db do_backup dry_run force disk =
          (if dry_run then rehearse env db current d2
           else if do_backup
           then (case backed_up env db current d2 of (rc, disk) \<Rightarrow>
                   if rc \<noteq> 0 then (rc, None, None, disk) else migrate_in_place env db do_backup current disk)
           else migrate_in_place env db do_backup current d2)"
        using p v s True \<open>\<not> (disk db = None \<and> \<not> stat_fails env)\<close> by (auto simp: do_migrate_def)
      then show ?thesis
        using assms(1) v(2) d2 by (intro disjI2 exI [of _ current] exI [of _ d2]) (auto split: prod.splits if_splits)
    qed
  qed
qed

lemma backed_up_spec:
  assumes "backed_up env db current d = (rb, d1)"
  shows "d1 db = d db" and "rb = 0 \<Longrightarrow> d1 (backup_name db current) = d db" and "rb \<in> {0, 3}"
proof -
  have "rb = 3 \<and> d1 = d \<or> (\<exists>rs. migrate_snapshot env db (backup_name db current) d = (rs, d1) \<and> rb = (if rs \<noteq> 0 then 3 else 0))"
    using assms(1) by (auto simp: backed_up_def fit_text_def split: option.splits prod.splits if_splits)
  then show "d1 db = d db" "rb = 0 \<Longrightarrow> d1 (backup_name db current) = d db" "rb \<in> {0, 3}"
    using migrate_snapshot_spec [OF _ names_apart(1)] by (auto split: if_splits)
qed

lemma rehearse_spec:
  assumes "rehearse env db current d = (rc, st, hint, disk')"
  shows "disk' db = d db" and "rc \<in> {0, 1}"
proof -
  define q where "q = dry_name env db"
  have db: "db \<noteq> q" "db \<noteq> fst (snprintf 1100 (q @ ''-wal''))" "db \<noteq> fst (snprintf 1100 (q @ ''-shm''))" if "length q < 1024"
    using that by (auto simp: q_def dry_name_def snprintf_def)
  have rem: "remove_db_with_sidecars env q e db = e db" if "length q < 1024" for e
    using db [OF that] by (simp add: remove_db_with_sidecars_def try_remove_other)
  have "disk' = d \<and> rc = 1 \<or> length q < 1024 \<and>
      (\<exists>rs e. migrate_snapshot env db q (remove_db_with_sidecars env q d) = (rs, e) \<and>
        (if rs \<noteq> 0 then disk' = e \<and> rc = 1
         else disk' = remove_db_with_sidecars env q (snd (snd (apply_migrations env q current e))) \<and> rc \<in> {0, 1}))"
    using assms(1)
    by (auto simp: rehearse_def fit_text_def Let_def simp flip: q_def split: option.splits prod.splits if_splits)
  moreover have "e db = d db" if "length q < 1024" "migrate_snapshot env db q (remove_db_with_sidecars env q d) = (rs, e)" for rs e
    using migrate_snapshot_spec(1) [OF that(2)] names_apart(2) [of db env] rem [OF that(1)] by (simp add: q_def)
  moreover have "snd (snd (apply_migrations env q current e)) db = e db" for e
    using migrations_other [OF names_apart(4)] by (simp add: q_def)
  ultimately show "disk' db = d db" and "rc \<in> {0, 1}"
    using rem by (auto split: if_splits)
qed

lemma migrate_cases_dry:
  assumes "do_migrate lmax env db do_backup True force disk = (rc, st, hint, disk')"
  shows "disk' db = disk db"
  using do_migrate_cases [OF assms] rehearse_spec(1) by (auto dest: rehearse_spec(1))

end

subsection \<open>Promises of a run\<close>

text \<open>C6: A run that was refused changes nothing, and a dry run never does: with \<open>--dry-run\<close>, or with the
  exit status 1 (a check failed) or 3 (no backup), the database is the one it was, whatever fails on
  the way. Of \<open>db exec\<close> it only asks that a call touches no other file than its own, and that the
  queries and the source of a copy are only read.\<close>

theorem migrate_untouched:
  assumes "exec_child env" and "do_migrate lmax env db do_backup dry_run force disk = (rc, st, hint, disk')"
    and "dry_run \<or> rc = 1 \<or> rc = 3"
  shows "disk' db = disk db"
proof -
  have in_place: "rc \<in> {0, 2}" if "migrate_in_place env db b current e = (rc, st, hint, disk')" for b current e
    using migrate_in_place_status [of env db b current e] that by simp
  show ?thesis
  proof (cases dry_run)
    case True
    then show ?thesis using exec_child.migrate_cases_dry [OF assms(1)] assms(2) by simp
  next
    case False
    then have rc: "rc \<noteq> 0" "rc \<noteq> 2" using assms(3) by auto
    show ?thesis
      using exec_child.do_migrate_cases [OF assms(1,2)] False rc in_place
      by (auto dest: exec_child.backed_up_spec(1) [OF assms(1)] split: if_splits)
  qed
qed

lemma mig_args_step:
  assumes "mig_args (a # rest) opts = M_run r"
  shows "\<exists>rest' opts'. mig_args rest' opts' = M_run r \<and> length rest' \<le> length rest"
proof (cases "a = ''--use''")
  case True
  then show ?thesis using assms by (cases rest) (auto intro: le_SucI)
next
  case False
  then have "\<exists>opts'. mig_args rest opts' = M_run r"
    using assms unfolding mig_args.simps(2) by (simp only: if_False split: if_split_asm) ((rule exI, assumption) | simp)+
  then show ?thesis by auto
qed

lemma mig_args_opts: "mig_args args opts = M_run r \<Longrightarrow> opt_db r \<noteq> None \<and> (opt_force r \<longrightarrow> opt_backup r)"
proof (induction "length args" arbitrary: args opts rule: less_induct)
  case less
  show ?case
  proof (cases args)
    case Nil
    then show ?thesis using less.prems by (auto simp: check_opts_def split: if_splits)
  next
    case (Cons a rest)
    then obtain rest' opts' where "mig_args rest' opts' = M_run r" "length rest' < length args"
      using mig_args_step [of a rest opts r] less.prems by auto
    then show ?thesis using less.hyps by blast
  qed
qed

text \<open>C4: A migration that changes the database leaves a backup of what it was, unless \<open>--no-backup\<close> asked
  for none, which \<open>--force\<close> forbids: after any run whose options have the backup or the force, if the
  database is not the one it was, some \<open>.backup-pre-migrate\<close> file beside it holds that one, complete,
  however far the run got.\<close>

theorem migrate_backed_up:
  assumes "\<And>b. exec_child (env_of b)" and "migrate_main lmax runnable env_of argv0 args disk = (rc, st, hint, disk')"
    and "mig_args args opts_default = M_run opts" and "opt_backup opts \<or> opt_force opts" and "opt_db opts = Some db"
    and "disk' db \<noteq> disk db"
  shows "\<exists>v < migrations_latest_version. disk' (backup_name db v) = disk db"
proof -
  define env where "env = env_of (resolve_minimoni_exec runnable argv0 (opt_use opts) 1024)"
  have f: "exec_child env" using assms(1) by (simp add: env_def)
  have b: "opt_backup opts" using assms(4) mig_args_opts [OF assms(3)] by blast
  have run: "do_migrate lmax env db True (opt_dry_run opts) (opt_force opts) disk = (rc, st, hint, disk')"
    using assms(2,3,5) b by (simp add: migrate_main_def env_def)
  then have nd: "\<not> opt_dry_run opts" using exec_child.migrate_cases_dry [OF f] assms(6) by (cases "opt_dry_run opts") auto
  obtain current d d1 rb where d: "d db = disk db" "current < migrations_latest_version"
    "backed_up env db current d = (rb, d1)"
    "if rb \<noteq> 0 then rc = rb \<and> disk' = d1 else migrate_in_place env db True current d1 = (rc, st, hint, disk')"
    using exec_child.do_migrate_cases [OF f run] nd assms(6) by auto
  note bk = exec_child.backed_up_spec [OF f d(3)]
  have "rb = 0" using d(1,4) bk(1) assms(6) by (auto split: if_splits)
  then have "migrate_in_place env db True current d1 = (rc, st, hint, disk')" using d(4) by simp
  then have "disk' (backup_name db current) = d1 (backup_name db current)"
    by (rule exec_child.migrate_in_place_other [OF f names_apart(3)])
  then show ?thesis using bk(2) \<open>rb = 0\<close> d(1,2) by (intro exI [of _ current]) simp
qed

subsection \<open>A model of \<open>db exec\<close>\<close>

text \<open>Databases that are only their version: the scripts take one to the next below \<open>limit\<close> and fail
  from there on; the queries answer as on a canonical database.\<close>

definition model_answer :: "string \<Rightarrow> int \<Rightarrow> string option" where
  "model_answer q n =
     (if q = ''PRAGMA integrity_check'' then Some (''ok'' @ nl)
      else if q = ''PRAGMA application_id'' then Some (''1836019305'' @ nl)
      else if q = COUNT_TIMESTAMP then Some (''1'' @ nl)
      else if q = ''PRAGMA user_version'' then Some (show_int n @ nl)
      else if q = SCHEMA_QUERY then Some (if n = 0 then V0_SCHEMA_FINGERPRINT else V1_SCHEMA_FINGERPRINT)
      else None)"

definition model_exec :: "int \<Rightarrow> string \<Rightarrow> string \<Rightarrow> string option \<Rightarrow> int disk \<Rightarrow> reply \<times> int disk" where
  "model_exec limit p q v disk =
     (case disk p of
        None \<Rightarrow> ((2, []), disk)
      | Some n \<Rightarrow>
          if q = VACUUM_INTO
          then (case v of None \<Rightarrow> ((1, []), disk) | Some t \<Rightarrow> ((0, []), disk(t \<mapsto> n)))
          else (case model_answer q n of
                  Some shown \<Rightarrow> ((0, shown), disk)
                | None \<Rightarrow> if n < limit then ((0, []), disk(p \<mapsto> n + 1)) else ((1, []), disk)))"

definition model_env :: "int \<Rightarrow> int mig_env" where
  "model_env limit = \<lparr>db_exec = model_exec limit, stat_fails = False, unlink_fails = (\<lambda>_. False),
     create_fails = (\<lambda>_. False), rename_fails = False, empty_file_db = 0, process_id = 7, clock = (\<lambda>_. 0),
     malloc_fails = True\<rparr>"

lemma model_reads: "q \<in> READS \<Longrightarrow> q = VACUUM_INTO \<or> model_answer q n \<noteq> None"
  by (auto simp: READS_def model_answer_def)

interpretation model: exec_child "model_env limit" for limit
proof
  fix p q v and disk :: "int disk" and r
  assume "r \<notin> touched p v"
  then have "r \<noteq> p" "\<And>t. v = Some t \<Longrightarrow> r \<noteq> t" by (auto simp: touched_def)
  then show "snd (db_exec (model_env limit) p q v disk) r = disk r"
    by (auto simp: model_env_def model_exec_def split: option.split)
next
  fix p q and disk :: "int disk"
  assume "q \<in> READS"
  then show "snd (db_exec (model_env limit) p q None disk) p = disk p"
    using model_reads [of q "the (disk p)"] by (auto simp: model_env_def model_exec_def split: option.split)
qed (auto simp: model_env_def model_exec_def split: option.splits)

lemma model_read_scalar:
  assumes "disk p = Some n" and "model_answer q n = Some (s @ nl)" and "q \<noteq> VACUUM_INTO"
  shows "read_scalar (model_env limit) p q disk = (Some s, disk)"
  using assms by (simp add: read_scalar_def model_env_def model_exec_def chomp_def nl_def)

lemma model_preflight:
  assumes "disk p = Some n" and "0 \<le> n" and "n < 10"
  shows "migrate_preflight (2 ^ 63 - 1) (model_env limit) p disk = (Some n, disk)"
proof -
  have q: "COUNT_TIMESTAMP \<noteq> ''PRAGMA integrity_check''" "COUNT_TIMESTAMP \<noteq> ''PRAGMA application_id''"
    "COUNT_TIMESTAMP \<noteq> ''PRAGMA user_version''" "COUNT_TIMESTAMP \<noteq> VACUUM_INTO"
    "''PRAGMA user_version'' \<noteq> COUNT_TIMESTAMP"
    by (simp_all add: COUNT_TIMESTAMP_def VACUUM_INTO_def)
  have 1: "read_scalar (model_env limit) p ''PRAGMA integrity_check'' disk = (Some ''ok'', disk)"
    "read_scalar (model_env limit) p ''PRAGMA application_id'' disk = (Some ''1836019305'', disk)"
    "read_scalar (model_env limit) p COUNT_TIMESTAMP disk = (Some ''1'', disk)"
    "read_scalar (model_env limit) p ''PRAGMA user_version'' disk = (Some (show_int n), disk)"
    by (rule model_read_scalar, rule assms(1), simp add: model_answer_def q, simp add: VACUUM_INTO_def COUNT_TIMESTAMP_def)+
  have n: "strtol (2 ^ 63 - 1) (show_int n) = (n, [])"
    using strtol_show_nat [of "nat n" "2 ^ 63 - 1" "[]"] assms(2,3) by (simp add: show_int_def)
  have app: "fst (strtol (2 ^ 63 - 1) ''1836019305'') = MONI_APPLICATION_ID" "fst (strtol (2 ^ 63 - 1) ''1'') = 1"
    by (simp_all add: strtol_def sign_split_def c_isspace_def c_isdigit_def digit_val_def MONI_APPLICATION_ID_def)
  show ?thesis
    using assms(2,3) by (simp add: migrate_preflight_def 1 n [simplified] app [simplified] to_signed_id)
qed


lemma model_verify:
  assumes "disk p = Some 0"
  shows "source_ok (model_env limit) p False 0 disk = (True, disk)"
proof -
  have "model_answer SCHEMA_QUERY 0 = Some V0_SCHEMA_FINGERPRINT" "SCHEMA_QUERY \<noteq> VACUUM_INTO"
    by (simp_all add: model_answer_def SCHEMA_QUERY_def VACUUM_INTO_def COUNT_TIMESTAMP_def)
  then show ?thesis
    using assms by (simp add: source_ok_def migrations_find_def MIGRATIONS_def verify_schema_def model_env_def model_exec_def)
qed

lemma model_snapshot:
  assumes "length dst < 1024" and "apart p dst" and "disk p = Some n" 
  shows "\<exists>disk'. migrate_snapshot (model_env limit) p dst disk = (0, disk') \<and> disk' p = Some n \<and> disk' dst = Some n \<and>
    (\<forall>r. disk r = None \<longrightarrow> r \<noteq> dst \<longrightarrow> disk' r = None)"
proof -
  have rm: "remove_file (model_env limit) q d = (True, d(q := None))" for q d
    by (simp add: remove_file_def model_env_def)
  have env: "create_fails (model_env limit) q = False" "rename_fails (model_env limit) = False"
    "db_exec (model_env limit) = model_exec limit" "empty_file_db (model_env limit) = 0" for q
    by (simp_all add: model_env_def)
  have rs: "remove_sidecars (model_env limit) q d = (True, d(q @ ''-journal'' := None, q @ ''-wal'' := None, q @ ''-shm'' := None))"
    if "length q < 1050" for q d
    using that by (simp add: remove_sidecars_def SUFFIXES_def fit_text_def rm)
  show ?thesis
    using assms by (simp add: migrate_snapshot_def fit_text_def rm rs env apart_def sides_iff model_exec_def)
qed

lemma model_script:
  assumes "migrations_find v = Some m" and "disk p = Some n"
  shows "db_exec (model_env limit) p (script_text m) None disk =
    (if n < limit then ((0, []), disk(p \<mapsto> n + 1)) else ((1, []), disk))"
proof -
  have "take 2 (script_text m) = ''BE''"
    using assms(1) by (auto simp: migrations_find_def MIGRATIONS_def script_sql_def split: if_splits)
  moreover have "take 2 q \<noteq> ''BE''" if "q \<in> READS" for q
    using that by (auto simp: READS_def COUNT_TIMESTAMP_def SCHEMA_QUERY_def VACUUM_INTO_def)
  ultimately have "script_text m \<notin> READS" by auto
  then have "script_text m \<noteq> VACUUM_INTO" "model_answer (script_text m) n = None"
    by (auto simp: READS_def model_answer_def)
  then show ?thesis using assms(2) by (simp add: model_env_def model_exec_def)
qed

lemma find_steps: "\<exists>m. migrations_find 0 = Some m \<and> from_version m = 0 \<and> to_version m = 1"
  "\<exists>m. migrations_find 1 = Some m \<and> from_version m = 1 \<and> to_version m = 2"
  "migrations_latest_version = 2"
  by (simp_all add: migrations_find_def MIGRATIONS_def migrations_latest_version_def)

lemma model_apply_2: "apply_migrations env p 2 disk = (0, None, disk)"
  by (subst apply_migrations.simps) (simp add: find_steps(3))

lemma model_apply_1:
  assumes "disk p = Some 1"
  shows "apply_migrations (model_env 1) p 1 disk = (2, migrations_find 1, disk)"
    and "apply_migrations (model_env 2) p 1 disk = (0, None, disk(p \<mapsto> 2))"
proof -
  obtain m where m: "migrations_find 1 = Some m" "to_version m = 2" using find_steps(2) by blast
  note step = model_script [where p = p and disk = disk, OF m(1) assms]
  show "apply_migrations (model_env 1) p 1 disk = (2, migrations_find 1, disk)"
    by (subst apply_migrations.simps) (simp add: find_steps(3) m step)
  show "apply_migrations (model_env 2) p 1 disk = (0, None, disk(p \<mapsto> 2))"
    by (subst apply_migrations.simps) (simp add: find_steps(3) m step model_apply_2)
qed

lemma model_apply:
  assumes "disk p = Some 0"
  shows "apply_migrations (model_env 1) p 0 disk = (2, migrations_find 1, disk(p \<mapsto> 1))"
    and "apply_migrations (model_env 2) p 0 disk = (0, None, disk(p \<mapsto> 2))"
proof -
  obtain m where m: "migrations_find 0 = Some m" "to_version m = 1" using find_steps(1) by blast
  note step = model_script [where p = p and disk = disk, OF m(1) assms]
  have d: "(disk(p \<mapsto> 1)) p = Some 1" by simp
  show "apply_migrations (model_env 1) p 0 disk = (2, migrations_find 1, disk(p \<mapsto> 1))"
    by (subst apply_migrations.simps) (simp add: find_steps(3) m step model_apply_1 [where disk = "disk(p \<mapsto> 1)" and p = p, OF d])
  show "apply_migrations (model_env 2) p 0 disk = (0, None, disk(p \<mapsto> 2))"
    by (subst apply_migrations.simps) (simp add: find_steps(3) m step model_apply_1 [where disk = "disk(p \<mapsto> 1)" and p = p, OF d])
qed

lemma backup_names: "length (backup_name ''m.db'' 0) < 1024" "backup_name ''m.db'' 1 \<noteq> backup_name ''m.db'' 0"
  "backup_name ''m.db'' v \<noteq> ''m.db''"
proof -
  have "show_int 0 = ''0''" "show_int 1 = ''1''"
    by (simp_all add: show_int_def show_nat.simps [of 0] show_nat.simps [of "Suc 0"] digit_char_def)
  then show "length (backup_name ''m.db'' 0) < 1024" "backup_name ''m.db'' 1 \<noteq> backup_name ''m.db'' 0"
    by (simp_all add: backup_name_def)
  show "backup_name ''m.db'' v \<noteq> ''m.db''" by (simp add: backup_name_def)
qed

definition DISK :: "int disk" where "DISK = (\<lambda>_. None)(''m.db'' := Some 0)"

text \<open>From v0, with the second step failing.\<close>

lemma model_run:
  "\<exists>d. do_migrate (2 ^ 63 - 1) (model_env 1) ''m.db'' True False False DISK = (2, None, Some (backup_name ''m.db'' 1), d) \<and>
     d ''m.db'' = Some 1 \<and> d (backup_name ''m.db'' 0) = Some 0 \<and> d (backup_name ''m.db'' 1) = None"
proof -
  obtain m where m: "migrations_find 1 = Some m" "from_version m = 1" using find_steps(2) by blast
  have db: "DISK ''m.db'' = Some 0" by (simp add: DISK_def)
  note pre = model_preflight [where disk = DISK and limit = 1, OF db, simplified]
  note src = model_verify [where disk = DISK and limit = 1, OF db]
  obtain d1 where d1: "migrate_snapshot (model_env 1) ''m.db'' (backup_name ''m.db'' 0) DISK = (0, d1)"
    "d1 ''m.db'' = Some 0" "d1 (backup_name ''m.db'' 0) = Some 0"
    "\<And>r. DISK r = None \<Longrightarrow> r \<noteq> backup_name ''m.db'' 0 \<Longrightarrow> d1 r = None"
    using model_snapshot [where disk = DISK and n = 0 and limit = 1, OF backup_names(1) names_apart(1) db] by blast
  have bk: "backed_up (model_env 1) ''m.db'' 0 DISK = (0, d1)"
    using backup_names(1) d1(1) by (simp add: backed_up_def fit_text_def)
  note ap = model_apply(1) [where p = "''m.db''" and disk = d1, OF d1(2), unfolded m(1)]
  have "do_migrate (2 ^ 63 - 1) (model_env 1) ''m.db'' True False False DISK =
      (2, None, Some (backup_name ''m.db'' 1), d1(''m.db'' \<mapsto> 1))"
    using pre src bk ap m(2) db by (simp add: do_migrate_def migrate_in_place_def find_steps(3))
  moreover have "d1 (backup_name ''m.db'' 1) = None"
    by (rule d1(4)) (simp_all add: backup_names DISK_def)
  ultimately show ?thesis using d1(3) backup_names by simp
qed

subsection \<open>The snapshot a failed run names\<close>

lemma show_0_1: "show_int 0 = ''0''" "show_int 1 = ''1''"
  by (simp_all add: show_int_def show_nat.simps [of 0] show_nat.simps [of "Suc 0"] digit_char_def)

text \<open>The step that fails is one of the two, not before the version the run started from.\<close>

lemma failed_step:
  assumes "apply_migrations env target current disk = (rc, Some m, disk')"
  shows "rc = 2 \<and> (current, from_version m) \<in> {(0, 0), (0, 1), (1, 1)}"
  using assms
proof (induction env target current disk arbitrary: rc rule: apply_migrations.induct)
  case (1 env target current disk)
  obtain m1 where m1: "migrations_find current = Some m1" "current < migrations_latest_version"
    using 1(2) by (subst (asm) apply_migrations.simps) (auto split: if_splits option.splits)
  then have v: "from_version m1 = current" "(current, to_version m1) \<in> {(0, 1), (1, 2)}"
    by (auto simp: migrations_find_def MIGRATIONS_def split: if_splits)
  obtain rc1 shown d1 where e: "db_exec env target (script_text m1) None disk = ((rc1, shown), d1)"
    by (metis prod.collapse)
  show ?case
  proof (cases "rc1 = 0")
    case True
    then have "apply_migrations env target (to_version m1) d1 = (rc, Some m, disk')"
      using 1(2) m1 e by (subst (asm) apply_migrations.simps) simp
    then show ?thesis using 1(1) [OF _ m1(1) e [symmetric] refl] m1(2) True v(2) by auto
  next
    case False
    then have "rc = 2 \<and> m = m1" using 1(2) m1 e by (subst (asm) apply_migrations.simps) simp
    then show ?thesis using v by auto
  qed
qed

lemma backup_names_apart:
  "backup_name db 1 \<noteq> backup_name db 0"
  "backup_name db 1 \<notin> insert (backup_name db 0) (sides (backup_name db 0))"
  "backup_name db 1 \<notin> insert (backup_name db 0 @ ''.tmp'') (sides (backup_name db 0 @ ''.tmp''))"
  by (simp_all add: backup_name_def show_0_1 sides_iff)

context exec_child
begin

lemma migrate_snapshot_other:
  assumes "r \<notin> insert dst (sides dst)" and "r \<notin> insert (dst @ ''.tmp'') (sides (dst @ ''.tmp''))" and "r \<notin> touched src None"
  shows "snd (migrate_snapshot env src dst disk) r = disk r"
proof -
  have x: "snd (db_exec env src VACUUM_INTO (Some (dst @ ''.tmp'')) d) r = d r" for d
    by (rule exec_other) (use assms in \<open>auto simp: touched_def\<close>)
  have rm: "d' r = d r" if "remove_file env (dst @ ''.tmp'') d = (ok, d')" for d d' ok
    using remove_file_other [of r "dst @ ''.tmp''" env d] assms(2) that by simp
  have rs: "d' r = d r" if "remove_sidecars env q d = (ok, d')" "q = dst \<or> q = dst @ ''.tmp''" for q d d' ok
    using remove_sidecars_other [of r q env d] assms(1,2) that by auto
  have "try_remove env (dst @ ''.tmp'') d r = d r" for d
    by (rule try_remove_other) (use assms(2) in auto)
  then show ?thesis
    using assms(1,2) x
    by (auto simp: migrate_snapshot_def fit_text_def dest!: rm rs split: prod.splits) (metis snd_conv fun_upd_other)+
qed

lemma read_scalar_other: "r \<notin> touched db None \<Longrightarrow> snd (read_scalar env db q disk) r = disk r"
  using exec_other [of r db None q disk] by (auto simp: read_scalar_def split: prod.split)

lemma migrate_preflight_other:
  assumes "r \<notin> touched db None"
  shows "snd (migrate_preflight lmax env db disk) r = disk r"
proof -
  have s: "d' r = d r" if "read_scalar env db q d = (x, d')" for q d d' x
    using read_scalar_other [OF assms, of q d] that by simp
  show ?thesis
    by (auto simp: migrate_preflight_def dest!: s split: prod.splits option.splits)
qed

lemma source_ok_other: "r \<notin> touched db None \<Longrightarrow> snd (source_ok env db force current disk) r = disk r"
  using exec_other [of r db None SCHEMA_QUERY disk]
  by (auto simp: source_ok_def verify_schema_def split: option.split prod.split)

lemma do_migrate_hint:
  assumes "migrate_preflight lmax env db disk = (Some current, d0)"
    and "do_migrate lmax env db True False force disk = (rc, st, Some h, disk')"
  shows "\<exists>d2 d3. source_ok env db force current d0 = (True, d2) \<and> backed_up env db current d2 = (0, d3) \<and>
    migrate_in_place env db True current d3 = (rc, st, Some h, disk')"
proof -
  obtain ok d2 where s: "source_ok env db force current d0 = (ok, d2)" by (cases "source_ok env db force current d0")
  obtain rb d3 where b: "backed_up env db current d2 = (rb, d3)" by (cases "backed_up env db current d2")
  show ?thesis
    using assms(2) by (auto simp: do_migrate_def assms(1) s b split: if_splits)
qed

lemma hint_spec:
  assumes "migrate_preflight lmax env db disk = (Some current, d0)"
    and "do_migrate lmax env db True False force disk = (rc, st, Some h, disk')"
  shows "\<exists>v. rc = 2 \<and> (current, v) \<in> {(0, 0), (0, 1), (1, 1)} \<and> h = backup_name db v \<and>
    disk' (backup_name db current) = disk db \<and> (v \<noteq> current \<longrightarrow> disk' h = disk h)"
proof -
  obtain d2 d3 where s: "source_ok env db force current d0 = (True, d2)" and b: "backed_up env db current d2 = (0, d3)"
    and p: "migrate_in_place env db True current d3 = (rc, st, Some h, disk')"
    using do_migrate_hint [OF assms] by blast
  obtain m d where m: "apply_migrations env db current d3 = (rc, Some m, d)" "h = backup_name db (from_version m)"
    using p by (auto simp: migrate_in_place_def split: prod.splits if_splits option.splits)
  note step = failed_step [OF m(1)]
  have other: "disk' (backup_name db v) = d3 (backup_name db v)" "d2 (backup_name db v) = disk (backup_name db v)" for v
    using migrate_in_place_other [OF names_apart(3) p] source_ok_other [OF names_apart(3) [of db v], of force current d0] s
      migrate_preflight_other [OF names_apart(3) [of db v], of lmax disk] assms(1) by simp_all
  have "d2 db = disk db"
    using source_ok_disk [of db force current d0] s migrate_preflight_disk [of lmax db disk] assms(1) by simp
  then have snap: "disk' (backup_name db current) = disk db"
    using backed_up_spec(2) [OF b refl] other(1) by simp
  have "d3 (backup_name db 1) = d2 (backup_name db 1)" if "current = 0"
  proof -
    have "d3 = snd (migrate_snapshot env db (backup_name db 0) d2)"
      using b that by (auto simp: backed_up_def fit_text_def split: prod.splits if_splits)
    then show ?thesis
      using migrate_snapshot_other [OF backup_names_apart(2,3) names_apart(3)] by simp
  qed
  then have "disk' h = disk h" if "from_version m \<noteq> current"
    using other step m(2) that by auto
  then show ?thesis using snap step m(2) by blast
qed

end



lemma migrate_untouched_witness:
  "snd (snd (snd (do_migrate (2 ^ 63 - 1) (model_env 1) ''m.db'' True False False (DISK(''m.db'' := Some 5))))) ''m.db'' = Some 5"
proof -
  define disk where "disk = DISK(''m.db'' := Some 5)"
  have db: "disk ''m.db'' = Some 5" by (simp add: disk_def)
  note pre = model_preflight [where disk = disk and limit = 1, OF db, simplified]
  have run: "do_migrate (2 ^ 63 - 1) (model_env 1) ''m.db'' True False False disk = (1, None, None, disk)"
    using pre db by (simp add: do_migrate_def find_steps(3) dry_status_def)
  show ?thesis using migrate_untouched [OF model.exec_child_axioms run] run db by (simp flip: disk_def)
qed

lemma migrate_backed_up_witness:
  "\<exists>v < migrations_latest_version.
     snd (snd (snd (migrate_main (2 ^ 63 - 1) (\<lambda>_. False) (\<lambda>_. model_env 1) ''minimoni-migrate'' [''m.db''] DISK)))
       (backup_name ''m.db'' v) = DISK ''m.db''"
proof -
  obtain d where d: "do_migrate (2 ^ 63 - 1) (model_env 1) ''m.db'' True False False DISK = (2, None, Some (backup_name ''m.db'' 1), d)"
    "d ''m.db'' = Some 1"
    using model_run by blast
  have args: "mig_args [''m.db''] opts_default = M_run (opts_default\<lparr>opt_db := Some ''m.db''\<rparr>)"
    by (simp add: check_opts_def opts_default_def)
  have run: "migrate_main (2 ^ 63 - 1) (\<lambda>_. False) (\<lambda>_. model_env 1) ''minimoni-migrate'' [''m.db''] DISK =
      (2, None, Some (backup_name ''m.db'' 1), d)"
    unfolding migrate_main_def args using d(1) by (simp add: opts_default_def)
  show ?thesis
    using migrate_backed_up [OF model.exec_child_axioms run args] d(2) run by (simp add: opts_default_def DISK_def)
qed

end
