(* ===== verification/Trust.thy ===== *)
theory Trust
  imports Prelude "HOL-Library.Sublist"
begin

text \<open>
  \<open>src/trust.c\<close>: the trust anchors of a PEM file. The PEM and X.509 decoders are BearSSL's and are
  arguments, as a record of the calls the code makes; what the proofs ask of them is
  \<open>decoder_moves\<close>. Bytes are numbers, and the allocations of a load are numbered: \<open>heap i\<close> tells
  whether the i-th one succeeds.
\<close>

subsection \<open>The decoders\<close>

datatype x_pkey = K_rsa "nat list" "nat list" | K_ec nat "nat list" | K_other

text \<open>A certificate once pushed: the pieces of its subject, in the order of the callbacks, the key, if
  there is one, and whether it is a CA.\<close>

type_synonym certificate = "nat list list \<times> x_pkey option \<times> bool"

datatype pem_event = Begin_obj | End_obj | Pem_error | No_event

text \<open>A push returns the bytes consumed and the pieces of decoded data for the receiver; reading the
  event clears it.\<close>

record 'c decoders =
  pem_init :: 'c
  pem_consume :: "'c \<Rightarrow> nat list \<Rightarrow> nat \<times> nat list list \<times> 'c"
  pem_event_of :: "'c \<Rightarrow> pem_event \<times> 'c"
  pem_name :: "'c \<Rightarrow> string"
  x509 :: "nat list \<Rightarrow> certificate"

subsection \<open>A growing buffer\<close>

text \<open>\<open>bytes_t\<close>; \<open>bs_data\<close> is the first \<open>len\<close> bytes.\<close>

record bytes_t =
  bs_data :: "nat list"
  bs_cap :: nat
  bs_failed :: bool

definition no_bytes :: bytes_t where
  "no_bytes = \<lparr>bs_data = [], bs_cap = 0, bs_failed = False\<rparr>"

text \<open>The loop that doubles the capacity, which starts from at least 1024 (0 is here for the recursion).\<close>

function grow_cap :: "nat \<Rightarrow> nat \<Rightarrow> nat \<Rightarrow> nat" where
  "grow_cap n len c = (if n > c - len \<and> 0 < c then grow_cap n len (c * 2) else c)"
  by pat_completeness auto
termination
  by (relation "measure (\<lambda>(n, len, c). n + len - c)") auto

declare grow_cap.simps [simp del]

text \<open>With the number of the next allocation.\<close>

definition bytes_append :: "(nat \<Rightarrow> bool) \<Rightarrow> nat list \<Rightarrow> bytes_t \<times> nat \<Rightarrow> bytes_t \<times> nat" where
  "bytes_append heap src bi =
     (case bi of (b, i) \<Rightarrow>
        if bs_failed b then (b, i)
        else if length src > bs_cap b - length (bs_data b)
        then (if \<not> heap i then (b\<lparr>bs_failed := True\<rparr>, i + 1)
              else (b\<lparr>bs_cap := grow_cap (length src) (length (bs_data b)) (if bs_cap b \<noteq> 0 then bs_cap b else 1024),
                      bs_data := bs_data b @ src\<rparr>, i + 1))
        else (b\<lparr>bs_data := bs_data b @ src\<rparr>, i))"

subsection \<open>Anchors\<close>

record anchor =
  a_dn :: "nat list"
  a_ca :: bool
  a_key :: x_pkey

text \<open>The copies of a key: both parts of an RSA key are allocated, whatever came of the first.\<close>

definition copy_key :: "(nat \<Rightarrow> bool) \<Rightarrow> x_pkey \<Rightarrow> nat \<Rightarrow> bool \<times> nat" where
  "copy_key heap k i =
     (case k of
        K_rsa n e \<Rightarrow> (heap i \<and> heap (i + 1), i + 2)
      | K_ec c q \<Rightarrow> (heap i, i + 1)
      | K_other \<Rightarrow> (False, i))"

text \<open>Whether the certificate was added, the anchors and the next allocation.\<close>

definition add_anchor ::
    "'c decoders \<Rightarrow> (nat \<Rightarrow> bool) \<Rightarrow> anchor list \<Rightarrow> nat list \<Rightarrow> nat \<Rightarrow> bool \<times> anchor list \<times> nat" where
  "add_anchor D heap t cert i =
     (case x509 D cert of (pieces, pk, ca) \<Rightarrow>
        (case fold (bytes_append heap) pieces (no_bytes, i) of (dn, i) \<Rightarrow>
           (case pk of
              None \<Rightarrow> (False, t, i)
            | Some k \<Rightarrow>
                if bs_failed dn then (False, t, i)
                else (case copy_key heap k i of (copied, i) \<Rightarrow>
                        if \<not> copied then (False, t, i)
                        else if \<not> heap i then (False, t, i + 1)
                        else (True, t @ [\<lparr>a_dn = bs_data dn, a_ca = ca, a_key = k\<rparr>], i + 1)))))"

subsection \<open>Reading a file\<close>

text \<open>\<open>pem_read_t\<close>, with the next allocation; \<open>has_dest\<close> is whether the decoder was given a receiver.\<close>

record 'c pem_read_t =
  pc :: 'c
  der :: bytes_t
  anchors :: "anchor list"
  next_alloc :: nat
  has_dest :: bool
  in_object :: bool
  in_cert :: bool
  loaded :: nat
  bad :: bool

text \<open>What the event after a push does.\<close>

definition on_event :: "'c decoders \<Rightarrow> (nat \<Rightarrow> bool) \<Rightarrow> pem_event \<Rightarrow> 'c pem_read_t \<Rightarrow> 'c pem_read_t" where
  "on_event D heap e r =
     (case e of
        Begin_obj \<Rightarrow>
          let cert = (pem_name D (pc r) = ''CERTIFICATE'')
          in r\<lparr>in_object := True, in_cert := cert, der := (der r)\<lparr>bs_data := [], bs_failed := False\<rparr>, has_dest := cert\<rparr>
      | End_obj \<Rightarrow>
          (if in_cert r \<and> \<not> bs_failed (der r)
           then (case add_anchor D heap (anchors r) (bs_data (der r)) (next_alloc r) of (ok, t, i) \<Rightarrow>
                   r\<lparr>anchors := t, next_alloc := i, loaded := (if ok then loaded r + 1 else loaded r)\<rparr>)
           else r)\<lparr>in_object := False, in_cert := False\<rparr>
      | Pem_error \<Rightarrow> r\<lparr>bad := True\<rparr>
      | No_event \<Rightarrow> r)"

definition pem_turn :: "'c decoders \<Rightarrow> (nat \<Rightarrow> bool) \<Rightarrow> nat list \<Rightarrow> 'c pem_read_t \<Rightarrow> nat \<times> 'c pem_read_t" where
  "pem_turn D heap p r =
     (case pem_consume D (pc r) p of (used, pieces, c) \<Rightarrow>
        (case (if has_dest r then fold (bytes_append heap) pieces (der r, next_alloc r) else (der r, next_alloc r)) of
           (b, i) \<Rightarrow>
             (case pem_event_of D c of (e, c) \<Rightarrow>
                (used, on_event D heap e (r\<lparr>pc := c, der := b, next_alloc := i\<rparr>)))))"

text \<open>\<open>None\<close>: it never returns.\<close>

partial_function (option) pem_push ::
    "'c decoders \<Rightarrow> (nat \<Rightarrow> bool) \<Rightarrow> nat list \<Rightarrow> 'c pem_read_t \<Rightarrow> 'c pem_read_t option" where
  "pem_push D heap p r =
     (if p = [] \<or> bad r then Some r
      else case pem_turn D heap p r of (used, r') \<Rightarrow> pem_push D heap (drop used p) r')"

definition CHUNK :: nat where "CHUNK = 4096"

text \<open>The loop over the file: a chunk that is not full ends it.\<close>

function read_chunks ::
    "'c decoders \<Rightarrow> (nat \<Rightarrow> bool) \<Rightarrow> nat list \<Rightarrow> 'c pem_read_t \<Rightarrow> 'c pem_read_t option" where
  "read_chunks D heap content r =
     (case pem_push D heap (take CHUNK content) r of
        None \<Rightarrow> None
      | Some r' \<Rightarrow>
          if length (take CHUNK content) = CHUNK \<and> \<not> bad r'
          then read_chunks D heap (drop CHUNK content) r' else Some r')"
  by pat_completeness auto
termination
  by (relation "measure (\<lambda>(D, heap, content, r). length content)") (auto simp: CHUNK_def)

declare read_chunks.simps [simp del]

definition pem_start :: "'c decoders \<Rightarrow> anchor list \<Rightarrow> 'c pem_read_t" where
  "pem_start D t = \<lparr>pc = pem_init D, der = no_bytes, anchors = t, next_alloc = 0, has_dest = False,
     in_object = False, in_cert = False, loaded = 0, bad = False\<rparr>"

text \<open>The file: \<open>None\<close> when it cannot be opened, else what is read of it and whether reading failed.\<close>

definition trust_load ::
    "'c decoders \<Rightarrow> (nat \<Rightarrow> bool) \<Rightarrow> (nat list \<times> bool) option \<Rightarrow> anchor list \<Rightarrow> (int \<times> anchor list) option" where
  "trust_load D heap f t =
     (case f of
        None \<Rightarrow> Some (- 1, t)
      | Some (content, ferror) \<Rightarrow>
          (case read_chunks D heap content (pem_start D t) of
             None \<Rightarrow> None
           | Some r \<Rightarrow>
               (case pem_push D heap [10] r of
                  None \<Rightarrow> None
                | Some r' \<Rightarrow>
                    Some (if bad r' \<or> in_object r' \<or> ferror then - 1 else int (loaded r'), anchors r'))))"

definition SYSTEM_CA_FILES :: "string list" where
  "SYSTEM_CA_FILES = [''/etc/ssl/certs/ca-certificates.crt'', ''/etc/pki/tls/certs/ca-bundle.crt'',
     ''/etc/ssl/ca-bundle.pem'', ''/etc/pki/tls/cacert.pem'', ''/etc/pki/ca-trust/extracted/pem/tls-ca-bundle.pem'',
     ''/etc/ssl/cert.pem'']"

definition trust_system_file :: "(string \<Rightarrow> bool) \<Rightarrow> string option" where
  "trust_system_file readable = find readable SYSTEM_CA_FILES"

definition trust_free :: "anchor list \<Rightarrow> anchor list" where
  "trust_free t = []"

subsection \<open>The buffer\<close>

lemma grow_cap_room: "0 < c \<Longrightarrow> n \<le> grow_cap n len c - len"
proof (induction n len c rule: grow_cap.induct)
  case (1 n len c)
  show ?case
  proof (cases "n > c - len")
    case True
    then show ?thesis using 1 by (subst grow_cap.simps) simp
  next
    case False
    then show ?thesis by (subst grow_cap.simps) simp
  qed
qed

text \<open>The buffer the decoders write to is never overrun: an append leaves at most as many bytes in it as
  it holds, puts the new ones after the old, keeps the old ones when no memory is left, and the
  buffer fails exactly when it had failed or the growth it needed was refused.\<close>

lemma bytes_append_spec:
  assumes "bytes_append heap src (b, i) = (b', i')" and "length (bs_data b) \<le> bs_cap b"
  shows "length (bs_data b') \<le> bs_cap b' \<and> bs_data b' = (if bs_failed b' then bs_data b else bs_data b @ src) \<and>
    (bs_failed b' \<longleftrightarrow> bs_failed b \<or> bs_cap b < length (bs_data b) + length src \<and> \<not> heap i)"
proof (cases "bs_failed b \<or> length src \<le> bs_cap b - length (bs_data b) \<or> \<not> heap i")
  case True
  then show ?thesis using assms by (auto simp: bytes_append_def split: if_splits)
next
  case False
  define c where "c = grow_cap (length src) (length (bs_data b)) (if bs_cap b \<noteq> 0 then bs_cap b else 1024)"
  have "length src \<le> c - length (bs_data b)"
    unfolding c_def by (rule grow_cap_room) simp
  then have "length (bs_data b) + length src \<le> c" using False by linarith
  moreover have "b' = b\<lparr>bs_cap := c, bs_data := bs_data b @ src\<rparr>"
    using assms(1) False by (simp add: bytes_append_def c_def)
  ultimately show ?thesis using False by simp
qed

lemma bytes_append_data:
  "bs_failed b \<or> bs_data b = d \<Longrightarrow> bytes_append heap src (b, i) = (b', i') \<Longrightarrow> bs_failed b' \<or> bs_data b' = d @ src"
  by (auto simp: bytes_append_def split: if_splits)

lemma bytes_append_pieces:
  "bs_failed b \<or> bs_data b = d \<Longrightarrow> fold (bytes_append heap) pieces (b, i) = (b', i') \<Longrightarrow>
   bs_failed b' \<or> bs_data b' = d @ concat pieces"
proof (induction pieces arbitrary: b i d)
  case (Cons p ps)
  obtain b1 i1 where b1: "bytes_append heap p (b, i) = (b1, i1)" by (cases "bytes_append heap p (b, i)")
  show ?case
    using Cons.IH [OF bytes_append_data [OF Cons.prems(1) b1], of i1] Cons.prems(2) b1 by simp
qed simp

subsection \<open>What a file holds\<close>

text \<open>
  The reference: what the decoders make of the bytes alone, without buffers and without memory that
  runs out. A push gives an item: the pieces it decoded, the event, and the name of the object. At
  least one byte goes with each, so a piece of the file has no more items than bytes.
\<close>

type_synonym item = "nat list list \<times> pem_event \<times> string"

fun trace :: "'c decoders \<Rightarrow> nat \<Rightarrow> 'c \<Rightarrow> nat list \<Rightarrow> item list \<times> 'c" where
  "trace D 0 c p = ([], c)"
| "trace D (Suc n) c p =
     (if p = [] then ([], c)
      else case pem_consume D c p of (used, pieces, c1) \<Rightarrow>
        case pem_event_of D c1 of (e, c2) \<Rightarrow>
          case trace D n c2 (drop used p) of (its, c3) \<Rightarrow> ((pieces, e, pem_name D c2) # its, c3))"

fun file_trace :: "'c decoders \<Rightarrow> 'c \<Rightarrow> nat list list \<Rightarrow> item list" where
  "file_trace D c [] = []"
| "file_trace D c (p # ps) =
     (case trace D (length p) c p of (its, c') \<Rightarrow> its @ file_trace D c' ps)"

text \<open>The pieces of the file as they are read, the last one not full.\<close>

function chunks :: "nat list \<Rightarrow> nat list list" where
  "chunks content =
     take CHUNK content # (if length (take CHUNK content) = CHUNK then chunks (drop CHUNK content) else [])"
  by pat_completeness auto
termination
  by (relation "measure length") (auto simp: CHUNK_def)

declare chunks.simps [simp del]

text \<open>The bytes of each certificate that is complete before an error; \<open>cur\<close> is the one that is open.\<close>

fun certificates :: "item list \<Rightarrow> nat list option \<Rightarrow> nat list list" where
  "certificates [] cur = []"
| "certificates ((pieces, e, nm) # its) cur =
     (let cur' = map_option (\<lambda>b. b @ concat pieces) cur
      in case e of
           Begin_obj \<Rightarrow> certificates its (if nm = ''CERTIFICATE'' then Some [] else None)
         | End_obj \<Rightarrow> (case cur' of None \<Rightarrow> [] | Some b \<Rightarrow> [b]) @ certificates its None
         | Pem_error \<Rightarrow> []
         | No_event \<Rightarrow> certificates its cur')"

text \<open>Whether there is no error and every object that begins ends.\<close>

fun well_ended :: "item list \<Rightarrow> bool \<Rightarrow> bool" where
  "well_ended [] inside = (\<not> inside)"
| "well_ended ((pieces, e, nm) # its) inside =
     (case e of
        Begin_obj \<Rightarrow> well_ended its True
      | End_obj \<Rightarrow> well_ended its False
      | Pem_error \<Rightarrow> False
      | No_event \<Rightarrow> well_ended its inside)"

text \<open>The items of a file, with the newline that ends a last line.\<close>

definition items_of :: "'c decoders \<Rightarrow> nat list \<Rightarrow> item list" where
  "items_of D content = file_trace D (pem_init D) (chunks content @ [[10]])"

text \<open>The anchor of a certificate: its whole subject, its CA mark and its key, if it has one of a kind
  the webhook can use.\<close>

definition anchor_from :: "'c decoders \<Rightarrow> nat list \<Rightarrow> anchor option" where
  "anchor_from D cert =
     (case x509 D cert of
        (pieces, Some k, ca) \<Rightarrow> if k = K_other then None else Some \<lparr>a_dn = concat pieces, a_ca = ca, a_key = k\<rparr>
      | _ \<Rightarrow> None)"

definition usable :: "'c decoders \<Rightarrow> nat list list \<Rightarrow> anchor list" where
  "usable D certs = List.map_filter (anchor_from D) certs"

subsection \<open>The anchors\<close>

lemma fold_append_kept:
  assumes "\<And>i. heap i" and "fold (bytes_append heap) pieces (b, i) = (b', i')" and "\<not> bs_failed b"
  shows "\<not> bs_failed b'"
  using assms(2,3)
proof (induction pieces arbitrary: b i)
  case (Cons p ps)
  obtain b1 i1 where b1: "bytes_append heap p (b, i) = (b1, i1)" by (cases "bytes_append heap p (b, i)")
  then have "\<not> bs_failed b1" using Cons.prems(2) assms(1) by (auto simp: bytes_append_def split: if_splits)
  then show ?case using Cons.IH [of b1 i1] Cons.prems(1) b1 by simp
qed simp

lemma add_anchor_spec:
  assumes "add_anchor D heap t cert i = (ok, t', i')"
  shows "if ok then \<exists>a. t' = t @ [a] \<and> anchor_from D cert = Some a else t' = t"
    and "(\<And>i. heap i) \<Longrightarrow> \<not> ok \<Longrightarrow> anchor_from D cert = None"
proof -
  obtain pieces pk ca where x: "x509 D cert = (pieces, pk, ca)" by (cases "x509 D cert")
  obtain dn j where dn: "fold (bytes_append heap) pieces (no_bytes, i) = (dn, j)"
    by (cases "fold (bytes_append heap) pieces (no_bytes, i)")
  have d: "bs_failed dn \<or> bs_data dn = concat pieces"
    using bytes_append_pieces [OF _ dn, of "[]"] by (simp add: no_bytes_def)
  show "if ok then \<exists>a. t' = t @ [a] \<and> anchor_from D cert = Some a else t' = t"
    using assms d
    by (auto simp: add_anchor_def anchor_from_def x dn copy_key_def split: option.splits if_splits prod.splits x_pkey.splits)
  show "anchor_from D cert = None" if "\<And>i. heap i" "\<not> ok"
  proof -
    have "\<not> bs_failed dn" by (rule fold_append_kept [OF that(1) dn]) (simp add: no_bytes_def)
    then show ?thesis
      using assms that(2)
      by (auto simp: add_anchor_def anchor_from_def x dn copy_key_def that(1) split: option.splits if_splits x_pkey.splits)
  qed
qed

subsection \<open>A load\<close>

text \<open>What the PEM decoder promises: with no event waiting, a push consumes at least one byte and no
  more than it was given; reading the event leaves none waiting.\<close>

definition decoder_moves :: "('c \<Rightarrow> bool) \<Rightarrow> 'c decoders \<Rightarrow> bool" where
  "decoder_moves idle D =
     (idle (pem_init D) \<and>
      (\<forall>c p. idle c \<longrightarrow> p \<noteq> [] \<longrightarrow> 0 < fst (pem_consume D c p) \<and> fst (pem_consume D c p) \<le> length p) \<and>
      (\<forall>c. idle (snd (pem_event_of D c))))"

text \<open>The anchors of some of the certificates, in their order, and of all if no allocation fails.\<close>

definition matches :: "'c decoders \<Rightarrow> (nat \<Rightarrow> bool) \<Rightarrow> anchor list \<Rightarrow> nat list list \<Rightarrow> bool" where
  "matches D heap t certs = (subseq t (usable D certs) \<and> ((\<forall>i. heap i) \<longrightarrow> t = usable D certs))"

lemma matches_snoc:
  assumes "matches D heap t certs"
    and "if ok then \<exists>a. t' = t @ [a] \<and> anchor_from D b = Some a else t' = t"
    and "(\<forall>i. heap i) \<Longrightarrow> \<not> ok \<Longrightarrow> anchor_from D b = None"
  shows "matches D heap t' (certs @ [b])"
proof -
  have u: "usable D (certs @ [b]) = usable D certs @ (case anchor_from D b of None \<Rightarrow> [] | Some a \<Rightarrow> [a])"
    by (simp add: usable_def List.map_filter_def split: option.split)
  show ?thesis
  proof (cases ok)
    case True
    then show ?thesis using assms(1,2) u by (auto simp: matches_def)
  next
    case False
    then show ?thesis using assms u by (auto simp: matches_def split: option.split)
  qed
qed

text \<open>The buffer holds what is decoded of the open certificate, unless it has failed.\<close>

definition holds :: "(nat \<Rightarrow> bool) \<Rightarrow> 'c pem_read_t \<Rightarrow> nat list option \<Rightarrow> bool" where
  "holds heap r cur =
     ((in_cert r \<longleftrightarrow> cur \<noteq> None) \<and> (in_cert r \<longrightarrow> has_dest r) \<and>
      (\<forall>b. cur = Some b \<longrightarrow> bs_failed (der r) \<or> bs_data (der r) = b) \<and>
      ((\<forall>i. heap i) \<longrightarrow> \<not> bs_failed (der r)))"

text \<open>A load on its way through the items \<open>all\<close>, with the items \<open>rest\<close> still to come.\<close>

definition on_track :: "('c \<Rightarrow> bool) \<Rightarrow> 'c decoders \<Rightarrow> (nat \<Rightarrow> bool) \<Rightarrow> item list \<Rightarrow> 'c pem_read_t \<Rightarrow> item list \<Rightarrow> bool" where
  "on_track idle D heap all r rest =
     (idle (pc r) \<and> loaded r = length (anchors r) \<and>
      (\<exists>certs cur. matches D heap (anchors r) certs \<and>
         certificates all None = certs @ (if bad r then [] else certificates rest cur) \<and>
         well_ended all False = (\<not> bad r \<and> well_ended rest (in_object r)) \<and> holds heap r cur))"

text \<open>The end of a certificate.\<close>

lemma end_track:
  assumes "idle (pc r)" and "loaded r = length (anchors r)" and "matches D heap (anchors r) certs"
    and rest: "certificates all None = (certs @ [cert]) @ certificates rest None" "well_ended all False = well_ended rest False"
    and der: "bs_failed (der r) \<or> bs_data (der r) = cert" "(\<forall>i. heap i) \<Longrightarrow> \<not> bs_failed (der r)"
    and "in_cert r" and "\<not> bad r"
  shows "on_track idle D heap all (on_event D heap End_obj r) rest"
proof (cases "bs_failed (der r)")
  case True
  have "matches D heap (anchors r) (certs @ [cert])"
    by (rule matches_snoc [OF assms(3), where ok = False]) (use der(2) True in auto)
  then show ?thesis
    using assms True unfolding on_track_def
    by (intro conjI exI [of _ "certs @ [cert]"] exI [of _ None]) (auto simp: on_event_def holds_def)
next
  case False
  obtain ok t i where a: "add_anchor D heap (anchors r) (bs_data (der r)) (next_alloc r) = (ok, t, i)"
    by (cases "add_anchor D heap (anchors r) (bs_data (der r)) (next_alloc r)")
  have cert: "bs_data (der r) = cert" using der(1) False by simp
  have "matches D heap t (certs @ [cert])"
    by (rule matches_snoc [OF assms(3), where ok = ok]) (use add_anchor_spec [OF a, unfolded cert] in simp_all)
  moreover have "length t = length (anchors r) + (if ok then 1 else 0)"
    using add_anchor_spec(1) [OF a] by (auto split: if_splits)
  ultimately show ?thesis
    using assms False a unfolding on_track_def
    by (intro conjI exI [of _ "certs @ [cert]"] exI [of _ None]) (auto simp: on_event_def holds_def)
qed

lemma on_event_track:
  assumes "idle (pc r)" and "loaded r = length (anchors r)" and "matches D heap (anchors r) certs"
    and "certificates all None = certs @ certificates ((pieces, e, pem_name D (pc r)) # rest) cur"
    and "well_ended all False = well_ended ((pieces, e, pem_name D (pc r)) # rest) (in_object r)"
    and "holds heap r (map_option (\<lambda>b. b @ concat pieces) cur)" and "\<not> bad r"
  shows "on_track idle D heap all (on_event D heap e r) rest"
proof (cases e)
  case Begin_obj
  then show ?thesis
    using assms unfolding on_track_def
    by (intro conjI exI [of _ certs] exI [of _ "if pem_name D (pc r) = ''CERTIFICATE'' then Some [] else None"])
      (auto simp: on_event_def holds_def Let_def)
next
  case End_obj
  show ?thesis
  proof (cases "in_cert r")
    case False
    then show ?thesis
      using assms End_obj unfolding on_track_def
      by (intro conjI exI [of _ certs] exI [of _ None]) (auto simp: on_event_def holds_def Let_def)
  next
    case True
    then obtain b where b: "cur = Some b" using assms(6) by (auto simp: holds_def)
    define cert where "cert = b @ concat pieces"
    have "certificates all None = (certs @ [cert]) @ certificates rest None" "well_ended all False = well_ended rest False"
      using assms(4,5) End_obj b by (simp_all add: cert_def)
    moreover have "bs_failed (der r) \<or> bs_data (der r) = cert" "(\<forall>i. heap i) \<Longrightarrow> \<not> bs_failed (der r)"
      using assms(6) b by (simp_all add: holds_def cert_def)
    ultimately show ?thesis
      using assms(1-3,7) True End_obj by (auto intro!: end_track [where cert = cert and certs = certs])
  qed
next
  case Pem_error
  then show ?thesis
    using assms unfolding on_track_def
    by (intro conjI exI [of _ certs] exI [of _ "map_option (\<lambda>b. b @ concat pieces) cur"]) (auto simp: on_event_def holds_def)
next
  case No_event
  then show ?thesis
    using assms unfolding on_track_def
    by (intro conjI exI [of _ certs] exI [of _ "map_option (\<lambda>b. b @ concat pieces) cur"]) (auto simp: on_event_def holds_def)
qed

lemma pem_turn_track:
  assumes "decoder_moves idle D" and "pem_consume D (pc r) p = (used, pieces, c1)" and "pem_event_of D c1 = (e, c2)"
    and "on_track idle D heap all r ((pieces, e, pem_name D c2) # rest)" and "\<not> bad r"
  shows "\<exists>r'. pem_turn D heap p r = (used, r') \<and> pc r' = c2 \<and> on_track idle D heap all r' rest"
proof -
  obtain b i where b: "(if has_dest r then fold (bytes_append heap) pieces (der r, next_alloc r) else (der r, next_alloc r)) = (b, i)"
    by (cases "if has_dest r then fold (bytes_append heap) pieces (der r, next_alloc r) else (der r, next_alloc r)")
  define r1 where "r1 = r\<lparr>pc := c2, der := b, next_alloc := i\<rparr>"
  have turn: "pem_turn D heap p r = (used, on_event D heap e r1)"
    by (simp add: pem_turn_def assms(2,3) b r1_def)
  obtain certs cur where t: "loaded r = length (anchors r)" "matches D heap (anchors r) certs"
    "certificates all None = certs @ certificates ((pieces, e, pem_name D c2) # rest) cur"
    "well_ended all False = well_ended ((pieces, e, pem_name D c2) # rest) (in_object r)" "holds heap r cur"
    using assms(4,5) unfolding on_track_def by (auto simp del: certificates.simps well_ended.simps)
  have kept: "bs_failed b \<or> bs_data b = d @ concat pieces" if "has_dest r" "bs_failed (der r) \<or> bs_data (der r) = d" for d
    using bytes_append_pieces [OF that(2)] b that(1) by simp
  have "\<not> bs_failed b" if "\<forall>i. heap i"
    using fold_append_kept [of heap pieces "der r" "next_alloc r" b i] that b t(5) by (auto simp: holds_def split: if_splits)
  then have "holds heap r1 (map_option (\<lambda>b. b @ concat pieces) cur)"
    using t(5) kept by (auto simp: holds_def r1_def)
  moreover have "idle c2" using assms(1,3) by (metis decoder_moves_def snd_conv)
  ultimately have "on_track idle D heap all (on_event D heap e r1) rest"
    by (intro on_event_track [where pieces = pieces and certs = certs and cur = cur])
      (use t assms(5) in \<open>simp_all add: r1_def del: certificates.simps well_ended.simps\<close>)
  moreover have "pc (on_event D heap e r1) = c2"
    by (simp add: on_event_def r1_def Let_def split: pem_event.split prod.split)
  ultimately show ?thesis using turn by blast
qed

lemma on_track_bad: "on_track idle D heap all r rest \<Longrightarrow> bad r \<Longrightarrow> on_track idle D heap all r rest'"
  by (simp add: on_track_def)

lemma pem_push_track:
  assumes "decoder_moves idle D" and "length p \<le> n"
    and "on_track idle D heap all r (fst (trace D n (pc r) p) @ rest)"
  shows "\<exists>r'. pem_push D heap p r = Some r' \<and> on_track idle D heap all r' rest \<and>
    (\<not> bad r' \<longrightarrow> pc r' = snd (trace D n (pc r) p))"
  using assms(2,3)
proof (induction n arbitrary: p r)
  case 0
  then show ?case by (subst pem_push.simps) simp
next
  case (Suc n)
  show ?case
  proof (cases "p = [] \<or> bad r")
    case True
    then show ?thesis
      using Suc.prems(2) on_track_bad [of idle D heap all r] by (subst pem_push.simps) auto
  next
    case False
    obtain used pieces c1 where 1: "pem_consume D (pc r) p = (used, pieces, c1)" by (cases "pem_consume D (pc r) p")
    obtain e c2 where 2: "pem_event_of D c1 = (e, c2)" by (cases "pem_event_of D c1")
    obtain its c3 where 3: "trace D n c2 (drop used p) = (its, c3)" by (cases "trace D n c2 (drop used p)")
    have tr: "trace D (Suc n) (pc r) p = ((pieces, e, pem_name D c2) # its, c3)" using False 1 2 3 by simp
    have "on_track idle D heap all r ((pieces, e, pem_name D c2) # its @ rest)" using Suc.prems(2) unfolding tr by simp
    then obtain r1 where r1: "pem_turn D heap p r = (used, r1)" "pc r1 = c2" "on_track idle D heap all r1 (its @ rest)"
      using pem_turn_track [OF assms(1) 1 2] False by blast
    have "idle (pc r)" using Suc.prems(2) by (simp add: on_track_def)
    then have "0 < used" using assms(1) 1 False by (metis decoder_moves_def fst_conv)
    then have "length (drop used p) \<le> n" using Suc.prems(1) False by simp
    then show ?thesis
      using Suc.IH [of "drop used p" r1] r1 3 tr False by (subst pem_push.simps) simp
  qed
qed

lemma read_chunks_track:
  assumes "decoder_moves idle D" and "on_track idle D heap all r (file_trace D (pc r) (chunks content @ ps))"
  shows "\<exists>r'. read_chunks D heap content r = Some r' \<and> on_track idle D heap all r' (file_trace D (pc r') ps)"
  using assms
proof (induction D heap content r rule: read_chunks.induct)
  case (1 D heap content r)
  define p where "p = take CHUNK content"
  define qs where "qs = (if length p = CHUNK then chunks (drop CHUNK content) else []) @ ps"
  obtain its c where tr: "trace D (length p) (pc r) p = (its, c)" by (cases "trace D (length p) (pc r) p")
  have "chunks content @ ps = p # qs" unfolding p_def qs_def by (subst chunks.simps) simp
  then have "on_track idle D heap all r (fst (trace D (length p) (pc r) p) @ file_trace D c qs)"
    using 1(3) by (simp add: tr)
  from pem_push_track [OF 1(2) order.refl this]
  obtain r1 where r1: "pem_push D heap p r = Some r1" "on_track idle D heap all r1 (file_trace D c qs)" "\<not> bad r1 \<longrightarrow> pc r1 = c"
    by (auto simp: tr)
  show ?case
  proof (cases "length p = CHUNK \<and> \<not> bad r1")
    case True
    then have "on_track idle D heap all r1 (file_trace D (pc r1) (chunks (drop CHUNK content) @ ps))"
      using r1 by (simp add: qs_def)
    then show ?thesis
      using 1(1) [OF r1(1) [unfolded p_def]] True 1(2) r1(1) unfolding p_def by (subst read_chunks.simps) simp
  next
    case False
    then have "on_track idle D heap all r1 (file_trace D (pc r1) ps)"
      using r1 on_track_bad [OF r1(2)] by (cases "bad r1") (auto simp: qs_def)
    then show ?thesis using r1(1) False unfolding p_def by (subst read_chunks.simps) auto
  qed
qed

text \<open>C25: Loading a file always returns, whatever the bytes, the certificates and the memory, if the PEM
  decoder consumes something of what it is given. The result is -1 when the file cannot be read, has
  an error or ends inside an object, and the number of anchors otherwise. The anchors are those of
  the certificates of the file: each has the whole subject, the key and the CA mark of one of the
  certificates that are complete before any error, decoded from all of its bytes, in their order and
  none twice; and when no allocation fails, every certificate with a key of a kind the webhook can use
  has its anchor.\<close>

theorem trust_load_returns:
  assumes "decoder_moves idle D"
  shows "\<exists>rc t. trust_load D heap f [] = Some (rc, t) \<and>
    (case f of
       None \<Rightarrow> rc = - 1 \<and> t = []
     | Some (content, ferror) \<Rightarrow>
         rc = (if ferror \<or> \<not> well_ended (items_of D content) False then - 1 else int (length t)) \<and>
         subseq t (usable D (certificates (items_of D content) None)) \<and>
         ((\<forall>i. heap i) \<longrightarrow> t = usable D (certificates (items_of D content) None)))"
proof (cases f)
  case None
  then show ?thesis by (simp add: trust_load_def)
next
  case (Some cf)
  obtain content ferror where f: "f = Some (content, ferror)" using Some by (cases cf) simp
  define its where "its = items_of D content"
  have "on_track idle D heap its (pem_start D []) (file_trace D (pc (pem_start D [])) (chunks content @ [[10]]))"
    using assms unfolding on_track_def
    by (intro conjI exI [of _ "[]"] exI [of _ None])
      (simp_all add: pem_start_def decoder_moves_def matches_def usable_def List.map_filter_def its_def items_of_def
        holds_def no_bytes_def)
  then obtain r where r: "read_chunks D heap content (pem_start D []) = Some r"
    "on_track idle D heap its r (file_trace D (pc r) [[10]])"
    using read_chunks_track [OF assms] by blast
  have "on_track idle D heap its r (fst (trace D 1 (pc r) [10]) @ [])"
    using r(2) by (simp split: prod.splits)
  then obtain r' where r': "pem_push D heap [10] r = Some r'" "on_track idle D heap its r' []"
    using pem_push_track [OF assms, of "[10]" 1 heap its r "[]"] by auto
  then show ?thesis
    using r(1) by (auto simp: trust_load_def f on_track_def matches_def simp flip: its_def)
qed

text \<open>A decoder of one certificate, every file: the first byte begins it and the second ends it.\<close>

definition toy :: "nat decoders" where
  "toy = \<lparr>pem_init = 0,
     pem_consume = (\<lambda>c p. (1, (if c = 1 then [[48]] else []), c + 1)),
     pem_event_of = (\<lambda>c. (if c = 1 then Begin_obj else if c = 2 then End_obj else No_event, c)),
     pem_name = (\<lambda>_. ''CERTIFICATE''),
     x509 = (\<lambda>der. ([[1], [2]], Some (K_ec 23 der), True))\<rparr>"

lemma toy_moves: "decoder_moves (\<lambda>_. True) toy"
  by (auto simp: decoder_moves_def toy_def Suc_le_eq)

theorem trust_load_returns_witness:
  "trust_load toy (\<lambda>_. True) (Some ([65, 66], False)) [] = Some (1, [\<lparr>a_dn = [1, 2], a_ca = True, a_key = K_ec 23 [48]\<rparr>])"
proof -
  have "items_of toy [65, 66] = [([], Begin_obj, ''CERTIFICATE''), ([[48]], End_obj, ''CERTIFICATE''), ([], No_event, ''CERTIFICATE'')]"
    by (simp add: items_of_def chunks.simps CHUNK_def toy_def numeral_2_eq_2)
  then show ?thesis
    using trust_load_returns [OF toy_moves, of "\<lambda>_. True" "Some ([65, 66], False)"]
    by (auto simp: usable_def List.map_filter_def anchor_from_def toy_def)
qed

end
