(* ===== verification/MetricsProps.thy ===== *)
theory MetricsProps
  imports Metrics
begin

text \<open>
  The percentages of the CPU from the wrapping differences of its counters (\<open>Metrics\<close>).
\<close>

text \<open>The words of a group of counters hold the increase of the group, whatever each one did.\<close>

definition user_delta :: "cpu_raw_t \<Rightarrow> cpu_raw_t \<Rightarrow> int" where
  "user_delta cur prev = uint (c_user cur) - uint (c_user prev) + (uint (c_nice cur) - uint (c_nice prev))"

definition system_delta :: "cpu_raw_t \<Rightarrow> cpu_raw_t \<Rightarrow> int" where
  "system_delta cur prev = uint (c_system cur) - uint (c_system prev) + (uint (c_irq cur) - uint (c_irq prev)) +
     (uint (c_softirq cur) - uint (c_softirq prev))"

definition idle_delta :: "cpu_raw_t \<Rightarrow> cpu_raw_t \<Rightarrow> int" where
  "idle_delta cur prev = uint (c_idle cur) - uint (c_idle prev) + (uint (c_iowait cur) - uint (c_iowait prev))"

lemmas deltas = user_delta_def system_delta_def idle_delta_def

lemma word_groups:
  "c_user (cpu_delta cur prev) + c_nice (cpu_delta cur prev) = word_of_int (user_delta cur prev)"
  "c_system (cpu_delta cur prev) + c_irq (cpu_delta cur prev) + c_softirq (cpu_delta cur prev) =
     word_of_int (system_delta cur prev)"
  "c_idle (cpu_delta cur prev) + c_iowait (cpu_delta cur prev) = word_of_int (idle_delta cur prev)"
  by (simp_all add: cpu_delta_def deltas flip: wi_hom_add wi_hom_sub)

lemma word_total:
  "cpu_total (cpu_delta cur prev) = word_of_int (user_delta cur prev + system_delta cur prev + idle_delta cur prev)"
proof -
  define d where "d = cpu_delta cur prev"
  have "cpu_total d = (c_user d + c_nice d) + (c_system d + c_irq d + c_softirq d) + (c_idle d + c_iowait d)"
    by (simp add: cpu_total_def)
  then show ?thesis by (simp only: d_def word_groups wi_hom_add)
qed

lemma dbl_of_u64_uint: "dbl_of_u64 w = Fin (of_int (uint w))"
  by (simp only: dbl_of_u64_def uint_nat of_int_of_nat_eq)

lemma uint_mod: "uint (word_of_int n :: u64) = n mod 2 ^ 64"
proof -
  have "LENGTH(64) = 64" by simp
  then show ?thesis using uint_word_of_int [where ?'a = 64, of n] by metis
qed

lemma dbl_of_word:
  shows dbl_of_word_pos: "0 \<le> n \<Longrightarrow> n < 2 ^ 64 \<Longrightarrow> dbl_of_u64 (word_of_int n) = Fin (of_int n)"
    and dbl_of_word_neg: "- (2 ^ 64) \<le> n \<Longrightarrow> n < 0 \<Longrightarrow> dbl_of_u64 (word_of_int n) = Fin (of_int (2 ^ 64 + n))"
proof -
  show "dbl_of_u64 (word_of_int n) = Fin (of_int n)" if "0 \<le> n" "n < 2 ^ 64"
    unfolding dbl_of_u64_uint uint_mod mod_pos_pos_trivial [OF that] ..
  have "n mod 2 ^ 64 = (2 ^ 64 + n) mod 2 ^ 64" by (simp only: mod_add_self1)
  moreover have "(2 ^ 64 + n) mod 2 ^ 64 = 2 ^ 64 + n" if "- (2 ^ 64) \<le> n" "n < 0"
    by (rule mod_pos_pos_trivial) (use that in linarith)+
  ultimately show "dbl_of_u64 (word_of_int n) = Fin (of_int (2 ^ 64 + n))" if "- (2 ^ 64) \<le> n" "n < 0"
    unfolding dbl_of_u64_uint uint_mod using that by (simp only:)
qed

text \<open>C23: The CPU percentages of a cycle are the shares of the time since the previous one: when no group
  of counters went back as a whole, they are valid, none is negative, and they add up to 100, even
  where one counter of a group went back, or wrapped, and another made up for it. When the idle
  group did go back, the difference wraps and the value stored as valid is above 100.\<close>

theorem collect_cpu_shares:
  assumes "read_cpu_raw f = Some cur" and "s_prev_cpu st = Some prev" and "collect_cpu f st m = (st', m')"
    and "user_delta cur prev \<ge> 0" and "system_delta cur prev \<ge> 0" and "idle_delta cur prev > - (2 ^ 63)"
    and "user_delta cur prev + system_delta cur prev + idle_delta cur prev = t" and "0 < t" and "t < 2 ^ 64"
    and "user_delta cur prev + system_delta cur prev < 2 ^ 64"
  shows "\<exists>u s i. cpu_valid m' \<and> cpu_user_percent m' = Fin u \<and> cpu_system_percent m' = Fin s \<and> cpu_idle_percent m' = Fin i \<and>
    u = 100 * of_int (user_delta cur prev) / of_int t \<and> s = 100 * of_int (system_delta cur prev) / of_int t \<and>
    (if idle_delta cur prev \<ge> 0 then 0 \<le> u \<and> 0 \<le> s \<and> 0 \<le> i \<and> u + s + i = 100 else i > 100)"
proof -
  define U where "U = user_delta cur prev"
  define S where "S = system_delta cur prev"
  define I where "I = idle_delta cur prev"
  define J where "J = (if I \<ge> 0 then I else 2 ^ 64 + I)"
  note w = U_def S_def I_def
  have r: "0 \<le> U" "0 \<le> S" "U + S < 2 ^ 64" "- (2 ^ 63) < I" "U + S + I = t"
    using assms(4-10) by (simp_all add: w)
  have "I < 2 ^ 64" using r assms(9) by linarith
  have total: "cpu_total (cpu_delta cur prev) = word_of_int t" by (simp only: word_total assms(7))
  have dt: "dbl_of_u64 (word_of_int t) = Fin (of_int t)" using dbl_of_word_pos [of t] assms(8,9) by simp
  then have "cpu_total (cpu_delta cur prev) \<noteq> 0" using assms(8) total by (auto simp: dbl_of_u64_def)
  then have m': "cpu_valid m'" "cpu_user_percent m' = dbl_of_u64 (word_of_int U) * Fin 100 div Fin (of_int t)"
    "cpu_system_percent m' = dbl_of_u64 (word_of_int S) * Fin 100 div Fin (of_int t)"
    "cpu_idle_percent m' = dbl_of_u64 (word_of_int I) * Fin 100 div Fin (of_int t)"
    using assms(1-3) dt by (auto simp: collect_cpu_def word_groups total w)
  have du: "dbl_of_u64 (word_of_int U) = Fin (of_int U)" "dbl_of_u64 (word_of_int S) = Fin (of_int S)"
    using dbl_of_word_pos [of U] dbl_of_word_pos [of S] r by simp_all
  have di: "dbl_of_u64 (word_of_int I) = Fin (of_int J)"
    using dbl_of_word_pos [of I] dbl_of_word_neg [of I] r \<open>I < 2 ^ 64\<close> by (simp add: J_def)
  have t: "(of_int t :: rat) > 0" using assms(8) by simp
  define u where "u = 100 * of_int U / (of_int t :: rat)"
  define s where "s = 100 * of_int S / (of_int t :: rat)"
  define i where "i = 100 * of_int J / (of_int t :: rat)"
  have p: "Fin x * Fin 100 div Fin (of_int t) = Fin (100 * x / of_int t)" for x
    using t by (simp add: mult.commute)
  have vals: "cpu_user_percent m' = Fin u" "cpu_system_percent m' = Fin s" "cpu_idle_percent m' = Fin i"
    unfolding m'(2-4) du di p u_def s_def i_def by (rule refl)+
  have "u + s + i = 100" if "I \<ge> 0"
    using t r(5) that by (simp add: u_def s_def i_def J_def field_simps flip: of_int_add)
  moreover have "100 < i" if "I < 0"
  proof -
    have "t < J" using that r assms(9) by (simp add: J_def)
    then show ?thesis using t by (simp add: i_def less_divide_eq)
  qed
  moreover have "0 \<le> u" "0 \<le> s" "I \<ge> 0 \<longrightarrow> 0 \<le> i"
    using r(1,2) t by (simp_all add: u_def s_def i_def J_def)
  ultimately show ?thesis
    using m'(1) vals by (intro exI [of _ u] exI [of _ s] exI [of _ i]) (simp add: u_def s_def w)
qed

text \<open>A cycle where \<open>iowait\<close> went back by one while the time idle went on.\<close>

theorem collect_cpu_shares_witness:
  "\<forall>m. \<exists>u s i. cpu_idle_percent (snd (collect_cpu (Some ''cpu 10 0 20 70 1 0 0'')
     \<lparr>s_prev_cpu = Some \<lparr>c_user = 0, c_nice = 0, c_system = 0, c_idle = 0, c_iowait = 2, c_irq = 0, c_softirq = 0\<rparr>,
      s_prev_net = None, s_prev_swap_io = None, s_memfree_noted = False\<rparr> m)) = Fin i \<and> u = 1000 / 99 \<and> s = 2000 / 99 \<and>
     0 \<le> i \<and> u + s + i = 100" (is "\<forall>m. ?P m")
proof (rule allI)
  fix m :: metrics_t
  define prev :: cpu_raw_t where
    "prev = \<lparr>c_user = 0, c_nice = 0, c_system = 0, c_idle = 0, c_iowait = 2, c_irq = 0, c_softirq = 0\<rparr>"
  define cur :: cpu_raw_t where
    "cur = \<lparr>c_user = 10, c_nice = 0, c_system = 20, c_idle = 70, c_iowait = 1, c_irq = 0, c_softirq = 0\<rparr>"
  define st where "st = \<lparr>s_prev_cpu = Some prev, s_prev_net = None, s_prev_swap_io = None, s_memfree_noted = False\<rparr>"
  have seven: "7 = Suc (Suc (Suc (Suc (Suc (Suc (Suc 0))))))" by simp
  have "parse_ulls 7 '' 10 0 20 70 1 0 0'' = Some [10, 0, 20, 70, 1, 0, 0]"
    unfolding seven
    by (simp add: strtoull_def sign_split_def c_isspace_def c_isdigit_def digit_val_def)
  then have read: "read_cpu_raw (Some ''cpu 10 0 20 70 1 0 0'') = Some cur"
    by (simp add: read_cpu_raw_def fgets_def cur_def)
  have d: "user_delta cur prev = 10" "system_delta cur prev = 20" "idle_delta cur prev = 69"
    by (simp_all add: deltas cur_def prev_def)
  obtain st' m' where run: "collect_cpu (Some ''cpu 10 0 20 70 1 0 0'') st m = (st', m')"
    by (cases "collect_cpu (Some ''cpu 10 0 20 70 1 0 0'') st m")
  have "s_prev_cpu st = Some prev" by (simp add: st_def)
  from collect_cpu_shares [OF read this run, unfolded d, of 99] show "?P m"
    using run by (simp add: st_def prev_def) blast
qed

end
