(* ===== verification/Upgrade.thy ===== *)
theory Upgrade
  imports MigProps MigSchemaProps Ladder
begin

text \<open>
  The upgrade of a whole database (\<open>src/migrate/main.c\<close>) from the pieces: the checks, the copies and the
  loop of \<open>Migrate\<close>, the scripts of \<open>MigSchema\<close> as \<open>minimoni db exec\<close> (\<open>DbCmd\<close>) runs them. The locale
  \<open>upgrade_exec\<close> is what the driver relies on of its child; it is interpreted on a \<open>db exec\<close> that runs
  the scripts through \<open>db_cmd_exec\<close>.
\<close>

subsection \<open>The interface: \<open>minimoni db exec\<close> on databases of earlier versions\<close>

text \<open>What the migration relies on of the child: of \<open>db exec\<close>, that a script runs as \<open>DbCmd\<close> says, and
  of SQLite, the answers to the queries of the checks, that a copy succeeds, and that compacting
  keeps the schema and the version.\<close>

text \<open>The file \<open>p\<close> holds the database \<open>d\<close>.\<close>

definition db_at :: "'d disk \<Rightarrow> string \<Rightarrow> 'd \<Rightarrow> bool" where
  "db_at disk p d = (disk p = Some d)"

locale upgrade_exec = exec_child env for env :: "old_db mig_env" +
  assumes runs: "db_at disk p d \<Longrightarrow> cs \<in> {SCRIPT_V0_TO_V1, SCRIPT_V1_TO_V2} \<Longrightarrow>
      db_cmd_exec True (migration_script cs) None d = (rc, shown, d') \<Longrightarrow>
      fst (db_exec env p (script_sql cs) None disk) = (rc, shown) \<and> db_at (snd (db_exec env p (script_sql cs) None disk)) p d'"
    and integrity: "db_at disk p d \<Longrightarrow> fst (db_exec env p ''PRAGMA integrity_check'' None disk) = (0, ''ok'' @ nl)"
    and app_id: "db_at disk p d \<Longrightarrow> fst (db_exec env p ''PRAGMA application_id'' None disk) = (0, ''1836019305'' @ nl)"
    and counts: "db_at disk p d \<Longrightarrow> ''timestamp'' \<in> fst ` set (table_cols ''metrics'' d) \<Longrightarrow>
      fst (db_exec env p COUNT_TIMESTAMP None disk) = (0, ''1'' @ nl)"
    and version: "db_at disk p d \<Longrightarrow> fst (db_exec env p ''PRAGMA user_version'' None disk) = (0, show_int (o_version d) @ nl)"
    and schema: "db_at disk p d \<Longrightarrow> fst (db_exec env p SCHEMA_QUERY None disk) = (0, fingerprint d)"
    and copies: "db_at disk p d \<Longrightarrow> disk t \<noteq> None \<Longrightarrow> fst (fst (db_exec env p VACUUM_INTO (Some t) disk)) = 0"
    and folds: "db_at disk p d \<Longrightarrow> has_schema SQL_CREATE_COLS d \<Longrightarrow>
      mig_build_consolidate_sql MIG_CONSOLIDATE_SQL_SIZE now = Some q \<or> q = ''VACUUM'' \<Longrightarrow>
      \<exists>d'. fst (fst (db_exec env p q None disk)) = 0 \<and> db_at (snd (db_exec env p q None disk)) p d' \<and>
        has_schema SQL_CREATE_COLS d' \<and> o_version d' = o_version d"
begin

lemma read_scalar_answer:
  assumes "fst (db_exec env p q None disk) = (0, s @ nl)" and "db_at disk p d" and "q \<in> READS"
  shows "\<exists>disk'. read_scalar env p q disk = (Some s, disk') \<and> db_at disk' p d"
proof -
  obtain disk' where e: "db_exec env p q None disk = ((0, s @ nl), disk')"
    using assms(1) by (cases "db_exec env p q None disk") auto
  have "db_at disk' p d" using exec_read [OF assms(3), of p disk] assms(2) e by (simp add: db_at_def)
  then show ?thesis using e by (simp add: read_scalar_def chomp_def nl_def)
qed

lemma preflight_answers:
  assumes "db_at disk p d" and "''timestamp'' \<in> fst ` set (table_cols ''metrics'' d)" and "0 \<le> o_version d" and "o_version d < 10"
  shows "\<exists>disk'. migrate_preflight (2 ^ 63 - 1) env p disk = (Some (o_version d), disk') \<and> db_at disk' p d"
proof -
  obtain d1 where 1: "read_scalar env p ''PRAGMA integrity_check'' disk = (Some ''ok'', d1)" "db_at d1 p d"
    using read_scalar_answer [OF integrity [OF assms(1)] assms(1)] by (auto simp: READS_def)
  obtain d2 where 2: "read_scalar env p ''PRAGMA application_id'' d1 = (Some ''1836019305'', d2)" "db_at d2 p d"
    using read_scalar_answer [OF app_id [OF 1(2)] 1(2)] by (auto simp: READS_def)
  obtain d3 where 3: "read_scalar env p COUNT_TIMESTAMP d2 = (Some ''1'', d3)" "db_at d3 p d"
    using read_scalar_answer [OF counts [OF 2(2) assms(2)] 2(2)] by (auto simp: READS_def)
  obtain d4 where 4: "read_scalar env p ''PRAGMA user_version'' d3 = (Some (show_int (o_version d)), d4)" "db_at d4 p d"
    using read_scalar_answer [OF version [OF 3(2)] 3(2)] by (auto simp: READS_def)
  have n: "strtol (2 ^ 63 - 1) (show_int (o_version d)) = (o_version d, [])"
    using strtol_show_nat [of "nat (o_version d)" "2 ^ 63 - 1" "[]"] assms(3,4) by (simp add: show_int_def)
  have app: "fst (strtol (2 ^ 63 - 1) ''1836019305'') = MONI_APPLICATION_ID" "fst (strtol (2 ^ 63 - 1) ''1'') = 1"
    by (simp_all add: strtol_def sign_split_def c_isspace_def c_isdigit_def digit_val_def MONI_APPLICATION_ID_def)
  show ?thesis
    using assms(3,4) 4(2) by (simp add: migrate_preflight_def 1 2 3 4 n [simplified] app [simplified] to_signed_id)
qed

lemma source_accepted:
  assumes "db_at disk p d" and "migrations_find (o_version d) = Some m" and "fingerprint d = fingerprint_of m"
  shows "\<exists>disk'. source_ok env p False (o_version d) disk = (True, disk') \<and> db_at disk' p d"
proof -
  obtain disk' where e: "db_exec env p SCHEMA_QUERY None disk = ((0, fingerprint d), disk')"
    using schema [OF assms(1)] by (cases "db_exec env p SCHEMA_QUERY None disk") auto
  have "db_at disk' p d" using exec_read [of SCHEMA_QUERY p disk] assms(1) e by (simp add: READS_def db_at_def)
  then show ?thesis using e assms(2,3) by (simp add: source_ok_def verify_schema_def)
qed

lemma script_step:
  assumes "db_at disk p d" and "migrations_find (o_version d) = Some m" and "script_text m = script_sql cs"
    and "cs \<in> {SCRIPT_V0_TO_V1, SCRIPT_V1_TO_V2}" and "apply_all cs d = Some d'" and "o_version d < migrations_latest_version"
  shows "\<exists>disk'. apply_migrations env p (o_version d) disk = apply_migrations env p (to_version m) disk' \<and> db_at disk' p d'"
proof -
  obtain disk' where e: "db_exec env p (script_text m) None disk = ((0, []), disk')" "db_at disk' p d'"
    using runs [OF assms(1,4) exec_migration [OF assms(5)]] assms(3) by (cases "db_exec env p (script_text m) None disk") auto
  then show ?thesis using assms(2,6) by (subst apply_migrations.simps) auto
qed

end

text \<open>The consolidation SQL of this program is the daemon's.\<close>

lemma mig_build_mirror: "mig_build_consolidate_sql = build_consolidate_sql"
  by (intro ext) (simp add: mig_build_consolidate_sql_def build_consolidate_sql_def MIG_TIER_TRANSITIONS_def TIER_TRANSITIONS_def)

text \<open>A system where no call fails and the clock is past 1970.\<close>

definition working_system :: "'d mig_env \<Rightarrow> bool" where
  "working_system env =
     ((\<forall>p. \<not> unlink_fails env p) \<and> (\<forall>p. \<not> create_fails env p) \<and> \<not> rename_fails env \<and> \<not> malloc_fails env \<and>
      (\<forall>i. 0 \<le> clock env i \<and> clock env i < 2 ^ 63))"

lemma working_build:
  assumes "working_system env"
  shows "\<exists>q. mig_build_consolidate_sql MIG_CONSOLIDATE_SQL_SIZE (clock env i) = Some q"
proof -
  have "0 \<le> clock env i" "clock env i < 2 ^ 63" using assms by (simp_all add: working_system_def)
  then show ?thesis
    using build_consolidate_sql_fits [of "clock env i"]
    by (simp add: mig_build_mirror MIG_CONSOLIDATE_SQL_SIZE_def CONSOLIDATE_SQL_SIZE_def)
qed

lemma working_remove:
  assumes "working_system env"
  shows "remove_file env q disk = (True, disk(q := None))"
    and "length q < 1050 \<Longrightarrow> remove_sidecars env q disk = (True, disk(q @ ''-journal'' := None, q @ ''-wal'' := None, q @ ''-shm'' := None))"
proof -
  show r: "remove_file env q disk = (True, disk(q := None))" for q disk
    using assms by (simp add: working_system_def remove_file_def)
  show "remove_sidecars env q disk = (True, disk(q @ ''-journal'' := None, q @ ''-wal'' := None, q @ ''-shm'' := None))"
    if "length q < 1050"
    using that by (simp add: remove_sidecars_def SUFFIXES_def fit_text_def r)
qed

text \<open>The chain of the table of migrations.\<close>

lemma migrations_chain:
  "migrations_find 0 = Some \<lparr>from_version = 0, to_version = 1, fingerprint_of = V0_SCHEMA_FINGERPRINT, script_text = script_sql SCRIPT_V0_TO_V1\<rparr>"
  "migrations_find 1 = Some \<lparr>from_version = 1, to_version = 2, fingerprint_of = V1_SCHEMA_FINGERPRINT, script_text = script_sql SCRIPT_V1_TO_V2\<rparr>"
  by (simp_all add: migrations_find_def MIGRATIONS_def)

definition upgradable :: "old_db \<Rightarrow> bool" where
  "upgradable d = (has_schema V0_COLS d \<and> o_version d = 0 \<or> has_schema V1_COLS d \<and> o_version d = 1)"

definition upgraded :: "old_db \<Rightarrow> bool" where
  "upgraded d = (has_schema SQL_CREATE_COLS d \<and> o_version d = 2)"

context upgrade_exec
begin

lemma apply_from_1:
  assumes "db_at disk p d" and "has_schema V1_COLS d" and "o_version d = 1"
  shows "\<exists>disk' d'. apply_migrations env p 1 disk = (0, None, disk') \<and> db_at disk' p d' \<and> upgraded d'"
proof -
  obtain d' where s: "apply_all SCRIPT_V1_TO_V2 d = Some d'" "has_schema SQL_CREATE_COLS d'" "o_version d' = 2"
    using script_v1_v2 [OF assms(2)] by blast
  obtain disk' where "apply_migrations env p 1 disk = apply_migrations env p 2 disk'" "db_at disk' p d'"
    using script_step [OF assms(1) migrations_chain(2) [folded assms(3)] _ _ s(1)] assms(3) by (auto simp: find_steps(3))
  then show ?thesis using s(2,3) model_apply_2 by (auto simp: upgraded_def)
qed

lemma apply_chain:
  assumes "db_at disk p d" and "upgradable d"
  shows "\<exists>disk' d'. apply_migrations env p (o_version d) disk = (0, None, disk') \<and> db_at disk' p d' \<and> upgraded d'"
proof (cases "o_version d = 1")
  case True
  then show ?thesis using apply_from_1 [OF assms(1)] assms(2) by (auto simp: upgradable_def)
next
  case False
  then have v0: "has_schema V0_COLS d" "o_version d = 0" using assms(2) by (auto simp: upgradable_def)
  obtain d1 where s: "apply_all SCRIPT_V0_TO_V1 d = Some d1" "has_schema V1_COLS d1" "o_version d1 = 1"
    using script_v0_v1 [OF v0(1)] by blast
  obtain disk1 where "apply_migrations env p 0 disk = apply_migrations env p 1 disk1" "db_at disk1 p d1"
    using script_step [OF assms(1) migrations_chain(1) [folded v0(2)] _ _ s(1)] v0(2) by (auto simp: find_steps(3))
  then show ?thesis using apply_from_1 [OF _ s(2,3)] v0(2) by auto
qed

lemma passes_keep:
  assumes "working_system env" and "db_at disk p d" and "upgraded d"
  shows "\<exists>disk' d'. consolidate_passes env p i k disk = (0, disk') \<and> db_at disk' p d' \<and> upgraded d'"
  using assms(2,3)
proof (induction k arbitrary: i disk d)
  case 0
  then show ?case by auto
next
  case (Suc k)
  obtain q where q: "mig_build_consolidate_sql MIG_CONSOLIDATE_SQL_SIZE (clock env i) = Some q"
    using working_build [OF assms(1)] by blast
  obtain d' where d': "fst (fst (db_exec env p q None disk)) = 0" "db_at (snd (db_exec env p q None disk)) p d'" "upgraded d'"
    using folds [OF Suc.prems(1) _ disjI1 [OF q]] Suc.prems(2) by (auto simp: upgraded_def)
  obtain rc shown disk' where e: "db_exec env p q None disk = ((rc, shown), disk')" by (metis prod.collapse)
  show ?case using Suc.IH [of disk' d' "i + 1"] d' e q by auto
qed

lemma compaction_keeps:
  assumes "working_system env" and "db_at disk p d" and "upgraded d"
  shows "\<exists>disk' d'. migrate_consolidate_and_vacuum env p disk = (0, disk') \<and> db_at disk' p d' \<and> upgraded d'"
proof -
  obtain disk1 d1 where 1: "consolidate_passes env p 0 (length MIG_TIER_TRANSITIONS + 3) disk = (0, disk1)" "db_at disk1 p d1" "upgraded d1"
    using passes_keep [OF assms] by blast
  obtain d2 where d2: "fst (fst (db_exec env p ''VACUUM'' None disk1)) = 0" "db_at (snd (db_exec env p ''VACUUM'' None disk1)) p d2" "upgraded d2"
    using folds [OF 1(2) _ disjI2 [OF refl]] 1(3) by (auto simp: upgraded_def)
  obtain rc shown disk2 where e: "db_exec env p ''VACUUM'' None disk1 = ((rc, shown), disk2)" by (metis prod.collapse)
  have "\<not> malloc_fails env" using assms(1) by (simp add: working_system_def)
  then show ?thesis using 1(1) d2 e by (auto simp: migrate_consolidate_and_vacuum_def)
qed

lemma snapshot_made:
  assumes "working_system env" and "length dst < 1024" and "apart p dst" and "db_at disk p d"
  shows "\<exists>disk'. migrate_snapshot env p dst disk = (0, disk') \<and> db_at disk' p d \<and> db_at disk' dst d"
proof -
  define tmp where "tmp = dst @ ''.tmp''"
  have len: "length tmp < 1050" using assms(2) by (simp add: tmp_def)
  define d3 where "d3 = disk(tmp := None, tmp @ ''-journal'' := None, tmp @ ''-wal'' := None, tmp @ ''-shm'' := None,
    tmp \<mapsto> empty_file_db env)"
  have "db_at d3 p d" "d3 tmp \<noteq> None"
    using assms(3,4) by (simp_all add: d3_def db_at_def apart_def sides_iff flip: tmp_def)
  then have "fst (fst (db_exec env p VACUUM_INTO (Some tmp) d3)) = 0" by (rule copies)
  then obtain shown d4 where e: "db_exec env p VACUUM_INTO (Some tmp) d3 = ((0, shown), d4)"
    by (cases "db_exec env p VACUUM_INTO (Some tmp) d3") auto
  have fails: "\<not> create_fails env tmp" "\<not> rename_fails env" using assms(1) by (simp_all add: working_system_def)
  have "fst (migrate_snapshot env p dst disk) = 0"
    using assms(2) len e fails
    by (simp add: migrate_snapshot_def fit_text_def working_remove [OF assms(1)] d3_def flip: tmp_def)
  then obtain disk' where s: "migrate_snapshot env p dst disk = (0, disk')" by (metis prod.collapse)
  then show ?thesis
    using migrate_snapshot_spec [OF s assms(3)] assms(4) by (simp add: db_at_def)
qed

end

context upgrade_exec
begin

lemma fingerprint_of_upgradable:
  assumes "upgradable d"
  shows "\<exists>m. migrations_find (o_version d) = Some m \<and> fingerprint d = fingerprint_of m"
  using assms fingerprint_v0 fingerprint_v1 by (auto simp: upgradable_def migrations_chain)

lemma upgradable_column: "upgradable d \<or> upgraded d \<Longrightarrow> ''timestamp'' \<in> fst ` set (table_cols ''metrics'' d)"
  by (auto simp: upgradable_def upgraded_def V0_COLS_def V1_COLS_def SQL_CREATE_COLS_def dest!: schema_names)

lemma first_run:
  assumes "working_system env" and "length (backup_name db (o_version d)) < 1024" and "db_at disk db d" and "upgradable d"
  shows "\<exists>disk' d'. do_migrate (2 ^ 63 - 1) env db True False False disk = (0, None, None, disk') \<and>
    db_at disk' db d' \<and> upgraded d' \<and> db_at disk' (backup_name db (o_version d)) d"
proof -
  define v where "v = o_version d"
  have v: "0 \<le> v" "v < 2" using assms(4) by (auto simp: v_def upgradable_def)
  obtain d1 where pre: "migrate_preflight (2 ^ 63 - 1) env db disk = (Some v, d1)" "db_at d1 db d"
    using preflight_answers [OF assms(3)] upgradable_column assms(4) v by (auto simp: v_def)
  obtain d2 where src: "source_ok env db False v d1 = (True, d2)" "db_at d2 db d"
    using fingerprint_of_upgradable [OF assms(4)] source_accepted [OF pre(2)] by (auto simp: v_def)
  obtain d3 where snap: "migrate_snapshot env db (backup_name db v) d2 = (0, d3)" "db_at d3 db d" "db_at d3 (backup_name db v) d"
    using snapshot_made [OF assms(1,2) names_apart(1) src(2)] by (auto simp: v_def)
  have bk: "backed_up env db v d2 = (0, d3)" using assms(2) snap(1) by (simp add: backed_up_def fit_text_def v_def)
  obtain d4 e4 where ap: "apply_migrations env db v d3 = (0, None, d4)" "db_at d4 db e4" "upgraded e4"
    using apply_chain [OF snap(2) assms(4)] by (auto simp: v_def)
  obtain d5 e5 where co: "migrate_consolidate_and_vacuum env db d4 = (0, d5)" "db_at d5 db e5" "upgraded e5"
    using compaction_keeps [OF assms(1) ap(2,3)] by blast
  have place: "migrate_in_place env db True v d3 = (0, None, None, d5)" by (simp add: migrate_in_place_def ap(1) co(1))
  have "disk db = Some d" using assms(3) by (simp add: db_at_def)
  then have "do_migrate (2 ^ 63 - 1) env db True False False disk = (0, None, None, d5)"
    using pre(1) src(1) bk place v by (simp add: do_migrate_def find_steps(3))
  moreover have "db_at d5 (backup_name db v) d"
    using migrate_in_place_other [OF names_apart(3) place] snap(3) by (simp add: db_at_def)
  ultimately show ?thesis using co(2,3) by (auto simp: v_def)
qed

lemma second_run:
  assumes "db_at disk db d" and "upgraded d"
  shows "\<exists>disk'. do_migrate (2 ^ 63 - 1) env db do_backup False force disk = (0, None, None, disk') \<and> db_at disk' db d"
proof -
  have v: "o_version d = 2" using assms(2) by (simp add: upgraded_def)
  obtain d1 where pre: "migrate_preflight (2 ^ 63 - 1) env db disk = (Some 2, d1)" "db_at d1 db d"
    using preflight_answers [OF assms(1)] upgradable_column assms(2) v by auto
  have "disk db = Some d" using assms(1) by (simp add: db_at_def)
  then show ?thesis using pre by (simp add: do_migrate_def find_steps(3) dry_status_def)
qed

end

text \<open>C8: A canonical database of v0.1 or v0.2 is upgraded: when no call of the system fails and the backup's
  name fits, \<open>minimoni-migrate\<close> ends with 0, the database then has the tables, columns and indexes the
  daemon creates and its version, the backup holds the old one, and a second run finds nothing to do.
  Of \<open>db exec\<close> it uses the contract \<open>upgrade_exec\<close>.\<close>

theorem migrate_upgrades:
  assumes "upgrade_exec env" and "working_system env" and "length (backup_name db (o_version d)) < 1024"
    and "disk db = Some d" and "has_schema V0_COLS d \<and> o_version d = 0 \<or> has_schema V1_COLS d \<and> o_version d = 1"
  shows "\<exists>disk' d' disk''. do_migrate (2 ^ 63 - 1) env db True False False disk = (0, None, None, disk') \<and>
    disk' db = Some d' \<and> has_schema SQL_CREATE_COLS d' \<and> o_version d' = MINIMONI_SCHEMA_VERSION \<and>
    disk' (backup_name db (o_version d)) = Some d \<and>
    do_migrate (2 ^ 63 - 1) env db True False False disk' = (0, None, None, disk'') \<and> disk'' db = Some d'"
proof -
  have "db_at disk db d" "upgradable d" using assms(4,5) by (simp_all add: db_at_def upgradable_def)
  then obtain disk' d' where 1: "do_migrate (2 ^ 63 - 1) env db True False False disk = (0, None, None, disk')"
    "db_at disk' db d'" "upgraded d'" "db_at disk' (backup_name db (o_version d)) d"
    using upgrade_exec.first_run [OF assms(1,2,3)] by blast
  obtain disk'' where 2: "do_migrate (2 ^ 63 - 1) env db True False False disk' = (0, None, None, disk'')" "db_at disk'' db d'"
    using upgrade_exec.second_run [OF assms(1) 1(2,3)] by blast
  show ?thesis
    using 1 2 by (intro exI [of _ disk'] exI [of _ d'] exI [of _ disk'']) (simp add: db_at_def upgraded_def MINIMONI_SCHEMA_VERSION_def)
qed


subsection \<open>The contract can hold\<close>

definition read_answer :: "string \<Rightarrow> old_db \<Rightarrow> string option" where
  "read_answer q d =
     (if q = ''PRAGMA integrity_check'' then Some (''ok'' @ nl)
      else if q = ''PRAGMA application_id'' then Some (''1836019305'' @ nl)
      else if q = COUNT_TIMESTAMP then Some (''1'' @ nl)
      else if q = ''PRAGMA user_version'' then Some (show_int (o_version d) @ nl)
      else if q = SCHEMA_QUERY then Some (fingerprint d)
      else None)"

definition script_of :: "string \<Rightarrow> change list option" where
  "script_of q =
     (if q = script_sql SCRIPT_V0_TO_V1 then Some SCRIPT_V0_TO_V1
      else if q = script_sql SCRIPT_V1_TO_V2 then Some SCRIPT_V1_TO_V2 else None)"

text \<open>\<open>db exec\<close> on these databases; a compaction leaves them as they are.\<close>

definition old_exec :: "string \<Rightarrow> string \<Rightarrow> string option \<Rightarrow> old_db disk \<Rightarrow> reply \<times> old_db disk" where
  "old_exec p q v disk =
     (case disk p of
        None \<Rightarrow> ((2, []), disk)
      | Some d \<Rightarrow>
          if q = VACUUM_INTO
          then (case v of None \<Rightarrow> ((1, []), disk) | Some t \<Rightarrow> ((0, []), disk(t \<mapsto> d)))
          else (case read_answer q d of
                  Some shown \<Rightarrow> ((0, shown), disk)
                | None \<Rightarrow>
                    (case script_of q of
                       None \<Rightarrow> ((0, []), disk)
                     | Some cs \<Rightarrow>
                         (case db_cmd_exec True (migration_script cs) None d of
                            (rc, shown, d') \<Rightarrow> ((rc, shown), disk(p \<mapsto> d'))))))"

definition old_env :: "old_db mig_env" where
  "old_env = \<lparr>db_exec = old_exec, stat_fails = False, unlink_fails = (\<lambda>_. False), create_fails = (\<lambda>_. False),
     rename_fails = False, empty_file_db = \<lparr>o_version = 0, o_tables = [], o_indexes = [], o_rows = []\<rparr>,
     process_id = 7, clock = (\<lambda>_. 0), malloc_fails = False\<rparr>"

lemma script_texts:
  "take 7 (script_sql cs) = ''BEGIN;A''" if "cs \<in> {SCRIPT_V0_TO_V1, SCRIPT_V1_TO_V2}"
  using that by (auto simp: script_sql_def SCRIPT_V0_TO_V1_def SCRIPT_V1_TO_V2_def)

lemma scripts_differ: "script_sql SCRIPT_V0_TO_V1 \<noteq> script_sql SCRIPT_V1_TO_V2"
proof -
  have "take 40 (script_sql SCRIPT_V0_TO_V1) \<noteq> take 40 (script_sql SCRIPT_V1_TO_V2)"
    by (simp add: script_sql_def SCRIPT_V0_TO_V1_def SCRIPT_V1_TO_V2_def)
  then show ?thesis by auto
qed

lemma script_of_script: "cs \<in> {SCRIPT_V0_TO_V1, SCRIPT_V1_TO_V2} \<Longrightarrow> script_of (script_sql cs) = Some cs"
  using scripts_differ by (auto simp: script_of_def)

lemma read_texts: "q \<in> READS \<Longrightarrow> take 7 q \<in> {''PRAGMA '', ''SELECT '', ''VACUUM ''}"
  by (auto simp: READS_def COUNT_TIMESTAMP_def SCHEMA_QUERY_def VACUUM_INTO_def)

lemma read_answer_reads: "read_answer q d = Some shown \<Longrightarrow> q \<in> READS"
  by (auto simp: READS_def read_answer_def split: if_splits)

lemma other_texts:
  assumes "take 7 q \<in> {''BEGIN;A'', ''BEGIN I'', ''VACUUM''}"
  shows "q \<noteq> VACUUM_INTO" and "read_answer q d = None"
proof -
  have "q \<notin> READS" using read_texts [of q] assms by auto
  then show "q \<noteq> VACUUM_INTO" "read_answer q d = None"
    using read_answer_reads [of q d] by (auto simp: READS_def intro: option.exhaust [of "read_answer q d"])
qed

lemma script_of_none: "take 7 q \<in> {''BEGIN I'', ''VACUUM''} \<Longrightarrow> script_of q = None"
  using script_texts by (auto simp: script_of_def)

lemma append_all_some: "append_all n acc xs = Some q \<Longrightarrow> \<exists>r. q = acc @ concat xs @ r"
  by (induction n acc xs rule: append_all.induct) (auto split: if_splits)

lemma compaction_text:
  assumes "mig_build_consolidate_sql MIG_CONSOLIDATE_SQL_SIZE now = Some q \<or> q = ''VACUUM''"
  shows "take 7 q \<in> {''BEGIN I'', ''VACUUM''}"
  using assms
proof
  assume "mig_build_consolidate_sql MIG_CONSOLIDATE_SQL_SIZE now = Some q"
  from append_all_some [OF this [unfolded mig_build_consolidate_sql_def]] show ?thesis by auto
qed simp

lemma read_not_vacuum: "q \<in> READS \<Longrightarrow> q = VACUUM_INTO \<or> read_answer q d \<noteq> None"
  by (auto simp: READS_def read_answer_def)

interpretation old: exec_child old_env
proof
  fix p q v and disk :: "old_db disk" and r
  assume "r \<notin> touched p v"
  then have "r \<noteq> p" "\<And>t. v = Some t \<Longrightarrow> r \<noteq> t" by (auto simp: touched_def)
  then show "snd (db_exec old_env p q v disk) r = disk r"
    by (auto simp: old_env_def old_exec_def split: option.split prod.split)
next
  fix p q and disk :: "old_db disk"
  assume "q \<in> READS"
  then show "snd (db_exec old_env p q None disk) p = disk p"
    using read_not_vacuum [of q "the (disk p)"] by (auto simp: old_env_def old_exec_def split: option.split)
qed (auto simp: old_env_def old_exec_def split: option.splits)

text \<open>The contract holds of it.\<close>

interpretation upgrade: upgrade_exec old_env
proof
  fix disk p d cs rc shown d'
  assume "db_at disk p d" "cs \<in> {SCRIPT_V0_TO_V1, SCRIPT_V1_TO_V2}" "db_cmd_exec True (migration_script cs) None d = (rc, shown, d')"
  then show "fst (db_exec old_env p (script_sql cs) None disk) = (rc, shown) \<and>
      db_at (snd (db_exec old_env p (script_sql cs) None disk)) p d'"
    using other_texts [of "script_sql cs"] script_texts [of cs] script_of_script [of cs]
    by (simp add: db_at_def old_env_def old_exec_def)
next
  fix disk :: "old_db disk" and p d t
  assume "db_at disk p d"
  then show "fst (fst (db_exec old_env p VACUUM_INTO (Some t) disk)) = 0"
    by (simp add: db_at_def old_env_def old_exec_def)
next
  fix disk :: "old_db disk" and p d now q
  assume "db_at disk p d" "has_schema SQL_CREATE_COLS d" "mig_build_consolidate_sql MIG_CONSOLIDATE_SQL_SIZE now = Some q \<or> q = ''VACUUM''"
  then show "\<exists>d'. fst (fst (db_exec old_env p q None disk)) = 0 \<and> db_at (snd (db_exec old_env p q None disk)) p d' \<and>
      has_schema SQL_CREATE_COLS d' \<and> o_version d' = o_version d"
    using compaction_text [of now q] other_texts [of q] script_of_none [of q]
    by (intro exI [of _ d]) (auto simp: db_at_def old_env_def old_exec_def)
qed (simp_all add: db_at_def old_env_def old_exec_def read_answer_def VACUUM_INTO_def COUNT_TIMESTAMP_def SCHEMA_QUERY_def)

theorem migrate_upgrades_witness:
  "\<exists>disk'. do_migrate (2 ^ 63 - 1) old_env ''m.db'' True False False ((\<lambda>_. None)(''m.db'' := Some sample_v0)) = (0, None, None, disk') \<and>
     disk' (backup_name ''m.db'' 0) = Some sample_v0"
proof -
  have "working_system old_env" by (simp add: working_system_def old_env_def)
  moreover have "o_version sample_v0 = 0" by (simp add: sample_v0_def)
  ultimately show ?thesis
    using migrate_upgrades [OF upgrade.upgrade_exec_axioms, of "''m.db''" sample_v0 "(\<lambda>_. None)(''m.db'' := Some sample_v0)"]
      backup_names(1) sample_v0_schema by auto
qed

end
