(* ===== verification/Delivery.thy ===== *)
theory Delivery
  imports Alerts
begin

text \<open>
  \<open>src/alerts.c\<close>, the sockets of a delivery with their clock: the deadline \<open>conn_t\<close> carries, the loops
  that look at it before each call, and the callbacks given to BearSSL. Time is in seconds, of which
  \<open>mono_seconds\<close> sees the whole part. What the peer answers, and how long each call took, is an
  argument; the TLS engine is BearSSL's and is one too. \<open>Alerts\<close> has the same exchange with only the
  outcomes; the two are related at the end.
\<close>

subsection \<open>The deadline\<close>

definition mono_seconds :: "rat \<Rightarrow> int" where
  "mono_seconds now = \<lfloor>now\<rfloor>"

definition in_time :: "int \<Rightarrow> rat \<Rightarrow> bool" where
  "in_time deadline now = (mono_seconds now < deadline)"

text \<open>The \<open>i\<close>-th call on the socket: how long it takes, what a \<open>read\<close> gives (nothing at the end, on an
  error and after the timeout), and how many bytes a \<open>send\<close> takes.\<close>

record peer =
  took :: "nat \<Rightarrow> rat"
  reads :: "nat \<Rightarrow> string"
  sends :: "nat \<Rightarrow> nat \<Rightarrow> int"

subsection \<open>Connecting\<close>

text \<open>Each address with the time its attempt takes; the result is the index that connected and the time.\<close>

fun connect_timed :: "int \<Rightarrow> rat \<Rightarrow> (rat \<times> conn_result option) list \<Rightarrow> nat \<Rightarrow> nat option \<times> rat" where
  "connect_timed deadline now [] i = (None, now)"
| "connect_timed deadline now ((d, attempt) # rest) i =
     (if \<not> in_time deadline now then (None, now)
      else case attempt of
             None \<Rightarrow> connect_timed deadline (now + d) rest (i + 1)
           | Some c \<Rightarrow>
               if connected c then (Some i, now + d) else connect_timed deadline (now + d) rest (i + 1))"

subsection \<open>A plain connection\<close>

text \<open>What went out, the next call and the time.\<close>

function write_timed :: "peer \<Rightarrow> int \<Rightarrow> nat \<Rightarrow> rat \<Rightarrow> string \<Rightarrow> string \<times> nat \<times> rat" where
  "write_timed p deadline i now buf =
     (if buf = [] \<or> \<not> in_time deadline now then ([], i, now)
      else if sends p i (length buf) \<le> 0 then ([], i + 1, now + took p i)
      else case write_timed p deadline (i + 1) (now + took p i) (drop (nat (sends p i (length buf))) buf) of
             (s, j, t) \<Rightarrow> (take (nat (sends p i (length buf))) buf @ s, j, t))"
  by pat_completeness auto
termination
  by (relation "measure (\<lambda>(_, _, _, _, buf). length buf)") auto

declare write_timed.simps [simp del]

text \<open>The head of the reply; \<open>None\<close>: the loop never ends.\<close>

partial_function (option) read_timed :: "peer \<Rightarrow> int \<Rightarrow> nat \<Rightarrow> rat \<Rightarrow> string \<Rightarrow> (string \<times> rat) option" where
  "read_timed p deadline i now h =
     (if \<not> in_time deadline now then Some (h, now)
      else if reads p i = [] then Some (h, now + took p i)
      else read_timed p deadline (i + 1) (now + took p i) (keep_head h (reads p i)))"

definition plain_exchange :: "peer \<Rightarrow> int \<Rightarrow> rat \<Rightarrow> string \<Rightarrow> (string \<times> string \<times> rat) option" where
  "plain_exchange p deadline now req =
     (case write_timed p deadline 0 now req of (sent, i, t) \<Rightarrow>
        (case read_timed p deadline i t [] of None \<Rightarrow> None | Some (h, t') \<Rightarrow> Some (sent, h, t')))"

subsection \<open>TLS\<close>

text \<open>The callbacks: -1 and nothing past the deadline, at the end and on an error; the time after it.\<close>

definition tls_sock_read :: "peer \<Rightarrow> int \<Rightarrow> nat \<Rightarrow> rat \<Rightarrow> nat \<Rightarrow> int \<times> string \<times> nat \<times> rat" where
  "tls_sock_read p deadline i now len =
     (if \<not> in_time deadline now then (- 1, [], i, now)
      else let s = take len (reads p i)
           in (if s \<noteq> [] then int (length s) else - 1, s, i + 1, now + took p i))"

definition tls_sock_write :: "peer \<Rightarrow> int \<Rightarrow> nat \<Rightarrow> rat \<Rightarrow> nat \<Rightarrow> int \<times> nat \<times> rat" where
  "tls_sock_write p deadline i now len =
     (if \<not> in_time deadline now then (- 1, i, now) else (sends p i len, i + 1, now + took p i))"

text \<open>The engine: what it wants of the socket next, or that it is done with the write and the flush or
  with the reads, with what came of them; and how an answer changes it.\<close>

datatype tls_want = Want_read nat | Want_write nat | Tls_done bool string

record 'e engine =
  wants :: "'e \<Rightarrow> tls_want"
  answered :: "'e \<Rightarrow> int \<Rightarrow> string \<Rightarrow> 'e"

partial_function (option) tls_run ::
    "'e engine \<Rightarrow> peer \<Rightarrow> int \<Rightarrow> nat \<Rightarrow> rat \<Rightarrow> 'e \<Rightarrow> (bool \<times> string \<times> rat) option" where
  "tls_run E p deadline i now e =
     (case wants E e of
        Tls_done ok s \<Rightarrow> Some (ok, s, now)
      | Want_read len \<Rightarrow>
          (case tls_sock_read p deadline i now len of (n, s, j, t) \<Rightarrow> tls_run E p deadline j t (answered E e n s))
      | Want_write len \<Rightarrow>
          (case tls_sock_write p deadline i now len of (n, j, t) \<Rightarrow> tls_run E p deadline j t (answered E e n [])))"

text \<open>The verdict on a chain when the check of the issuer is turned off, and the named errors.\<close>

definition BR_ERR_X509_EXPIRED :: int where "BR_ERR_X509_EXPIRED = 54"
definition BR_ERR_X509_BAD_SERVER_NAME :: int where "BR_ERR_X509_BAD_SERVER_NAME = 56"
definition BR_ERR_X509_NOT_TRUSTED :: int where "BR_ERR_X509_NOT_TRUSTED = 62"

definition xi_end_chain :: "int \<Rightarrow> int" where
  "xi_end_chain err = (if err = BR_ERR_X509_NOT_TRUSTED then 0 else err)"

definition tls_error_name :: "int \<Rightarrow> string" where
  "tls_error_name err =
     (if err = BR_ERR_X509_EXPIRED then '' (certificate expired or not yet valid)''
      else if err = BR_ERR_X509_BAD_SERVER_NAME then '' (certificate does not match the host name)''
      else if err = BR_ERR_X509_NOT_TRUSTED then '' (certificate not trusted)''
      else [])"

subsection \<open>A delivery\<close>

text \<open>From the deadline on: the lookup of the name takes \<open>dns\<close>; the result is whether a 2xx came back and
  the time at the end.\<close>

definition deliver_timed ::
    "'e engine \<Rightarrow> 'e \<Rightarrow> peer \<Rightarrow> bool \<Rightarrow> rat \<Rightarrow> rat \<Rightarrow> (rat \<times> conn_result option) list option \<Rightarrow> string \<Rightarrow>
     (bool \<times> rat) option" where
  "deliver_timed E e p tls start dns ads req =
     (let deadline = mono_seconds start + DELIVERY_SECONDS
      in case ads of
           None \<Rightarrow> Some (False, start + dns)
         | Some as \<Rightarrow>
             (case connect_timed deadline (start + dns) as 0 of (found, now) \<Rightarrow>
                if found = None then Some (False, now)
                else if tls
                then (case tls_run E p deadline 0 now e of
                        None \<Rightarrow> None
                      | Some (ok, s, t) \<Rightarrow> Some (reply_ok (if ok then keep_head [] s else []), t))
                else (case plain_exchange p deadline now req of
                        None \<Rightarrow> None
                      | Some (sent, h, t) \<Rightarrow> Some (reply_ok h, t))))"

subsection \<open>Every delivery ends\<close>

text \<open>Calls take at most the 5 seconds of the socket timeouts, and time goes on.\<close>

definition time_passes :: "peer \<Rightarrow> bool" where
  "time_passes p = ((\<forall>i. 0 \<le> took p i \<and> took p i \<le> 5) \<and> (\<forall>i b. \<exists>k. b \<le> (\<Sum>j<k. took p (i + j))))"

lemma took_bounds: "time_passes p \<Longrightarrow> 0 \<le> took p i \<and> took p i \<le> 5"
  by (simp add: time_passes_def)

lemma in_time_iff: "in_time deadline now \<longleftrightarrow> now < of_int deadline"
  by (simp add: in_time_def mono_seconds_def floor_less_iff)

text \<open>After a call begun in time it is less than 5 seconds past the deadline.\<close>

definition ends_by :: "int \<Rightarrow> rat \<Rightarrow> rat \<Rightarrow> bool" where
  "ends_by deadline now t = (t = now \<or> t < of_int deadline + 5)"

lemma ends_by_call:
  "time_passes p \<Longrightarrow> in_time deadline now \<Longrightarrow> now + took p i < of_int deadline + 5"
  using took_bounds [of p i] by (simp add: in_time_iff)

lemma ends_by_step:
  assumes "time_passes p" and "in_time deadline now" and "ends_by deadline (now + took p i) t"
  shows "ends_by deadline now t"
  using ends_by_call [OF assms(1,2), of i] assms(3) by (auto simp: ends_by_def)

lemma ends_by_trans: "ends_by deadline now s \<Longrightarrow> ends_by deadline s t \<Longrightarrow> ends_by deadline now t"
  by (auto simp: ends_by_def)

lemma ends_by_refl [simp]: "ends_by deadline now now"
  by (simp add: ends_by_def)

lemma connect_timed_ends:
  assumes "\<forall>(d, a) \<in> set as. 0 \<le> d \<and> d \<le> 5" and "connect_timed deadline now as i = (found, t)"
  shows "ends_by deadline now t"
  using assms
proof (induction deadline now as i rule: connect_timed.induct)
  case (2 deadline now d a rest i)
  show ?case
  proof (cases "in_time deadline now")
    case True
    then have late: "now + d < of_int deadline + 5" using 2(3) by (simp add: in_time_iff)
    have "ends_by deadline (now + d) t"
      using True 2 by (auto split: option.splits if_splits)
    then show ?thesis using late by (auto simp: ends_by_def)
  qed (use 2(4) in simp)
qed simp

lemma write_timed_ends:
  assumes "time_passes p" and "write_timed p deadline i now buf = (s, j, t)"
  shows "ends_by deadline now t"
  using assms
proof (induction p deadline i now buf arbitrary: s j t rule: write_timed.induct)
  case (1 p deadline i now buf)
  show ?case
  proof (cases "buf = [] \<or> \<not> in_time deadline now")
    case True
    then show ?thesis using 1(3) by (subst (asm) write_timed.simps) simp
  next
    case False
    then have "ends_by deadline (now + took p i) t"
      using 1 by (subst (asm) write_timed.simps) (auto split: if_splits prod.splits)
    then show ?thesis using ends_by_step [OF 1(2)] False by blast
  qed
qed

text \<open>A loop that makes a call at each turn while in time returns: by induction on the calls until the
  deadline.\<close>

lemma sum_shift: "(\<Sum>j<Suc k. f (i + j)) = (f i :: rat) + (\<Sum>j<k. f (Suc i + j))"
  by (induction k) (simp_all add: algebra_simps)

lemma loop_returns:
  assumes "time_passes p"
    and late: "\<And>i now x. \<not> in_time deadline now \<Longrightarrow> \<exists>r t. F i now x = Some (r, t) \<and> ends_by deadline now t"
    and turn: "\<And>i now x. in_time deadline now \<Longrightarrow>
      (\<exists>r t. F i now x = Some (r, t) \<and> ends_by deadline now t) \<or> (\<exists>y. F i now x = F (Suc i) (now + took p i) y)"
  shows "\<exists>r t. F i now x = Some (r, t) \<and> ends_by deadline now t"
proof -
  obtain k where "of_int deadline - now \<le> (\<Sum>j<k. took p (i + j))" using assms(1) unfolding time_passes_def by blast
  then show ?thesis
  proof (induction k arbitrary: i now x)
    case 0
    then show ?case by (intro late) (simp add: in_time_iff)
  next
    case (Suc k)
    show ?case
    proof (cases "in_time deadline now \<and> \<not> (\<exists>r t. F i now x = Some (r, t) \<and> ends_by deadline now t)")
      case True
      then obtain y where y: "F i now x = F (Suc i) (now + took p i) y" using turn by blast
      have "of_int deadline - (now + took p i) \<le> (\<Sum>j<k. took p (Suc i + j))"
        using Suc.prems unfolding sum_shift by simp
      from Suc.IH [OF this, of y] show ?thesis using y ends_by_step [OF assms(1)] True by fastforce
    next
      case False
      then show ?thesis using late by blast
    qed
  qed
qed

lemma read_timed_late: "\<not> in_time deadline now \<Longrightarrow> read_timed p deadline i now h = Some (h, now)"
  by (subst read_timed.simps) simp

lemma read_timed_turn:
  "in_time deadline now \<Longrightarrow> read_timed p deadline i now h =
     (if reads p i = [] then Some (h, now + took p i)
      else read_timed p deadline (Suc i) (now + took p i) (keep_head h (reads p i)))"
  by (subst read_timed.simps) simp

lemma read_timed_returns:
  assumes "time_passes p"
  shows "\<exists>h' t. read_timed p deadline i now h = Some (h', t) \<and> ends_by deadline now t"
proof (rule loop_returns [where F = "\<lambda>i now h. read_timed p deadline i now h", OF assms])
  show "\<exists>r t. read_timed p deadline i now x = Some (r, t) \<and> ends_by deadline now t" if "\<not> in_time deadline now" for i now x
    using that by (simp add: read_timed_late)
  show "(\<exists>r t. read_timed p deadline i now x = Some (r, t) \<and> ends_by deadline now t) \<or>
      (\<exists>y. read_timed p deadline i now x = read_timed p deadline (Suc i) (now + took p i) y)" if "in_time deadline now" for i now x
    using read_timed_turn [OF that, of p i x] ends_by_call [OF assms that, of i]
    by (cases "reads p i = []") (auto simp: ends_by_def)
qed

text \<open>What BearSSL documents of the callbacks: a -1 is an error that the engine gives up on, after
  finitely many more (a last \<open>close_notify\<close> that cannot be sent).\<close>

definition fails_closed :: "'e engine \<Rightarrow> bool" where
  "fails_closed E = (\<exists>left :: 'e \<Rightarrow> nat. \<forall>e s.
     (\<exists>b r. wants E (answered E e (- 1) s) = Tls_done b r) \<or> left (answered E e (- 1) s) < left e)"

lemma tls_done: "wants E e = Tls_done b r \<Longrightarrow> tls_run E p deadline i now e = Some (b, r, now)"
  by (subst tls_run.simps) simp

lemma tls_run_turn:
  assumes "in_time deadline now"
  shows "(\<exists>b r. tls_run E p deadline i now e = Some (b, r, now)) \<or>
    (\<exists>y. tls_run E p deadline i now e = tls_run E p deadline (Suc i) (now + took p i) y)"
proof (cases "wants E e")
  case (Want_read len)
  then have "tls_run E p deadline i now e = tls_run E p deadline (Suc i) (now + took p i)
      (answered E e (if take len (reads p i) \<noteq> [] then int (length (take len (reads p i))) else - 1) (take len (reads p i)))"
    using assms by (subst tls_run.simps) (simp add: tls_sock_read_def Let_def)
  then show ?thesis by blast
next
  case (Want_write len)
  then have "tls_run E p deadline i now e = tls_run E p deadline (Suc i) (now + took p i) (answered E e (sends p i len) [])"
    using assms by (subst tls_run.simps) (simp add: tls_sock_write_def)
  then show ?thesis by blast
next
  case (Tls_done b r)
  then show ?thesis using tls_done [OF Tls_done] by auto
qed

lemma tls_run_late:
  assumes late: "\<not> in_time deadline now" and "fails_closed E"
  shows "\<exists>b r. tls_run E p deadline i now e = Some (b, r, now)"
proof -
  obtain left :: "_ \<Rightarrow> nat" where down: "\<And>e s. (\<exists>b r. wants E (answered E e (- 1) s) = Tls_done b r) \<or>
      left (answered E e (- 1) s) < left e"
    using assms(2) unfolding fails_closed_def by blast
  have refused: "(\<exists>b r. wants E e = Tls_done b r) \<or>
      tls_run E p deadline i now e = tls_run E p deadline i now (answered E e (- 1) [])" for e
    using late by (cases "wants E e"; subst tls_run.simps) (simp_all add: tls_sock_read_def tls_sock_write_def)
  show ?thesis
  proof (induction "left e" arbitrary: e rule: less_induct)
    case less
    show ?case
      using refused [of e] tls_done down [of e "[]"] less [of "answered E e (- 1) []"] by metis
  qed
qed

lemma tls_run_returns:
  assumes "time_passes p" and "fails_closed E"
  shows "\<exists>b s t. tls_run E p deadline i now e = Some (b, s, t) \<and> ends_by deadline now t"
proof -
  define F where "F i now e = map_option (\<lambda>(b, s, t). ((b, s), t)) (tls_run E p deadline i now e)" for i now e
  have "\<exists>r t. F i now e = Some (r, t) \<and> ends_by deadline now t"
  proof (rule loop_returns [where F = F, OF assms(1)])
    show "\<exists>r t. F i now x = Some (r, t) \<and> ends_by deadline now t" if "\<not> in_time deadline now" for i now x
      using tls_run_late [OF that assms(2), of p i x] by (auto simp: F_def)
    show "(\<exists>r t. F i now x = Some (r, t) \<and> ends_by deadline now t) \<or> (\<exists>y. F i now x = F (Suc i) (now + took p i) y)"
      if "in_time deadline now" for i now x
      using tls_run_turn [OF that, of E p i x] by (auto simp: F_def)
  qed
  then show ?thesis by (auto simp: F_def)
qed

text \<open>C19: A delivery always ends, and soon: whatever the peer sends and however slowly, with sockets whose
  calls take at most 5 seconds and a TLS engine that gives up on an error of its socket, the delivery
  returns, and less than 15 seconds after its start (the deadline of 10 and one call under way),
  unless the lookup of the name alone took longer.\<close>

theorem delivery_ends:
  assumes "time_passes p" and "fails_closed E" and "\<And>as. ads = Some as \<Longrightarrow> \<forall>(d, a) \<in> set as. 0 \<le> d \<and> d \<le> 5"
  shows "\<exists>ok t. deliver_timed E e p tls start dns ads req = Some (ok, t) \<and> (t = start + dns \<or> t < start + 15)"
proof -
  define deadline where "deadline = mono_seconds start + DELIVERY_SECONDS"
  have soon: "t = start + dns \<or> t < start + 15" if "ends_by deadline (start + dns) t" for t
  proof -
    have "of_int deadline \<le> start + 10"
      by (simp add: deadline_def mono_seconds_def DELIVERY_SECONDS_def)
    then show ?thesis using that by (auto simp: ends_by_def)
  qed
  show ?thesis
  proof (cases ads)
    case None
    then show ?thesis by (intro exI [of _ False] exI [of _ "start + dns"]) (simp add: deliver_timed_def)
  next
    case (Some as)
    obtain found now where c: "connect_timed deadline (start + dns) as 0 = (found, now)"
      by (cases "connect_timed deadline (start + dns) as 0")
    have now: "ends_by deadline (start + dns) now" by (rule connect_timed_ends [OF assms(3) [OF Some] c])
    obtain b s u where r: "tls_run E p deadline 0 now e = Some (b, s, u)" "ends_by deadline now u"
      using tls_run_returns [OF assms(1,2)] by blast
    obtain sent i w where wr: "write_timed p deadline 0 now req = (sent, i, w)" by (cases "write_timed p deadline 0 now req")
    obtain h t where rd: "read_timed p deadline i w [] = Some (h, t)" "ends_by deadline w t"
      using read_timed_returns [OF assms(1)] by blast
    have "ends_by deadline (start + dns) u" "ends_by deadline (start + dns) t"
      using ends_by_trans [OF now r(2)] ends_by_trans [OF now ends_by_trans [OF write_timed_ends [OF assms(1) wr] rd(2)]] by simp_all
    then show ?thesis
      using now Some c r(1) wr rd(1) soon
      by (auto simp: deliver_timed_def plain_exchange_def Let_def simp flip: deadline_def)
  qed
qed

subsection \<open>The outcomes\<close>

text \<open>What the calls say, in the terms of \<open>Alerts\<close>: whether it is in time at the \<open>i\<close>-th turn of the write
  loop, and the pieces read in time.\<close>

lemma write_timed_sent:
  assumes "\<And>k. in_time deadline (now + (\<Sum>j<k. took p (i + j))) = early (n + k)" and "\<And>k m. sends p (i + k) m = takes (n + k) m"
  shows "fst (write_timed p deadline i now buf) = write_all early takes n buf"
  using assms
proof (induction p deadline i now buf arbitrary: n rule: write_timed.induct)
  case (1 p deadline i now buf)
  have now: "in_time deadline now = early n" and send: "sends p i m = takes n m" for m
    using 1(2) [of 0] 1(3) [of 0] by simp_all
  have next_now: "in_time deadline (now + took p i + (\<Sum>j<k. took p (i + 1 + j))) = early (n + 1 + k)" for k
    using 1(2) [of "Suc k"] sum_shift [where f = "took p" and i = i and k = k] by (simp add: add.assoc)
  have next_send: "sends p (i + 1 + k) m = takes (n + 1 + k) m" for k m
    using 1(3) [of "Suc k" m] by simp
  show ?case
  proof (cases "buf = [] \<or> \<not> in_time deadline now \<or> sends p i (length buf) \<le> 0")
    case True
    then show ?thesis using now send by (subst write_timed.simps, subst write_all.simps) auto
  next
    case False
    then show ?thesis
      using 1(1) [of "n + 1"] next_now next_send now send
      by (subst write_timed.simps, subst write_all.simps) (auto split: prod.split)
  qed
qed

lemma read_timed_pieces:
  assumes "read_timed p deadline i now h = Some y"
  shows "\<exists>j \<ge> i. fst y = foldl keep_head h (map (reads p) [i..<j])"
proof (rule read_timed.raw_induct [where P = "\<lambda>p deadline i now h y. \<exists>j \<ge> i. fst y = foldl keep_head h (map (reads p) [i..<j])", OF _ assms])
  fix f and p :: peer and deadline i now h y
  assume IH: "\<And>p deadline i now h y. f p deadline i now h = Some y \<Longrightarrow> \<exists>j \<ge> i. fst y = foldl keep_head h (map (reads p) [i..<j])"
    and eq: "(if \<not> in_time deadline now then Some (h, now) else if reads p i = [] then Some (h, now + took p i)
      else f p deadline (i + 1) (now + took p i) (keep_head h (reads p i))) = Some y"
  show "\<exists>j \<ge> i. fst y = foldl keep_head h (map (reads p) [i..<j])"
  proof (cases "in_time deadline now \<and> reads p i \<noteq> []")
    case True
    then have "f p deadline (i + 1) (now + took p i) (keep_head h (reads p i)) = Some y" using eq by simp
    from IH [OF this] obtain j where j: "i + 1 \<le> j" "fst y = foldl keep_head (keep_head h (reads p i)) (map (reads p) [i + 1..<j])"
      by blast
    then show ?thesis by (intro exI [of _ j]) (simp add: upt_conv_Cons)
  next
    case False
    then show ?thesis using eq by (intro exI [of _ i]) (auto split: if_splits)
  qed
qed

text \<open>A plain exchange is one of \<open>Alerts\<close>: the same bytes go out, and the same verdict is given on the
  pieces that were read.\<close>

lemma plain_exchange_outcome:
  assumes "plain_exchange p deadline now req = Some (sent, h, t)"
  shows "sent = write_all (\<lambda>n. in_time deadline (now + (\<Sum>j<n. took p j))) (sends p) 0 req"
    and "\<exists>i j. h = read_head (map (reads p) [i..<j])"
proof -
  obtain i w where w: "write_timed p deadline 0 now req = (sent, i, w)" and r: "read_timed p deadline i w [] = Some (h, t)"
    using assms by (auto simp: plain_exchange_def split: prod.splits option.splits)
  show "sent = write_all (\<lambda>n. in_time deadline (now + (\<Sum>j<n. took p j))) (sends p) 0 req"
    using write_timed_sent [of deadline now p 0 "\<lambda>n. in_time deadline (now + (\<Sum>j<n. took p j))" 0 "sends p" req] w by simp
  show "\<exists>i j. h = read_head (map (reads p) [i..<j])"
    using read_timed_pieces [OF r] by (auto simp: read_head_def)
qed

text \<open>A peer that gives a status line and then nothing, each call taking a second.\<close>

definition slow_peer :: peer where
  "slow_peer = \<lparr>took = (\<lambda>_. 1), reads = (\<lambda>i. if i = 1 then ''HTTP/1.1 204'' else []), sends = (\<lambda>_. int)\<rparr>"

definition no_engine :: "unit engine" where
  "no_engine = \<lparr>wants = (\<lambda>_. Tls_done False []), answered = (\<lambda>e _ _. e)\<rparr>"

theorem delivery_ends_witness:
  "\<exists>ok t. deliver_timed no_engine () slow_peer False 100 1 (Some [(5, Some Conn_refused), (1, Some Conn_now)]) ''POST'' = Some (ok, t) \<and>
    (t = 101 \<or> t < 115)"
proof -
  have "\<exists>k. b \<le> (of_nat k :: rat)" for b by (rule real_arch_simple)
  then have "time_passes slow_peer" by (simp add: time_passes_def slow_peer_def)
  moreover have "fails_closed no_engine" by (auto simp: fails_closed_def no_engine_def intro: exI [of _ False])
  ultimately have "\<exists>ok t. deliver_timed no_engine () slow_peer False 100 1 (Some [(5, Some Conn_refused), (1, Some Conn_now)]) ''POST'' =
      Some (ok, t) \<and> (t = 100 + 1 \<or> t < 100 + 15)"
    by (rule delivery_ends) auto
  then show ?thesis by (simp only: add_num_simps numeral_plus_one numeral_plus_numeral)
qed

end
