(* ===== verification/Spec2Isabelle.thy ===== *)
theory Spec2Isabelle
  imports Downsample HttpProps History MigSchemaProps MigProps Trust MetricsProps Upgrade Delivery
begin

text \<open>
  A verification library for minimoni, a system monitor in C (\<open>src/\<close>): a daemon that samples
  \<open>/proc\<close> and \<open>/sys\<close>, keeps the samples in a SQLite database of ever coarser tiers, serves them
  as JSON to a dashboard and fires alerts, and \<open>minimoni-migrate\<close>, which brings the databases of
  earlier versions to the current schema.

  How the parts interact. \<open>main.c\<close> loads the configuration (\<open>config.c\<close>) and opens the database
  (\<open>db.c\<close>). Each turn of \<open>serve\<close> collects a sample (\<open>metrics.c\<close>), inserts it, consolidates, prunes,
  and evaluates the alerts (\<open>alerts.c\<close>), which look up their cooldown in the alert log of the database,
  deliver a webhook (with the anchors of \<open>trust.c\<close> when it is https) or run a command, and log the fire.
  The HTTP server (\<open>http.c\<close>) answers on threads of its own: it picks a bucket size (\<open>downsample.c\<close>),
  queries the database and prints the rows (\<open>json.c\<close>, \<open>units.c\<close>). \<open>minimoni db\<close> (\<open>db_cmd.c\<close>) describes a
  file or runs SQL on it, and \<open>src/migrate/\<close> does everything through \<open>minimoni db exec\<close> in a child process.

  What the program does not hold itself is an argument of the definitions: the answers of system calls
  and of the clock, of SQLite (whether a step succeeds, and in what state), of civetweb, of BearSSL, and
  of the TOML parser. What SQLite computes for the statements in the sources (\<open>AVG\<close>, \<open>strftime\<close>, \<open>GROUP
  BY\<close>, \<open>LAG\<close>) is written out, since the statements are part of the sources.

  Shared foundations. \<open>Prelude\<close>: characters and collections of hints. \<open>CLib\<close>: \<open>strtol\<close>, \<open>strtoull\<close>,
  \<open>snprintf\<close>, \<open>fgets\<close>, C division and decimal printing on strings. \<open>CDouble\<close>: doubles as rationals with
  infinities and NaN, and \<open>%g\<close>; rounding is not modelled. \<open>IsoTime\<close>: timestamps as text, with the locale
  \<open>time_text\<close> (writing, reading and comparing instants) interpreted on the calendar arithmetic.
  \<open>JsonText\<close>: what a JSON value is. \<open>Tables\<close>: rows, grouping and averages.

  The components and their theories:

  \<^item> Tiered consolidation (\<open>db.c\<close>, \<open>build_consolidate_sql\<close>): \<open>Consolidate\<close> has the ladder and a pass
    (\<open>tier_insert\<close>, \<open>tier_delete\<close>) and the text of the SQL; \<open>Ladder\<close> follows a pass through the five tiers.
  \<^item> The database (\<open>db.c\<close>, \<open>db.h\<close>): \<open>Db\<close> has opening, inserting, pruning and the alert log, and the
    relation \<open>db_run\<close> of what a daemon does to the tables; \<open>Query\<close> has \<open>read_row\<close> and the queries.
  \<^item> Collection (\<open>metrics.c\<close>): \<open>Metrics\<close>, the texts of the files in, a \<open>metrics_t\<close> out, the static
    variables passed along; the counters are 64-bit words. \<open>MetricsProps\<close>: the CPU percentages.
  \<^item> \<open>Units\<close> (\<open>units.c\<close>) and \<open>Downsample\<close> (\<open>downsample.c\<close>).
  \<^item> Configuration (\<open>config.c\<close>): \<open>Config\<close> the checks of values and the key hints, \<open>ConfigLoad\<close> the
    sections of a document, \<open>ConfigProps\<close> the well-formed configurations.
  \<^item> JSON (\<open>json.c\<close>): \<open>Json\<close> the buffer and the serializers; \<open>JsonProps\<close> and \<open>JsonFits\<close> give for each writer
    the members it adds and the room it needs (\<open>emits\<close>), so that the serializers write exactly the
    JSON object specified (\<open>snapshot_members\<close>, \<open>point_members\<close>, \<open>units_text\<close>) and never run out of room.
  \<^item> Alerts (\<open>alerts.c\<close>): \<open>Alerts\<close> and \<open>AlertProps\<close>, where the cooldown log is the locale \<open>cooldown_log\<close>,
    interpreted on the table of the database. \<open>Delivery\<close>: the sockets, the deadline and the callbacks
    of a delivery, with the time each call takes. \<open>Trust\<close> (\<open>trust.c\<close>): the trust anchors.
  \<^item> The server (\<open>http.c\<close>): \<open>Http\<close> has each handler as the list of its calls on the connection, and the
    stream slots as an interleaving of the workers; \<open>HttpProps\<close> the bodies and the slots.
  \<^item> The program (\<open>main.c\<close>): \<open>MainProg\<close> the command line, the retention, the cycle and the loop of
    \<open>serve\<close>; \<open>MainProps\<close> what holds over whole runs, through all of the above. \<open>History\<close>: the samples of
    any succession of runs as the abstract state that the table summarises (\<open>summarises\<close>).
  \<^item> \<open>minimoni db\<close> (\<open>db_cmd.c\<close>): \<open>DbCmd\<close>.
  \<^item> \<open>minimoni-migrate\<close> (\<open>src/migrate/\<close>): \<open>MigExec\<close> one call of the binary (\<open>exec.c\<close>), \<open>MigSchema\<close> the
    fingerprints and scripts (\<open>migrations.c\<close>), \<open>Migrate\<close> the checks, copies, compaction and the run
    (\<open>preflight.c\<close>, \<open>snapshot.c\<close>, \<open>consolidate.c\<close>, \<open>main.c\<close>). \<open>MigSchemaProps\<close>: the scripts. \<open>MigProps\<close>:
    the files, over the locale \<open>exec_child\<close>, what the driver relies on of \<open>db exec\<close>. \<open>Upgrade\<close>: a whole
    upgrade, over \<open>upgrade_exec\<close>, which extends it with what SQLite answers on the old databases; both
    are interpreted on a \<open>db exec\<close> that runs the scripts through \<open>DbCmd\<close>.

  What the lemmas show. Consolidation: a pass loses no sample, leaves no bucket twice, and settles the
  table. The database: what is inserted is read back,
  range queries report each bucket once, pruning keeps exactly the retention, a foreign file is refused.
  The configuration: whatever loads is well formed, and from that the serializers fit their buffers and
  write JSON; a sample that is stored is the one the dashboard is sent. The daemon: over any run the tables stay free of
  duplicates, a recorded fire keeps its alert quiet for the cooldown, over any succession of runs each sample within the
  retention is in exactly one row, its own or the average of its bucket (\<open>folds\<close>, \<open>summarises\<close>), the range queries show
  them all and nothing else, and every window shown lies within what is kept. An evaluation of the alerts
  records exactly those that are due and quiet, on the log read as names and instants. The server: at most \<open>max_dashboards\<close> streams in every
  interleaving. Migration: a script is all or nothing, against what its statements make of the
  database one after the other (\<open>script_effect\<close>), the chain ends in the schema of the daemon, a
  refused run changes nothing, a run that changes the database leaves a backup, and a canonical old
  database is upgraded. Delivery: every webhook returns within 15 seconds.
  Trust: the anchors of a load are those of the certificates of the file, as the decoders alone give
  them (\<open>items_of\<close>, \<open>certificates\<close>), some of them if memory runs out.

  Bounds and termination. All loops are structural recursions or have a measure, except \<open>pem_push\<close> in
  \<open>Trust\<close> and \<open>read_timed\<close> and \<open>tls_run\<close> in \<open>Delivery\<close>, partial functions that are proved to return. Runs of the daemon, of a stream and of a child's
  output are lists of what each turn meets, of any length. Integers that may wrap in C are words or are
  reduced with \<open>to_signed\<close>; the others are integers whose bounds are proved or assumed where they matter.

  Rounding. Doubles are exact rationals, so sums, averages (\<open>sum_dbl\<close>, \<open>avg_of\<close>), percentages
  (\<open>collect_cpu\<close>) and rates (\<open>rate_of\<close>, \<open>counter_rates\<close>) are those of exact arithmetic, where the program and SQLite
  round each step: an average of equal values may differ from them in the last place. Statements about
  such values hold up to that. The float casts of the temperature limits (\<open>load_temp\<close>) are the
  identity; the signed differences of \<open>counter_rates\<close> and the capacities of \<open>grow_cap\<close> do not overflow.

  Not modelled: messages on stderr and usage texts; the rounding of doubles; file modes; the tuning of
  SQLite (\<open>synchronous\<close>, \<open>cache_size\<close>, \<open>sqlite3_release_memory\<close>); the vendored libraries, the dashboard
  (JavaScript), tests and packaging.
\<close>

end
